(* ===== verification/Prelude.thy ===== *)
theory Prelude
  imports Main "HOL-Library.Word"
begin

text \<open>
  The vocabulary shared by every component: bytes and byte strings, the little-endian
  encodings of Go's \<open>encoding/binary\<close>, the signed reading of 64-bit integers, and the
  generic facts on lists and maps that the component proofs use through the collections
  \<open>wire_simps\<close> (evaluation of encoders and decoders) and \<open>bound_intros\<close> (offsets stay in
  range).
\<close>

unbundle bit_operations_syntax

named_theorems wire_simps
named_theorems bound_intros

type_synonym byte = "8 word"
type_synonym bytes = "byte list"
type_synonym u16 = "16 word"
type_synonym u32 = "32 word"
type_synonym u64 = "64 word"

subsection \<open>Little-endian integers\<close>

text \<open>
  \<open>le_bytes n w\<close> is \<open>binary.LittleEndian.AppendUint\<dots>\<close>: the \<open>n\<close> low bytes of \<open>w\<close>, least
  significant first. \<open>le_word\<close> is \<open>binary.LittleEndian.Uint\<dots>\<close> on exactly the bytes given.
\<close>

definition le_bytes :: "nat \<Rightarrow> 'a::len word \<Rightarrow> bytes" where
  "le_bytes n w = map (\<lambda>i. ucast (drop_bit (8 * i) w)) [0..<n]"

fun le_word :: "bytes \<Rightarrow> 'a::len word" where
  "le_word [] = 0"
| "le_word (b # bs) = ucast b OR push_bit 8 (le_word bs)"

lemma length_le_bytes [simp]: "length (le_bytes n w) = n"
  by (simp add: le_bytes_def)

lemma nth_le_bytes: "i < n \<Longrightarrow> le_bytes n w ! i = ucast (drop_bit (8 * i) w)"
  by (simp add: le_bytes_def)

lemma bit_le_word:
  "bit (le_word bs :: 'a::len word) i \<longleftrightarrow>
     i < LENGTH('a) \<and> i < 8 * length bs \<and> bit (bs ! (i div 8)) (i mod 8)"
proof (induction bs arbitrary: i)
  case Nil
  then show ?case by simp
next
  case (Cons b bs)
  show ?case
  proof (cases "i < 8")
    case True
    then show ?thesis
      by (auto simp: bit_or_iff bit_ucast_iff bit_push_bit_iff)
  next
    case False
    then have "i div 8 = Suc ((i - 8) div 8)" and "i mod 8 = (i - 8) mod 8"
      by (simp_all add: le_div_geq le_mod_geq)
    moreover have "\<not> bit b i" using False
      by (auto dest: bit_imp_le_length)
    ultimately show ?thesis using False Cons.IH [of "i - 8"]
      by (auto simp: bit_or_iff bit_ucast_iff bit_push_bit_iff)
  qed
qed

lemma le_word_le_bytes [wire_simps]:
  "8 * n = LENGTH('a) \<Longrightarrow> le_word (le_bytes n w) = (w :: 'a::len word)"
proof (rule bit_word_eqI)
  fix i assume len: "8 * n = LENGTH('a)" and i: "i < LENGTH('a)"
  then have "i div 8 < n" by simp
  then show "bit (le_word (le_bytes n w) :: 'a word) i = bit w i"
    using len i
    by (simp add: bit_le_word nth_le_bytes bit_ucast_iff bit_drop_bit_eq)
qed

lemma le_bytes_le_word [wire_simps]:
  assumes "8 * length bs = LENGTH('a)"
  shows "le_bytes (length bs) (le_word bs :: 'a::len word) = bs"
proof (rule nth_equalityI)
  fix i assume i: "i < length (le_bytes (length bs) (le_word bs :: 'a word))"
  then have i': "i < length bs" by simp
  show "le_bytes (length bs) (le_word bs :: 'a word) ! i = bs ! i"
  proof (rule bit_word_eqI)
    fix j assume "j < LENGTH(8)"
    then have j: "j < 8" by simp
    from i' j have "8 * i + j < 8 * length bs" by simp
    with i' j assms
    show "bit (le_bytes (length bs) (le_word bs :: 'a word) ! i) j = bit (bs ! i) j"
      by (simp add: nth_le_bytes bit_ucast_iff bit_drop_bit_eq bit_le_word)
  qed
qed simp

lemma le_bytes_inject:
  "8 * n = LENGTH('a) \<Longrightarrow> le_bytes n v = le_bytes n w \<longleftrightarrow> v = (w :: 'a::len word)"
  by (metis le_word_le_bytes)

abbreviation le16 :: "u16 \<Rightarrow> bytes" where "le16 \<equiv> le_bytes 2"
abbreviation le32 :: "u32 \<Rightarrow> bytes" where "le32 \<equiv> le_bytes 4"
abbreviation le64 :: "u64 \<Rightarrow> bytes" where "le64 \<equiv> le_bytes 8"

subsection \<open>Signed 64-bit integers\<close>

text \<open>
  Go's \<open>int64\<close> values are mathematical integers in range; \<open>wrap64\<close> is the two's complement
  result of an operation that leaves the range.
\<close>

definition wrap64 :: "int \<Rightarrow> int" where
  "wrap64 x = (x + 2 ^ 63) mod 2 ^ 64 - 2 ^ 63"

definition in_i64 :: "int \<Rightarrow> bool" where
  "in_i64 x \<longleftrightarrow> - (2 ^ 63) \<le> x \<and> x < 2 ^ 63"

lemma wrap64_id: "in_i64 x \<Longrightarrow> wrap64 x = x"
  by (simp add: wrap64_def in_i64_def)

lemma in_i64_wrap64 [simp]: "in_i64 (wrap64 x)"
proof -
  have "0 \<le> (x + 2 ^ 63) mod 2 ^ 64" and "(x + 2 ^ 63) mod 2 ^ 64 < (2 :: int) ^ 64"
    by simp_all
  then show ?thesis by (simp add: wrap64_def in_i64_def)
qed

subsection \<open>Lists and results\<close>

definition subslice :: "nat \<Rightarrow> nat \<Rightarrow> 'a list \<Rightarrow> 'a list" where
  "subslice lo hi xs = take (hi - lo) (drop lo xs)"

lemma length_subslice [simp]: "length (subslice lo hi xs) = min (hi - lo) (length xs - lo)"
  by (simp add: subslice_def min.commute)

lemma subslice_append_mid:
  "lo = length xs \<Longrightarrow> hi = lo + length ys \<Longrightarrow> subslice lo hi (xs @ ys @ zs) = ys"
  by (simp add: subslice_def)

lemma nth_subslice: "i < hi - lo \<Longrightarrow> lo + i < length xs \<Longrightarrow> subslice lo hi xs ! i = xs ! (lo + i)"
  by (simp add: subslice_def)

text \<open>Overwriting a window of a buffer in place, as Go's \<open>copy(b[off:], v)\<close> does.\<close>

definition overwrite :: "nat \<Rightarrow> 'a list \<Rightarrow> 'a list \<Rightarrow> 'a list" where
  "overwrite off v xs = take off xs @ v @ drop (off + length v) xs"

lemma length_overwrite [simp]:
  "off + length v \<le> length xs \<Longrightarrow> length (overwrite off v xs) = length xs"
  by (simp add: overwrite_def)

lemma nth_overwrite:
  "off + length v \<le> length xs \<Longrightarrow> i < length xs \<Longrightarrow>
   overwrite off v xs ! i = (if off \<le> i \<and> i < off + length v then v ! (i - off) else xs ! i)"
  by (auto simp: overwrite_def nth_append min_def)

lemma subslice_overwrite_same:
  "off + length v \<le> length xs \<Longrightarrow> subslice off (off + length v) (overwrite off v xs) = v"
  by (simp add: overwrite_def subslice_def)

lemma subslice_overwrite_other:
  assumes "off + length v \<le> length xs" and "hi \<le> off \<or> off + length v \<le> lo"
  shows "subslice lo hi (overwrite off v xs) = subslice lo hi xs"
proof (rule nth_equalityI)
  show "length (subslice lo hi (overwrite off v xs)) = length (subslice lo hi xs)"
    using assms(1) by simp
next
  fix i assume "i < length (subslice lo hi (overwrite off v xs))"
  then have "i < hi - lo" and "lo + i < length xs" using assms(1) by auto
  then show "subslice lo hi (overwrite off v xs) ! i = subslice lo hi xs ! i"
    using assms by (auto simp: nth_subslice nth_overwrite)
qed

end
