(* ===== verification/Wire.thy ===== *)
theory Wire
  imports Prelude
begin

text \<open>
  The typed byte buffers of the lobby protocol: \<open>bdWriter\<close> and \<open>bdReader\<close>
  (\<open>services.go\<close>, with the readers of \<open>matchmaking.go\<close>, \<open>friends.go\<close>, \<open>ctr_presence.go\<close>,
  \<open>ctr_stats.go\<close> and the writers of \<open>ctr_marketplace.go\<close>), and the task replies built with
  them. A writer method is the byte string it appends. A reader is a function from the buffer
  and offset to a result and the new offset; a failed read leaves the offset where the code
  leaves it, because several handlers ignore the error and go on reading.

  The locales \<open>bounded_reader\<close> (a read stays inside the buffer) and \<open>codec\<close> (a read inverts
  a write) are the contract the request parsers rely on.
\<close>

subsection \<open>Tags and writers\<close>

definition tagBool :: byte where "tagBool = 0x01"
definition tagU8 :: byte where "tagU8 = 0x03"
definition tagU16 :: byte where "tagU16 = 0x06"
definition tagU32 :: byte where "tagU32 = 0x08"
definition tagI64 :: byte where "tagI64 = 0x09"
definition tagU64 :: byte where "tagU64 = 0x0A"
definition tagString :: byte where "tagString = 0x10"
definition tagBlob :: byte where "tagBlob = 0x13"
definition tagStruct :: byte where "tagStruct = 0x17"

lemmas tag_defs [wire_simps] =
  tagBool_def tagU8_def tagU16_def tagU32_def tagI64_def tagU64_def tagString_def
  tagBlob_def tagStruct_def

text \<open>Go strings are byte strings; \<open>lit\<close> gives the bytes of an ASCII literal.\<close>

definition lit :: "string \<Rightarrow> bytes" where
  "lit s = map of_char s"

definition w_u8 :: "byte \<Rightarrow> bytes" where
  "w_u8 v = [tagU8, v]"

definition w_strv :: "bytes \<Rightarrow> bytes" where
  "w_strv s = tagString # s @ [0]"

definition w_boolv :: "bool \<Rightarrow> bytes" where
  "w_boolv v = [tagBool, if v then 1 else 0]"

definition w_u16 :: "u16 \<Rightarrow> bytes" where
  "w_u16 v = tagU16 # le16 v"

definition w_u32 :: "u32 \<Rightarrow> bytes" where
  "w_u32 v = tagU32 # le32 v"

definition w_u64 :: "u64 \<Rightarrow> bytes" where
  "w_u64 v = tagU64 # le64 v"

definition w_raw64 :: "u64 \<Rightarrow> bytes" where
  "w_raw64 v = le64 v"

text \<open>\<open>AppendUint64(b, uint64(v))\<close> on an \<open>int64\<close>: the two's complement bit pattern.\<close>

definition w_i64 :: "int \<Rightarrow> bytes" where
  "w_i64 v = tagI64 # le64 (word_of_int v)"

text \<open>The length prefix is \<open>uint32(len(p))\<close>, which wraps beyond 4 GiB.\<close>

definition w_blobv :: "bytes \<Rightarrow> bytes" where
  "w_blobv p = tagBlob # w_u32 (of_nat (length p)) @ p"

definition w_structv :: "bytes \<Rightarrow> bytes" where
  "w_structv p = tagStruct # w_u32 (of_nat (length p)) @ p"

subsection \<open>Readers\<close>

datatype wire_err = ErrShort | ErrTag

record bdReader =
  rbuf :: bytes
  roff :: nat

type_synonym 'a reader = "bdReader \<Rightarrow> (wire_err + 'a) \<times> bdReader"

definition advance :: "nat \<Rightarrow> bdReader \<Rightarrow> bdReader" where
  "advance n r = r\<lparr>roff := roff r + n\<rparr>"

definition remaining :: "bdReader \<Rightarrow> bytes" where
  "remaining r = drop (roff r) (rbuf r)"

definition rd_ok :: "bdReader \<Rightarrow> bool" where
  "rd_ok r \<longleftrightarrow> roff r \<le> length (rbuf r)"

definition rd_tag :: "byte \<Rightarrow> unit reader" where
  "rd_tag want r =
     (if roff r \<ge> length (rbuf r) then (Inl ErrShort, r)
      else if rbuf r ! roff r \<noteq> want then (Inl ErrTag, r)
      else (Inr (), advance 1 r))"

text \<open>A tag followed by a fixed number of bytes: the shape of every integer reader.\<close>

definition rd_fixed :: "byte \<Rightarrow> nat \<Rightarrow> bytes reader" where
  "rd_fixed want n r =
     (case rd_tag want r of
        (Inl e, r) \<Rightarrow> (Inl e, r)
      | (Inr _, r) \<Rightarrow>
          if roff r + n > length (rbuf r) then (Inl ErrShort, r)
          else (Inr (take n (remaining r)), advance n r))"

definition rd_map :: "('a \<Rightarrow> 'b) \<Rightarrow> 'a reader \<Rightarrow> 'b reader" where
  "rd_map f get r = (case get r of (Inl e, r) \<Rightarrow> (Inl e, r) | (Inr v, r) \<Rightarrow> (Inr (f v), r))"

definition rd_u8 :: "byte reader" where
  "rd_u8 = rd_map hd (rd_fixed tagU8 1)"

definition rd_u32 :: "u32 reader" where
  "rd_u32 = rd_map le_word (rd_fixed tagU32 4)"

definition rd_u64 :: "u64 reader" where
  "rd_u64 = rd_map le_word (rd_fixed tagU64 8)"

definition statsInt64 :: "int reader" where
  "statsInt64 = rd_map (\<lambda>bs. sint (le_word bs :: u64)) (rd_fixed tagI64 8)"

text \<open>
  \<open>str\<close> scans for the terminating zero byte; the offset stays after the tag when there is
  none.
\<close>

definition rd_str :: "bytes reader" where
  "rd_str r =
     (case rd_tag tagString r of
        (Inl e, r) \<Rightarrow> (Inl e, r)
      | (Inr _, r) \<Rightarrow>
          let s = takeWhile (\<lambda>b. b \<noteq> 0) (remaining r) in
          if roff r + length s \<ge> length (rbuf r) then (Inl ErrShort, r)
          else (Inr s, advance (length s + 1) r))"

definition rd_blob :: "bytes reader" where
  "rd_blob r =
     (case rd_tag tagBlob r of
        (Inl e, r) \<Rightarrow> (Inl e, r)
      | (Inr _, r) \<Rightarrow>
         (case rd_u32 r of
            (Inl e, r) \<Rightarrow> (Inl e, r)
          | (Inr n, r) \<Rightarrow>
              if roff r + unat n > length (rbuf r) then (Inl ErrShort, r)
              else (Inr (take (unat n) (remaining r)), advance (unat n) r)))"

text \<open>\<open>rest\<close>: what is left, without the zero byte that ends every request.\<close>

definition rd_rest :: "bdReader \<Rightarrow> bytes" where
  "rd_rest r =
     (let v = remaining r in
      if v \<noteq> [] \<and> last v = 0 then butlast v else v)"

text \<open>The loop of a handler that reads \<open>n\<close> elements and gives up at the first error.\<close>

fun rd_n :: "'a reader \<Rightarrow> nat \<Rightarrow> 'a list reader" where
  "rd_n get 0 r = (Inr [], r)"
| "rd_n get (Suc n) r =
     (case get r of
        (Inl e, r) \<Rightarrow> (Inl e, r)
      | (Inr v, r) \<Rightarrow>
         (case rd_n get n r of
            (Inl e, r) \<Rightarrow> (Inl e, r)
          | (Inr vs, r) \<Rightarrow> (Inr (v # vs), r)))"

definition rd_pair :: "'a reader \<Rightarrow> 'b reader \<Rightarrow> ('a \<times> 'b) reader" where
  "rd_pair g h r =
     (case g r of
        (Inl e, r) \<Rightarrow> (Inl e, r)
      | (Inr x, r) \<Rightarrow>
         (case h r of (Inl e, r) \<Rightarrow> (Inl e, r) | (Inr y, r) \<Rightarrow> (Inr (x, y), r)))"

lemmas rd_defs [wire_simps] =
  rd_u8_def rd_u32_def rd_u64_def statsInt64_def rd_str_def rd_blob_def rd_fixed_def
  rd_map_def rd_tag_def rd_pair_def rd_rest_def advance_def remaining_def

lemmas w_defs [wire_simps] =
  w_u8_def w_strv_def w_boolv_def w_u16_def w_u32_def w_u64_def w_raw64_def w_i64_def
  w_blobv_def w_structv_def lit_def

subsection \<open>Contract: a read stays inside the buffer\<close>

locale bounded_reader =
  fixes get :: "'a reader"
  assumes get_bounded:
    "rd_ok r \<Longrightarrow> get r = (res, r') \<Longrightarrow>
       rbuf r' = rbuf r \<and> roff r \<le> roff r' \<and> rd_ok r'"
begin

lemma rd_map_bounded: "bounded_reader (rd_map f get)"
proof
  fix r res r' assume "rd_ok r" and "rd_map f get r = (res, r')"
  then obtain x where "get r = (x, r')"
    by (auto simp: rd_map_def split: prod.splits sum.splits)
  with \<open>rd_ok r\<close> show "rbuf r' = rbuf r \<and> roff r \<le> roff r' \<and> rd_ok r'"
    by (rule get_bounded)
qed

lemma rd_n_bounded: "bounded_reader (rd_n get n)"
proof
  fix r res r' assume "rd_ok r" and "rd_n get n r = (res, r')"
  then show "rbuf r' = rbuf r \<and> roff r \<le> roff r' \<and> rd_ok r'"
  proof (induction n arbitrary: r res r')
    case 0
    then show ?case by simp
  next
    case (Suc n)
    obtain x r1 where g: "get r = (x, r1)" by (cases "get r")
    note b = get_bounded [OF Suc.prems(1) g]
    obtain y r2 where h: "rd_n get n r1 = (y, r2)" by (cases "rd_n get n r1")
    from b h have "rbuf r2 = rbuf r1 \<and> roff r1 \<le> roff r2 \<and> rd_ok r2"
      by (intro Suc.IH) auto
    with b g h Suc.prems(2) show ?case
      by (auto split: sum.splits)
  qed
qed

end

lemma rd_pair_bounded:
  assumes "bounded_reader g" and "bounded_reader h"
  shows "bounded_reader (rd_pair g h)"
proof
  fix r res r' assume r: "rd_ok r" and p: "rd_pair g h r = (res, r')"
  obtain x r1 where g: "g r = (x, r1)" by (cases "g r")
  note b1 = bounded_reader.get_bounded [OF assms(1) r g]
  obtain y r2 where h: "h r1 = (y, r2)" by (cases "h r1")
  note b2 = bounded_reader.get_bounded [OF assms(2) _ h]
  from b1 b2 g h p show "rbuf r' = rbuf r \<and> roff r \<le> roff r' \<and> rd_ok r'"
    by (auto simp: rd_pair_def split: sum.splits)
qed

lemma rd_fixed_bounded: "bounded_reader (rd_fixed t n)"
  by unfold_locales
     (auto simp: rd_fixed_def rd_tag_def rd_ok_def advance_def split: if_splits)

interpretation u8_rd: bounded_reader rd_u8
  unfolding rd_u8_def by (rule bounded_reader.rd_map_bounded, rule rd_fixed_bounded)

interpretation u32_rd: bounded_reader rd_u32
  unfolding rd_u32_def by (rule bounded_reader.rd_map_bounded, rule rd_fixed_bounded)

interpretation u64_rd: bounded_reader rd_u64
  unfolding rd_u64_def by (rule bounded_reader.rd_map_bounded, rule rd_fixed_bounded)

interpretation i64_rd: bounded_reader statsInt64
  unfolding statsInt64_def by (rule bounded_reader.rd_map_bounded, rule rd_fixed_bounded)

interpretation str_rd: bounded_reader rd_str
  by unfold_locales
     (auto simp: rd_str_def rd_tag_def rd_ok_def advance_def Let_def split: if_splits)

interpretation blob_rd: bounded_reader rd_blob
proof
  fix r res r' assume r: "rd_ok r" and b: "rd_blob r = (res, r')"
  obtain x r1 where t: "rd_tag tagBlob r = (x, r1)" by (cases "rd_tag tagBlob r")
  from r t have r1: "rbuf r1 = rbuf r" "roff r \<le> roff r1" "rd_ok r1"
    by (auto simp: rd_tag_def rd_ok_def advance_def split: if_splits)
  obtain y r2 where u: "rd_u32 r1 = (y, r2)" by (cases "rd_u32 r1")
  note b2 = u32_rd.get_bounded [OF r1(3) u]
  from r1 b2 t u b show "rbuf r' = rbuf r \<and> roff r \<le> roff r' \<and> rd_ok r'"
    by (auto simp: rd_blob_def rd_ok_def advance_def split: sum.splits if_splits)
qed

subsection \<open>Contract: a read inverts a write\<close>

lemma remaining_advance:
  "remaining r = xs @ rest \<Longrightarrow> remaining (advance (length xs) r) = rest"
  by (simp add: remaining_def advance_def drop_drop [symmetric] add.commute
           del: drop_drop)

lemma roff_advance [simp]: "roff (advance n r) = roff r + n"
  by (simp add: advance_def)

lemma rbuf_advance [simp]: "rbuf (advance n r) = rbuf r"
  by (simp add: advance_def)

lemma advance_advance [simp]: "advance m (advance n r) = advance (n + m) r"
  by (simp add: advance_def add.assoc)

lemma advance_0 [simp]: "advance 0 r = r"
  by (simp add: advance_def)

lemma length_remaining: "length (remaining r) = length (rbuf r) - roff r"
  by (simp add: remaining_def)

lemma remaining_Cons_roff: "remaining r = x # xs \<Longrightarrow> roff r < length (rbuf r)"
  by (metis length_remaining length_Cons zero_less_Suc zero_less_diff)

lemma rd_tag_hit: "remaining r = t # rest \<Longrightarrow> rd_tag t r = (Inr (), advance 1 r)"
  using remaining_Cons_roff [of r t rest]
  by (auto simp: rd_tag_def remaining_def nth_via_drop)

lemma rd_fixed_hit:
  assumes "remaining r = t # xs @ rest" and "length xs = n"
  shows "rd_fixed t n r = (Inr xs, advance (Suc n) r)"
proof -
  have rem: "remaining (advance 1 r) = xs @ rest"
    using remaining_advance [of r "[t]" "xs @ rest"] assms(1) by simp
  have "roff (advance 1 r) + n \<le> length (rbuf (advance 1 r))"
    using rem assms(2) remaining_Cons_roff [OF assms(1)]
    by (metis length_append length_remaining le_add1 nat_add_left_cancel_le
        le_add_diff_inverse Suc_eq_plus1 Suc_leI roff_advance rbuf_advance)
  then show ?thesis
    using assms rem by (simp add: rd_fixed_def rd_tag_hit)
qed

locale codec =
  fixes put :: "'a \<Rightarrow> bytes"
    and get :: "'a reader"
    and valid :: "'a \<Rightarrow> bool"
  assumes get_put:
    "valid v \<Longrightarrow> remaining r = put v @ rest \<Longrightarrow> get r = (Inr v, advance (length (put v)) r)"
begin

lemma get_n_put:
  "list_all valid vs \<Longrightarrow> remaining r = concat (map put vs) @ rest \<Longrightarrow>
   rd_n get (length vs) r = (Inr vs, advance (length (concat (map put vs))) r)"
proof (induction vs arbitrary: r)
  case Nil
  then show ?case by simp
next
  case (Cons v vs)
  from Cons.prems(2) have rem: "remaining r = put v @ concat (map put vs) @ rest" by simp
  from Cons.prems(1) have "get r = (Inr v, advance (length (put v)) r)"
    using get_put [OF _ rem] by simp
  moreover have "rd_n get (length vs) (advance (length (put v)) r) =
      (Inr vs, advance (length (concat (map put vs))) (advance (length (put v)) r))"
    using Cons.prems(1) remaining_advance [OF rem] by (intro Cons.IH) auto
  ultimately show ?case by simp
qed

text \<open>Reading in sequence: the value read, and what is left.\<close>

lemma read_next:
  assumes "remaining r = put v @ rest" and "valid v"
  obtains r' where "get r = (Inr v, r')" "remaining r' = rest"
  using that get_put [OF assms(2,1)] remaining_advance [OF assms(1)] by blast

lemma read_next_n:
  assumes "remaining r = concat (map put vs) @ rest" and "list_all valid vs"
  obtains r' where "rd_n get (length vs) r = (Inr vs, r')" "remaining r' = rest"
  using that get_n_put [OF assms(2,1)] remaining_advance [OF assms(1)] by blast

lemma put_inject:
  assumes "valid v" and "valid w" and "put v @ xs = put w @ ys"
  shows "v = w \<and> xs = ys"
proof -
  define r where "r = \<lparr>rbuf = put v @ xs, roff = 0\<rparr>"
  have "remaining r = put v @ xs" and "remaining r = put w @ ys"
    using assms(3) by (simp_all add: r_def remaining_def)
  with assms(1,2) have "get r = (Inr v, advance (length (put v)) r)"
    and "get r = (Inr w, advance (length (put w)) r)"
    by (blast intro: get_put)+
  with assms(3) show ?thesis by simp
qed

end

lemma codec_map_fixed:
  assumes "\<And>v. put v = t # enc v" and "\<And>v. length (enc v) = n"
    and "\<And>v. valid v \<Longrightarrow> dec (enc v) = v"
  shows "codec put (rd_map dec (rd_fixed t n)) valid"
proof
  fix v r rest assume "valid v" and "remaining r = put v @ rest"
  then show "rd_map dec (rd_fixed t n) r = (Inr v, advance (length (put v)) r)"
    using assms by (simp add: rd_map_def rd_fixed_hit)
qed

lemma codec_pair:
  assumes "codec p g P" and "codec q h Q"
  shows "codec (\<lambda>(x, y). p x @ q y) (rd_pair g h) (\<lambda>(x, y). P x \<and> Q y)"
proof
  fix v r rest
  assume "case v of (x, y) \<Rightarrow> P x \<and> Q y"
    and "remaining r = (case v of (x, y) \<Rightarrow> p x @ q y) @ rest"
  then obtain x y where v: "v = (x, y)" "P x" "Q y" and rem: "remaining r = p x @ q y @ rest"
    by (auto split: prod.splits)
  have "g r = (Inr x, advance (length (p x)) r)"
    by (rule codec.get_put [OF assms(1) v(2) rem])
  moreover have "h (advance (length (p x)) r) =
      (Inr y, advance (length (q y)) (advance (length (p x)) r))"
    by (rule codec.get_put [OF assms(2) v(3) remaining_advance [OF rem]])
  ultimately show "rd_pair g h r =
      (Inr v, advance (length (case v of (x, y) \<Rightarrow> p x @ q y)) r)"
    by (simp add: rd_pair_def v)
qed

interpretation u8: codec w_u8 rd_u8 "\<lambda>_. True"
  unfolding rd_u8_def by (rule codec_map_fixed [where enc = "\<lambda>v. [v]"]) (simp_all add: w_u8_def)

interpretation u32: codec w_u32 rd_u32 "\<lambda>_. True"
  unfolding rd_u32_def
  by (rule codec_map_fixed [where enc = le32]) (simp_all add: w_u32_def le_word_le_bytes)

interpretation u64: codec w_u64 rd_u64 "\<lambda>_. True"
  unfolding rd_u64_def
  by (rule codec_map_fixed [where enc = le64]) (simp_all add: w_u64_def le_word_le_bytes)

lemma sint_word_of_int_i64: "in_i64 v \<Longrightarrow> sint (word_of_int v :: u64) = v"
  by (simp add: in_i64_def sint_sbintrunc' signed_take_bit_int_eq_self)

interpretation i64: codec w_i64 statsInt64 in_i64
  unfolding statsInt64_def
  by (rule codec_map_fixed [where enc = "\<lambda>v. le64 (word_of_int v)"])
     (simp_all add: w_i64_def le_word_le_bytes sint_word_of_int_i64)

definition nul_free :: "bytes \<Rightarrow> bool" where
  "nul_free s \<longleftrightarrow> (\<forall>b \<in> set s. b \<noteq> 0)"

interpretation str: codec w_strv rd_str nul_free
proof
  fix v r rest assume v: "nul_free v" and rem: "remaining r = w_strv v @ rest"
  then have rem': "remaining r = tagString # v @ 0 # rest" by (simp add: w_strv_def)
  have r1: "remaining (advance 1 r) = v @ 0 # rest"
    using remaining_advance [of r "[tagString]"] rem' by simp
  have tw: "takeWhile (\<lambda>b. b \<noteq> 0) (v @ 0 # rest) = v"
    using v by (simp add: takeWhile_append nul_free_def)
  have "length (rbuf r) - roff r = length (tagString # v @ 0 # rest)"
    using rem' by (metis length_remaining)
  then have "roff r + 1 + length v < length (rbuf r)" by simp
  then show "rd_str r = (Inr v, advance (length (w_strv v)) r)"
    using rem' r1 tw by (simp add: rd_str_def rd_tag_hit Let_def w_strv_def)
qed

interpretation blob: codec w_blobv rd_blob "\<lambda>p. length p < 2 ^ 32"
proof
  fix p r rest assume p: "length p < 2 ^ 32" and rem: "remaining r = w_blobv p @ rest"
  then have rem': "remaining r = tagBlob # w_u32 (of_nat (length p)) @ p @ rest"
    by (simp add: w_blobv_def)
  have r1: "remaining (advance 1 r) = w_u32 (of_nat (length p)) @ p @ rest"
    using remaining_advance [of r "[tagBlob]"] rem' by simp
  have r2: "remaining (advance 6 r) = p @ rest"
    using remaining_advance [OF r1] by (simp add: w_u32_def)
  have n: "unat (of_nat (length p) :: u32) = length p"
    using p by (simp add: unat_of_nat take_bit_nat_eq_self)
  have "length (rbuf r) - roff r = length (tagBlob # w_u32 (of_nat (length p)) @ p @ rest)"
    using rem' by (metis length_remaining)
  then have "roff r + 6 + length p \<le> length (rbuf r)" by (simp add: w_u32_def)
  moreover have "rd_u32 (advance 1 r) = (Inr (of_nat (length p)), advance 6 r)"
    using u32.get_put [OF _ r1] by (simp add: w_u32_def)
  ultimately show "rd_blob r = (Inr p, advance (length (w_blobv p)) r)"
    using rem' r2 n by (simp add: rd_blob_def rd_tag_hit w_blobv_def w_u32_def)
qed

end
