(* ===== verification/Proto.thy ===== *)
theory Proto
  imports Wire
begin

text \<open>
  Varints and the protobuf buffers ("struct buffers") of Crash Team Racing:
  \<open>appendVarint\<close> (\<open>services.go\<close>), \<open>readVarint\<close> (\<open>riftdata.go\<close>, on top of the standard
  library's \<open>binary.Uvarint\<close>), the field writers and \<open>structPayload\<close>
  (\<open>ctr_marketplace.go\<close>) and the event parser \<open>economyProto\<close> (\<open>ctr_rewards.go\<close>).
\<close>

subsection \<open>Varints\<close>

function appendVarint :: "u64 \<Rightarrow> bytes" where
  "appendVarint v =
     (if v \<ge> 0x80 then (ucast v OR 0x80) # appendVarint (drop_bit 7 v) else [ucast v])"
  by pat_completeness auto
termination
proof (relation "measure unat")
  fix v :: u64 assume "0x80 \<le> v"
  then show "(drop_bit 7 v, v) \<in> measure unat"
    by (simp add: word_le_nat_alt unat_drop_bit_eq drop_bit_nat_def)
qed simp

declare appendVarint.simps [simp del]

text \<open>
  \<open>binary.Uvarint\<close>: the value and the number of bytes read, 0 when the buffer is too
  small, negative when the value overflows 64 bits.
\<close>

fun uvarint :: "nat \<Rightarrow> u64 \<Rightarrow> bytes \<Rightarrow> u64 \<times> int" where
  "uvarint i x [] = (0, 0)"
| "uvarint i x (b # bs) =
     (if i = 10 then (0, - (int i + 1))
      else if b < 0x80 then
        (if i = 9 \<and> b > 1 then (0, - (int i + 1))
         else (x OR push_bit (7 * i) (ucast b), int i + 1))
      else uvarint (Suc i) (x OR push_bit (7 * i) (ucast (b AND 0x7F))) bs)"

definition readVarint :: "bytes \<Rightarrow> nat \<Rightarrow> (u64 \<times> nat) option" where
  "readVarint b i =
     (case uvarint 0 0 (drop i b) of
        (v, n) \<Rightarrow> if n \<le> 0 then None else Some (v, i + nat n))"

lemma appendVarint_nonempty [simp]: "appendVarint v \<noteq> []"
  by (simp add: appendVarint.simps [of v])

lemma bit_7F: "bit (0x7F :: byte) n \<longleftrightarrow> n < 7"
proof -
  have "(0x7F :: byte) = mask 7" by (simp add: mask_eq_exp_minus_1)
  then have "bit (0x7F :: byte) n \<longleftrightarrow> bit (mask 7 :: byte) n" by (simp only:)
  also have "\<dots> \<longleftrightarrow> n < 7" by (simp only: bit_mask_iff) auto
  finally show ?thesis .
qed

lemma bit_80: "bit (0x80 :: byte) n \<longleftrightarrow> n = 7"
proof -
  have "(0x80 :: byte) = 2 ^ 7" by simp
  then have "bit (0x80 :: byte) n \<longleftrightarrow> bit (2 ^ 7 :: byte) n" by (simp only:)
  also have "\<dots> \<longleftrightarrow> n = 7" by (simp only: bit_exp_iff) auto
  finally show ?thesis .
qed

lemma low7_or_rest:
  "push_bit n (ucast ((ucast v OR 0x80 :: byte) AND 0x7F)) OR push_bit (n + 7) (drop_bit 7 v)
     = push_bit n (v :: u64)"
proof (rule bit_word_eqI)
  fix m assume "m < LENGTH(64)"
  have "n + 7 \<le> m \<Longrightarrow> 7 + (m - (n + 7)) = m - n" by simp
  then show "bit (push_bit n (ucast ((ucast v OR 0x80 :: byte) AND 0x7F)) OR
      push_bit (n + 7) (drop_bit 7 v)) m = bit (push_bit n v) m"
    by (cases "n + 7 \<le> m")
       (auto simp only: bit_or_iff bit_and_iff bit_push_bit_iff bit_ucast_iff
          bit_drop_bit_eq bit_7F bit_80 comp_apply, auto)
qed

lemma unat_low_byte: "unat v < 2 ^ 8 \<Longrightarrow> unat (ucast (v :: u64) :: byte) = unat v"
  by (simp add: unsigned_ucast_eq unsigned_take_bit_eq take_bit_nat_eq_self)

lemma small_byte: "v < 0x80 \<Longrightarrow> (ucast (v :: u64) :: byte) < 0x80"
  by (simp add: word_less_nat_alt unat_low_byte)

lemma small_byte_back: "v < 0x80 \<Longrightarrow> ucast (ucast (v :: u64) :: byte) = v"
  by (simp add: word_less_nat_alt word_unat_eq_iff unsigned_ucast_eq unsigned_take_bit_eq
      take_bit_nat_eq_self)

lemma big_byte: "\<not> (ucast (v :: u64) OR 0x80 :: byte) < 0x80"
  using le_word_or1 [of "0x80 :: byte" "ucast v"] by (simp add: not_less)

lemma appendVarint_big:
  "v \<ge> 0x80 \<Longrightarrow> appendVarint v = (ucast v OR 0x80) # appendVarint (drop_bit 7 v)"
  by (subst appendVarint.simps) (rule if_P)

lemma appendVarint_small: "v < 0x80 \<Longrightarrow> appendVarint v = [ucast v]"
  by (subst appendVarint.simps) (simp add: not_le [symmetric])

lemma uvarint_step:
  "i < 10 \<Longrightarrow> uvarint i x ((ucast (v :: u64) OR 0x80) # bs) =
     uvarint (Suc i) (x OR push_bit (7 * i) (ucast ((ucast v OR 0x80 :: byte) AND 0x7F))) bs"
  by (simp only: uvarint.simps(2) big_byte if_False) simp

lemma shrink_shift:
  "unat (v :: u64) < 2 ^ (64 - 7 * i) \<Longrightarrow> i < 9 \<Longrightarrow> unat (drop_bit 7 v) < 2 ^ (64 - 7 * Suc i)"
proof -
  assume v: "unat v < 2 ^ (64 - 7 * i)" and i: "i < 9"
  have "64 - 7 * i = (64 - 7 * Suc i) + 7" using i by simp
  with v have "unat v < 2 ^ (64 - 7 * Suc i) * 2 ^ 7" by (simp only: power_add)
  then show ?thesis
    by (simp only: unat_drop_bit_eq drop_bit_nat_def less_mult_imp_div_less)
qed

lemma uvarint_appendVarint:
  "unat v < 2 ^ (64 - 7 * i) \<Longrightarrow> i < 10 \<Longrightarrow>
   uvarint i x (appendVarint v @ rest) =
     (x OR push_bit (7 * i) v, int (i + length (appendVarint v)))"
proof (induction v arbitrary: i x rule: appendVarint.induct)
  case (1 v)
  show ?case
  proof (cases "v \<ge> 0x80")
    case True
    then have ge: "0x80 \<le> unat v" by (simp add: word_le_nat_alt)
    have i9: "i < 9"
    proof (rule ccontr)
      assume "\<not> i < 9"
      with "1.prems"(2) have "i = 9" by simp
      with "1.prems"(1) ge show False by simp
    qed
    have "(x OR push_bit (7 * i) (ucast ((ucast v OR 0x80 :: byte) AND 0x7F))) OR
        push_bit (7 * Suc i) (drop_bit 7 v) = x OR push_bit (7 * i) v"
      using low7_or_rest [of "7 * i" v] by (simp only: or.assoc mult_Suc_right add.commute)
    moreover have "uvarint (Suc i) y (appendVarint (drop_bit 7 v) @ rest) =
        (y OR push_bit (7 * Suc i) (drop_bit 7 v),
         int (Suc i + length (appendVarint (drop_bit 7 v))))" for y
      using "1.IH" [OF True] shrink_shift [OF "1.prems"(1) i9] i9 by simp
    ultimately show ?thesis
      using "1.prems"(2) uvarint_step [of i x v "appendVarint (drop_bit 7 v) @ rest"]
      by (simp only: appendVarint_big [OF True] append_Cons) simp
  next
    case False
    then have lt: "v < 0x80" by simp
    have "\<not> (i = 9 \<and> (ucast v :: byte) > 1)"
    proof
      assume a: "i = 9 \<and> (ucast v :: byte) > 1"
      with "1.prems"(1) have "unat v < 2" by simp
      then have "unat (ucast v :: byte) < 2" by (simp add: unat_low_byte)
      with a show False by (simp add: word_less_nat_alt)
    qed
    with lt "1.prems"(2) show ?thesis
      by (simp add: appendVarint_small small_byte small_byte_back)
  qed
qed

lemma readVarint_hit [wire_simps]:
  "drop i b = appendVarint v @ rest \<Longrightarrow>
   readVarint b i = Some (v, i + length (appendVarint v))"
  using uvarint_appendVarint [of v 0 0 rest] unsigned_less [of v, where ?'a = nat]
  by (simp add: readVarint_def)

lemma uvarint_length: "snd (uvarint i x bs) \<le> int i + int (length bs)"
  by (induction i x bs rule: uvarint.induct) (auto split: if_splits)

lemma readVarint_progress [bound_intros]:
  "readVarint b i = Some (v, j) \<Longrightarrow> i < j \<and> j \<le> i + length (drop i b)"
  using uvarint_length [of 0 0 "drop i b"]
  by (auto simp: readVarint_def split: prod.splits if_splits)

subsection \<open>Writing fields\<close>

definition pbVarintField :: "bytes \<Rightarrow> byte \<Rightarrow> u64 \<Rightarrow> bytes" where
  "pbVarintField b field v = b @ [push_bit 3 field] @ appendVarint v"

definition pbBytesField :: "bytes \<Rightarrow> byte \<Rightarrow> bytes \<Rightarrow> bytes" where
  "pbBytesField b field p =
     b @ [push_bit 3 field OR 2] @ appendVarint (of_nat (length p)) @ p"

text \<open>\<open>uint64(v<<1) ^ uint64(v>>63)\<close>: the second shift is arithmetic.\<close>

definition zigzag :: "int \<Rightarrow> u64" where
  "zigzag v = push_bit 1 (word_of_int v) XOR word_of_int (drop_bit 63 v)"

lemma zigzag_nonneg: "0 \<le> v \<Longrightarrow> in_i64 v \<Longrightarrow> zigzag v = word_of_int (2 * v)"
proof -
  assume v: "0 \<le> v" "in_i64 v"
  then have "drop_bit 63 v = 0" by (simp add: drop_bit_int_def in_i64_def)
  then show ?thesis by (simp add: zigzag_def push_bit_eq_mult)
qed

lemma zigzag_neg: "v < 0 \<Longrightarrow> in_i64 v \<Longrightarrow> zigzag v = word_of_int (- 2 * v - 1)"
proof -
  assume v: "v < 0" "in_i64 v"
  have "drop_bit 63 v = - 1"
    using v by (simp add: drop_bit_int_def in_i64_def div_eq_minus1)
  then have "zigzag v = NOT (push_bit 1 (word_of_int v))"
    by (simp add: zigzag_def)
  also have "\<dots> = word_of_int (- 2 * v - 1)"
    by (simp add: push_bit_eq_mult not_eq_complement)
  finally show ?thesis .
qed

subsection \<open>Reading fields\<close>

record proto_field =
  pf_number :: u64
  pf_wire :: u64
  pf_value :: u64
  pf_data :: bytes

datatype proto_err =
  EventTooLarge | BadTag | BadVarint | TruncatedProtobuf | BadWireType | TooManyFields

text \<open>One turn of the loop of \<open>economyProto\<close>: the field at offset \<open>i\<close> and the next offset.\<close>

definition ep_field :: "bytes \<Rightarrow> nat \<Rightarrow> proto_err + proto_field \<times> nat" where
  "ep_field b i =
     (case readVarint b i of
        None \<Rightarrow> Inl BadTag
      | Some (tag, i) \<Rightarrow>
          if drop_bit 3 tag = 0 then Inl BadTag
          else if tag AND 7 = 0 then
            (case readVarint b i of
               None \<Rightarrow> Inl BadVarint
             | Some (v, i) \<Rightarrow>
                 Inr (\<lparr>pf_number = drop_bit 3 tag, pf_wire = tag AND 7, pf_value = v,
                       pf_data = []\<rparr>, i))
          else if tag AND 7 = 2 then
            (case readVarint b i of
               None \<Rightarrow> Inl TruncatedProtobuf
             | Some (n, nxt) \<Rightarrow>
                 if unat n > length b - nxt then Inl TruncatedProtobuf
                 else
                   Inr (\<lparr>pf_number = drop_bit 3 tag, pf_wire = tag AND 7, pf_value = 0,
                         pf_data = take (unat n) (drop nxt b)\<rparr>, nxt + unat n))
          else Inl BadWireType)"

lemma ep_field_progress [bound_intros]:
  "ep_field b i = Inr (f, j) \<Longrightarrow> i < length b \<Longrightarrow> i < j \<and> j \<le> length b"
  by (auto simp: ep_field_def not_less le_diff_conv2
      split: option.splits if_splits dest!: readVarint_progress)

function ep_loop :: "bytes \<Rightarrow> nat \<Rightarrow> proto_field list \<Rightarrow> proto_err + proto_field list" where
  "ep_loop b i out =
     (if i \<ge> length b then Inr out
      else
        (case ep_field b i of
           Inl e \<Rightarrow> Inl e
         | Inr (f, j) \<Rightarrow>
             if length out + 1 > 4096 then Inl TooManyFields
             else ep_loop b j (out @ [f])))"
  by pat_completeness auto
termination
  by (relation "measure (\<lambda>(b, i, out). length b - i)")
     (auto simp: not_le dest: ep_field_progress)

declare ep_loop.simps [simp del]

definition economyProto :: "bytes \<Rightarrow> proto_err + proto_field list" where
  "economyProto b = (if length b > 2 ^ 20 then Inl EventTooLarge else ep_loop b 0 [])"

text \<open>The wire form of a field, built with the code's own field writers.\<close>

definition field_bytes :: "proto_field \<Rightarrow> bytes" where
  "field_bytes f =
     (if pf_wire f = 0 then pbVarintField [] (ucast (pf_number f)) (pf_value f)
      else pbBytesField [] (ucast (pf_number f)) (pf_data f))"

text \<open>
  The fields the code writes: a number that fits one tag byte, and either a varint or a byte
  string of less than \<open>2 ^ 64\<close> bytes.
\<close>

definition small_field :: "proto_field \<Rightarrow> bool" where
  "small_field f \<longleftrightarrow>
     0 < pf_number f \<and> pf_number f < 16 \<and>
     (pf_wire f = 0 \<and> pf_data f = [] \<or>
      pf_wire f = 2 \<and> pf_value f = 0 \<and> length (pf_data f) < 2 ^ 64)"

lemma small_number_cases:
  assumes "0 < (n :: u64)" and "n < 16"
  shows "n \<in> {1, 2, 3, 4, 5, 6, 7, 8, 9, 10, 11, 12, 13, 14, 15}"
proof -
  have "unat n \<in> set [1..<16]"
    using assms by (simp add: word_less_nat_alt Suc_le_eq del: upt_rec_numeral upt_Suc)
  moreover have "n = word_of_nat (unat n)" by simp
  ultimately have "n \<in> set (map word_of_nat [1..<16])" unfolding set_map by (rule rev_image_eqI)
  moreover have v: "map word_of_nat [1..<16] = [1 :: u64, 2, 3, 4, 5, 6, 7, 8, 9, 10, 11, 12, 13, 14, 15]"
    by code_simp
  ultimately show ?thesis unfolding v by simp
qed

lemma tag_byte_varint:
  assumes "0 < (n :: u64)" and "n < 16"
  shows "appendVarint (push_bit 3 n) = [push_bit 3 (ucast n)]"
    and "appendVarint (push_bit 3 n OR 2) = [push_bit 3 (ucast n) OR 2]"
  using small_number_cases [OF assms] by (auto simp: appendVarint.simps)

lemma tag_fields:
  assumes "0 < (n :: u64)" and "n < 16"
  shows "drop_bit 3 (push_bit 3 n) = n" and "drop_bit 3 (push_bit 3 n OR 2) = n"
    and "push_bit 3 n AND 7 = 0" and "(push_bit 3 n OR 2) AND 7 = 2"
  using small_number_cases [OF assms] by auto

lemma ep_field_hit:
  assumes "small_field f" and "drop i b = field_bytes f @ rest"
  shows "ep_field b i = Inr (f, i + length (field_bytes f))"
proof -
  let ?n = "pf_number f"
  from assms(1) have n: "0 < ?n" "?n < 16" by (simp_all add: small_field_def)
  show ?thesis
  proof (cases "pf_wire f = 0")
    case True
    then have b: "drop i b = appendVarint (push_bit 3 ?n) @ appendVarint (pf_value f) @ rest"
      using assms(2) by (simp add: field_bytes_def pbVarintField_def tag_byte_varint [OF n])
    then have b': "drop (Suc i) b = appendVarint (pf_value f) @ rest"
      by (metis append_Cons append_Nil drop_Suc list.sel(3) tag_byte_varint(1) [OF n] tl_drop)
    from True assms(1) have "pf_data f = []" by (simp add: small_field_def)
    then have "\<lparr>pf_number = ?n, pf_wire = 0, pf_value = pf_value f, pf_data = []\<rparr> = f"
      using True by (cases f) simp
    with True show ?thesis
      using readVarint_hit [OF b] readVarint_hit [OF b'] n(1)
      by (simp add: ep_field_def tag_fields [OF n] tag_byte_varint [OF n] field_bytes_def
            pbVarintField_def word_neq_0_conv)
  next
    case False
    then have w: "pf_wire f = 2" "pf_value f = 0" and len: "length (pf_data f) < 2 ^ 64"
      using assms(1) by (auto simp: small_field_def)
    let ?l = "of_nat (length (pf_data f)) :: u64"
    have b: "drop i b = appendVarint (push_bit 3 ?n OR 2) @ appendVarint ?l @ pf_data f @ rest"
      using assms(2) False
      by (simp add: field_bytes_def pbBytesField_def tag_byte_varint [OF n])
    then have b': "drop (Suc i) b = appendVarint ?l @ pf_data f @ rest"
      by (metis append_Cons append_Nil drop_Suc list.sel(3) tag_byte_varint(2) [OF n] tl_drop)
    let ?k = "Suc i + length (appendVarint ?l)"
    have d: "drop ?k b = pf_data f @ rest"
      using b' by (metis append_eq_conv_conj drop_drop add.commute)
    have l: "unat ?l = length (pf_data f)"
      using len by (simp add: unat_of_nat take_bit_nat_eq_self)
    have "length (pf_data f) \<le> length b - ?k"
      using d by (metis length_drop length_append le_add1)
    moreover have
      "\<lparr>pf_number = ?n, pf_wire = 2, pf_value = 0, pf_data = pf_data f\<rparr> = f"
      using w by (cases f) simp
    ultimately show ?thesis
      using w readVarint_hit [OF b] readVarint_hit [OF b'] n(1) d l
      by (simp add: ep_field_def tag_fields [OF n] tag_byte_varint [OF n] field_bytes_def
            pbBytesField_def word_neq_0_conv)
  qed
qed

lemma ep_loop_fields:
  "list_all small_field fs \<Longrightarrow> drop i b = concat (map field_bytes fs) \<Longrightarrow> i \<le> length b \<Longrightarrow>
   length out + length fs \<le> 4096 \<Longrightarrow> ep_loop b i out = Inr (out @ fs)"
proof (induction fs arbitrary: i out)
  case Nil
  then show ?case by (simp add: ep_loop.simps)
next
  case (Cons f fs)
  let ?j = "i + length (field_bytes f)"
  from Cons.prems(2) have d: "drop i b = field_bytes f @ concat (map field_bytes fs)" by simp
  have "field_bytes f \<noteq> []"
    by (simp add: field_bytes_def pbVarintField_def pbBytesField_def)
  with d have lt: "i < length b"
    by (metis append_is_Nil_conv drop_all not_le)
  have hit: "ep_field b i = Inr (f, ?j)"
    using Cons.prems(1) d by (intro ep_field_hit) auto
  moreover have "drop ?j b = concat (map field_bytes fs)"
    using d by (metis append_eq_conv_conj drop_drop add.commute)
  moreover have "?j \<le> length b"
    using ep_field_progress [OF hit lt] by simp
  ultimately have "ep_loop b ?j (out @ [f]) = Inr ((out @ [f]) @ fs)"
    using Cons.prems by (intro Cons.IH) auto
  with lt hit Cons.prems(4) show ?case by (simp add: ep_loop.simps [of b i])
qed

lemma economyProto_fields:
  "list_all small_field fs \<Longrightarrow> length fs \<le> 4096 \<Longrightarrow>
   length (concat (map field_bytes fs)) \<le> 2 ^ 20 \<Longrightarrow>
   economyProto (concat (map field_bytes fs)) = Inr fs"
  using ep_loop_fields [of fs 0 "concat (map field_bytes fs)" "[]"]
  by (simp add: economyProto_def)

end
