(* ===== verification/Replies.thy ===== *)
theory Replies
  imports Proto
begin

text \<open>
  Task replies and pushes (\<open>services.go\<close>), the struct replies of \<open>ctr_marketplace.go\<close>, the
  two list readers that tolerate a truncated request (\<open>u64s\<close> of \<open>friends.go\<close>, \<open>accountIDs\<close> of
  \<open>ctr_presence.go\<close>) and \<open>structPayload\<close>. The transaction number is the value the atomic
  counter \<open>transactions.Add(1)\<close> returns; a handler receives it as an argument.

  \<open>read_reply\<close> is the client's reading of a reply as the head comment of \<open>services.go\<close>
  documents it; the replies are proved to be read back by it.
\<close>

definition errUnhandled :: u32 where "errUnhandled = 1"

subsection \<open>Replies\<close>

text \<open>\<open>results\<close> is the body the callback writes and the count it returns.\<close>

definition taskReply :: "u64 \<Rightarrow> byte \<Rightarrow> u32 \<Rightarrow> (bytes \<times> u32) option \<Rightarrow> bytes" where
  "taskReply txn task errCode results =
     (if errCode \<noteq> 0 then w_u64 txn @ w_u32 errCode
      else
        let (body, n) = (case results of None \<Rightarrow> ([], 0) | Some (b, n) \<Rightarrow> (b, n)) in
        w_u64 txn @ w_u32 errCode @ w_u8 task @ w_u32 n @
        (if n > 0 then w_u32 n @ body else []))"

definition structTaskReply :: "u64 \<Rightarrow> byte \<Rightarrow> bytes \<Rightarrow> bytes" where
  "structTaskReply txn task sb = w_u64 txn @ w_u32 0 @ w_u8 task @ w_structv sb"

definition httpProxyReply :: "u64 \<Rightarrow> byte \<Rightarrow> u32 \<Rightarrow> bytes \<Rightarrow> bytes" where
  "httpProxyReply txn task status body =
     (let sb = [0x08] @ appendVarint (ucast status);
          sb = (sb @ [0x10]) @ appendVarint (ucast status);
          sb = sb @ [0x1A];
          sb = sb @ appendVarint (of_nat (length body));
          sb = sb @ body
      in w_u64 txn @ w_u32 0 @ w_u8 task @ w_structv sb)"

text \<open>The payload of a push (inner type 2): the event, then what the builder wrote.\<close>

definition pushPayload :: "u32 \<Rightarrow> bytes \<Rightarrow> bytes" where
  "pushPayload event built = w_u32 event @ built"

subsection \<open>The client's view of a task reply\<close>

record reply =
  rp_txn :: u64
  rp_err :: u32
  rp_task :: "byte option"
  rp_count :: u32
  rp_body :: bytes

definition read_reply :: "bytes \<Rightarrow> reply option" where
  "read_reply b =
     (case rd_pair rd_u64 rd_u32 \<lparr>rbuf = b, roff = 0\<rparr> of
        (Inl _, _) \<Rightarrow> None
      | (Inr (txn, err), r) \<Rightarrow>
          if err \<noteq> 0 then Some \<lparr>rp_txn = txn, rp_err = err, rp_task = None, rp_count = 0,
                              rp_body = remaining r\<rparr>
          else
            (case rd_pair rd_u8 rd_u32 r of
               (Inl _, _) \<Rightarrow> None
             | (Inr (task, n), r) \<Rightarrow>
                 if n = 0 then Some \<lparr>rp_txn = txn, rp_err = 0, rp_task = Some task,
                                    rp_count = 0, rp_body = remaining r\<rparr>
                 else
                   (case rd_u32 r of
                      (Inl _, _) \<Rightarrow> None
                    | (Inr tot, r) \<Rightarrow>
                        Some \<lparr>rp_txn = txn, rp_err = 0, rp_task = Some task, rp_count = n,
                              rp_body = remaining r\<rparr>)))"

lemma rd_pair_hit:
  "codec p g P \<Longrightarrow> codec q h Q \<Longrightarrow> P x \<Longrightarrow> Q y \<Longrightarrow> remaining r = p x @ q y @ rest \<Longrightarrow>
   rd_pair g h r = (Inr (x, y), advance (length (p x) + length (q y)) r)"
  using codec.get_put [OF codec_pair, of p g P q h Q "(x, y)" r rest] by simp

lemma remaining_start [simp]: "remaining \<lparr>rbuf = b, roff = 0\<rparr> = b"
  by (simp add: remaining_def)

lemma length_w_ints [simp]:
  "length (w_u8 x) = 2" "length (w_u16 y) = 3" "length (w_u32 n) = 5" "length (w_u64 m) = 9"
  "length (w_i64 k) = 9"
  by (simp_all add: w_u8_def w_u16_def w_u32_def w_u64_def w_i64_def)

text \<open>What a client reads from a reply that carries results, and from one that does not.\<close>

lemma read_reply_error:
  "e \<noteq> 0 \<Longrightarrow> read_reply (taskReply txn task e res) =
     Some \<lparr>rp_txn = txn, rp_err = e, rp_task = None, rp_count = 0, rp_body = []\<rparr>"
  using rd_pair_hit [OF u64.codec_axioms u32.codec_axioms,
      where x = txn and y = e and r = "\<lparr>rbuf = w_u64 txn @ w_u32 e, roff = 0\<rparr>" and rest = "[]"]
    remaining_advance [of "\<lparr>rbuf = w_u64 txn @ w_u32 e, roff = 0\<rparr>" "w_u64 txn @ w_u32 e" "[]"]
  by (simp add: read_reply_def taskReply_def)

lemma read_reply_success:
  assumes "b = w_u64 txn @ w_u32 0 @ w_u8 task @ w_u32 n @ tail"
    and "tail = (if n > 0 then w_u32 m @ body else [])"
  shows "read_reply b = Some \<lparr>rp_txn = txn, rp_err = 0, rp_task = Some task, rp_count = n,
           rp_body = (if n > 0 then body else [])\<rparr>"
proof -
  define r0 where "r0 = \<lparr>rbuf = b, roff = 0\<rparr>"
  have 0: "remaining r0 = w_u64 txn @ w_u32 0 @ w_u8 task @ w_u32 n @ tail"
    using assms(1) by (simp add: r0_def)
  note h0 = rd_pair_hit [OF u64.codec_axioms u32.codec_axioms TrueI TrueI 0]
  have 1: "remaining (advance 14 r0) = w_u8 task @ w_u32 n @ tail"
    using remaining_advance [of r0 "w_u64 txn @ w_u32 0"] 0 by simp
  note h1 = rd_pair_hit [OF u8.codec_axioms u32.codec_axioms TrueI TrueI 1]
  have 2: "remaining (advance 21 r0) = tail"
    using remaining_advance [of "advance 14 r0" "w_u8 task @ w_u32 n"] 1 by simp
  show ?thesis
  proof (cases "n > 0")
    case True
    with 2 assms(2) have 3: "remaining (advance 21 r0) = w_u32 m @ body" by simp
    have 4: "remaining (advance 26 r0) = body"
      using remaining_advance [OF 3] by simp
    from True show ?thesis
      using h0 h1 4 u32.get_put [OF TrueI 3]
      by (auto simp: read_reply_def r0_def [symmetric] word_gt_0)
  next
    case False
    then have "n = 0" by (simp add: word_gt_0)
    then show ?thesis
      using h0 h1 2 assms(2) by (simp add: read_reply_def r0_def [symmetric])
  qed
qed

lemma read_reply_results:
  "read_reply (taskReply txn task 0 (Some (body, n))) =
     Some \<lparr>rp_txn = txn, rp_err = 0, rp_task = Some task, rp_count = n,
           rp_body = (if n > 0 then body else [])\<rparr>"
  by (rule read_reply_success) (simp_all add: taskReply_def)

lemma read_reply_empty:
  "read_reply (taskReply txn task 0 None) =
     Some \<lparr>rp_txn = txn, rp_err = 0, rp_task = Some task, rp_count = 0, rp_body = []\<rparr>"
  using read_reply_success [of "taskReply txn task 0 None" txn task 0 "[]"]
  by (simp add: taskReply_def)

subsection \<open>Runs of identifiers\<close>

text \<open>
  The raw elements of a \<open>u64\<close> array: \<open>n\<close> of them, or as many as the buffer holds.
\<close>

function raw_u64s :: "nat \<Rightarrow> bytes \<Rightarrow> nat \<Rightarrow> u64 list \<times> nat" where
  "raw_u64s n b off =
     (if n = 0 \<or> off + 8 > length b then ([], off)
      else
        let (vs, off') = raw_u64s (n - 1) b (off + 8) in
        (le_word (take 8 (drop off b)) # vs, off'))"
  by pat_completeness auto
termination by (relation "measure (\<lambda>(n, b, off). n)") auto

declare raw_u64s.simps [simp del]

lemma raw_u64s_offset: "raw_u64s n b off = (vs, off') \<Longrightarrow> off \<le> off'"
  by (induction n b off arbitrary: vs off' rule: raw_u64s.induct)
     (auto simp: raw_u64s.simps Let_def split: prod.splits if_splits
       dest: add_leD1)

function u64s_loop :: "bytes \<Rightarrow> nat \<Rightarrow> u64 list \<times> nat" where
  "u64s_loop b off =
     (if off \<ge> length b then ([], off)
      else if b ! off = tagU64 then
        (if off + 9 > length b then ([], off)
         else
           let (vs, off') = u64s_loop b (off + 9) in
           (le_word (take 8 (drop (off + 1) b)) # vs, off'))
      else if b ! off = 100 + tagU64 then
        (case rd_u32 \<lparr>rbuf = b, roff = off + 1\<rparr> of
           (Inl _, r) \<Rightarrow> ([], roff r)
         | (Inr _, r) \<Rightarrow>
             if roff r + 4 > length b then ([], roff r)
             else
               let n = unat (le_word (take 4 (drop (roff r) b)) :: u32);
                   (vs, off') = raw_u64s n b (roff r + 4)
               in if off' \<le> off then ([], off)
                  else let (ws, off'') = u64s_loop b off' in (vs @ ws, off''))
      else ([], off))"
  by pat_completeness auto
termination
  by (relation "measure (\<lambda>(b, off). length b - off)") auto

declare u64s_loop.simps [simp del]

text \<open>
  The guard \<open>off' \<le> off\<close> never holds (the array header alone is ten bytes), so it adds no
  branch to the code; it only shows the termination of the loop.
\<close>

lemma u64s_guard_false:
  assumes "rd_u32 \<lparr>rbuf = b, roff = off + 1\<rparr> = (Inr m, r)"
    and "off < length b" and "raw_u64s n b (roff r + 4) = (vs, off')"
  shows "off < off'"
proof -
  have "rd_ok \<lparr>rbuf = b, roff = off + 1\<rparr>" using assms(2) by (simp add: rd_ok_def)
  from u32_rd.get_bounded [OF this assms(1)] have "off + 1 \<le> roff r" by simp
  with raw_u64s_offset [OF assms(3)] show ?thesis by simp
qed

definition rd_u64s :: "bdReader \<Rightarrow> u64 list" where
  "rd_u64s r = fst (u64s_loop (rbuf r) (roff r))"

lemma u64s_loop_typed:
  "drop off b = concat (map w_u64 ids) @ rest \<Longrightarrow>
   rest = [] \<or> hd rest \<notin> {tagU64, 100 + tagU64} \<Longrightarrow> off \<le> length b \<Longrightarrow>
   u64s_loop b off = (ids, off + 9 * length ids)"
proof (induction ids arbitrary: off)
  case Nil
  then have d: "drop off b = rest" by simp
  show ?case
  proof (cases rest)
    case Nil
    with d show ?thesis by (simp add: u64s_loop.simps)
  next
    case (Cons x xs)
    with d have "off < length b" and "b ! off = x"
      by (metis drop_all list.distinct(1) not_le, metis nth_via_drop)
    with Cons Nil.prems(2) show ?thesis by (simp add: u64s_loop.simps)
  qed
next
  case (Cons i ids)
  have w: "w_u64 i = tagU64 # le64 i" by (simp add: w_u64_def)
  with Cons.prems have d: "drop off b = tagU64 # le64 i @ concat (map w_u64 ids) @ rest"
    by simp
  then have tag: "b ! off = tagU64" by (metis nth_via_drop)
  have "length b - off \<ge> 9" using d
    by (metis (no_types, lifting) length_drop length_Cons length_append length_le_bytes
        le_add1 Suc_le_mono numeral_nat(7) add.commute plus_1_eq_Suc eval_nat_numeral(3))
  then have len: "off + 9 \<le> length b" by simp
  have d1: "drop (off + 1) b = le64 i @ concat (map w_u64 ids) @ rest"
    using d by (metis Suc_eq_plus1 drop_Suc list.sel(3) tl_drop)
  have d9: "drop (off + 9) b = concat (map w_u64 ids) @ rest"
    using d1 drop_drop [of 8 "off + 1" b] by (simp add: add.commute)
  from Cons.IH [OF d9 Cons.prems(2) len] show ?case
    using tag len d1 by (simp add: u64s_loop.simps [of b off] le_word_le_bytes)
qed

subsection \<open>Account identifiers\<close>

record accountID =
  acc_id :: u64
  acc_platform :: bytes

fun acct_loop :: "nat \<Rightarrow> bdReader \<Rightarrow> accountID list" where
  "acct_loop 0 r = []"
| "acct_loop (Suc n) r =
     (case rd_u64 r of (e1, r) \<Rightarrow>
        (case rd_str r of (e2, r) \<Rightarrow>
           (case (e1, e2) of
              (Inr i, Inr p) \<Rightarrow> \<lparr>acc_id = i, acc_platform = p\<rparr> # acct_loop n r
            | _ \<Rightarrow> [])))"

definition rd_accountIDs :: "bdReader \<Rightarrow> accountID list" where
  "rd_accountIDs r =
     (case rd_u32 r of
        (Inl _, _) \<Rightarrow> []
      | (Inr n, r) \<Rightarrow> if n > 4096 then [] else acct_loop (unat n) r)"

definition w_accountID :: "accountID \<Rightarrow> bytes" where
  "w_accountID a = w_u64 (acc_id a) @ w_strv (acc_platform a)"

lemma acct_loop_written:
  "list_all (\<lambda>a. nul_free (acc_platform a)) as \<Longrightarrow>
   remaining r = concat (map w_accountID as) @ rest \<Longrightarrow> acct_loop (length as) r = as"
proof (induction as arbitrary: r)
  case Nil
  then show ?case by simp
next
  case (Cons a as)
  have "w_accountID a = w_u64 (acc_id a) @ w_strv (acc_platform a)"
    by (simp add: w_accountID_def)
  with Cons.prems(2) have
    0: "remaining r = w_u64 (acc_id a) @ w_strv (acc_platform a) @
          concat (map w_accountID as) @ rest"
    by simp
  note 1 = remaining_advance [OF 0]
  note 2 = remaining_advance [OF 1]
  have g: "rd_u64 r = (Inr (acc_id a), advance (length (w_u64 (acc_id a))) r)"
    by (rule u64.get_put [OF TrueI 0])
  have h: "rd_str (advance (length (w_u64 (acc_id a))) r) =
      (Inr (acc_platform a), advance (length (w_strv (acc_platform a)))
        (advance (length (w_u64 (acc_id a))) r))"
    using Cons.prems(1) by (intro str.get_put [OF _ 1]) simp
  from Cons.IH [OF _ 2] Cons.prems(1) g h show ?case by simp
qed

lemma accountIDs_written:
  assumes "list_all (\<lambda>a. nul_free (acc_platform a)) as" and "length as \<le> 4096"
    and "remaining r = w_u32 (of_nat (length as)) @ concat (map w_accountID as) @ rest"
  shows "rd_accountIDs r = as"
proof -
  have n: "unat (of_nat (length as) :: u32) = length as"
    using assms(2) by (simp add: unat_of_nat take_bit_nat_eq_self)
  then have "\<not> (of_nat (length as) :: u32) > 4096"
    using assms(2) by (simp add: word_less_nat_alt not_less)
  with n show ?thesis
    using u32.get_put [OF TrueI assms(3)]
      acct_loop_written [OF assms(1) remaining_advance [OF assms(3)]]
    by (simp add: rd_accountIDs_def)
qed

subsection \<open>Struct arguments\<close>

text \<open>
  \<open>structPayload\<close>: \<open>onTask\<close> passes the whole buffer, whose first three bytes are the service,
  the tag and the task. The length is assembled from four bytes in a 64-bit \<open>int\<close>, so it is
  never negative. \<open>None\<close> is Go's \<open>nil\<close>.
\<close>

definition structPayload :: "bytes \<Rightarrow> bytes option" where
  "structPayload payload =
     (if length payload < 9 \<or> payload ! 3 \<noteq> tagStruct \<or> payload ! 4 \<noteq> tagU32 then None
      else
        let n = unat (le_word (take 4 (drop 5 payload)) :: u32) in
        if 9 + n > length payload then None else Some (take n (drop 9 payload)))"

lemma structPayload_written:
  assumes "length sb < 2 ^ 32"
  shows "structPayload ([svc, tagU8, task] @ w_structv sb @ rest) = Some sb"
proof -
  have "unat (of_nat (length sb) :: u32) = length sb"
    using assms by (simp add: unat_of_nat take_bit_nat_eq_self)
  then show ?thesis
    by (simp add: structPayload_def w_structv_def w_u32_def le_word_le_bytes
        nth_append nth_Cons')
qed

end
