(* ===== verification/Decimal.thy ===== *)
theory Decimal
  imports Prelude
begin

text \<open>
  Decimal text as Go's \<open>strconv\<close> reads and writes it: \<open>FormatUint(v, 10)\<close>,
  \<open>ParseUint(s, 10, bits)\<close> and \<open>ParseInt(s, 10, 64)\<close>. An Isabelle \<open>char\<close> is a byte, so a Go
  string is a HOL \<open>string\<close>.
\<close>

definition digit_char :: "nat \<Rightarrow> char" where
  "digit_char d = char_of (48 + d)"

fun dec_string :: "nat \<Rightarrow> string" where
  "dec_string n =
     (if n < 10 then [digit_char n] else dec_string (n div 10) @ [digit_char (n mod 10)])"

declare dec_string.simps [simp del]

definition digit_value :: "char \<Rightarrow> nat option" where
  "digit_value c =
     (let k = of_char c :: nat in if 48 \<le> k \<and> k \<le> 57 then Some (k - 48) else None)"

fun dec_value :: "nat \<Rightarrow> string \<Rightarrow> nat option" where
  "dec_value acc [] = Some acc"
| "dec_value acc (c # cs) =
     (case digit_value c of None \<Rightarrow> None | Some d \<Rightarrow> dec_value (10 * acc + d) cs)"

definition parse_dec :: "string \<Rightarrow> nat option" where
  "parse_dec s = (if s = [] then None else dec_value 0 s)"

text \<open>\<open>strconv.ParseUint(s, 10, bits)\<close>; \<open>None\<close> is any error.\<close>

definition parse_uint :: "nat \<Rightarrow> string \<Rightarrow> nat option" where
  "parse_uint bits s =
     (case parse_dec s of None \<Rightarrow> None | Some n \<Rightarrow> if n < 2 ^ bits then Some n else None)"

text \<open>
  \<open>strconv.ParseInt(s, 10, 64)\<close>. A syntax error returns the value 0; a value out of range is
  returned clipped, also with an error. \<open>parse_int64\<close> is the value with success or failure,
  \<open>int64_or_clip\<close> the value alone, which callers that drop the error see.
\<close>

definition split_sign :: "string \<Rightarrow> bool \<times> string" where
  "split_sign s =
     (case s of
        [] \<Rightarrow> (False, [])
      | c # cs \<Rightarrow> if c = CHR ''-'' then (True, cs) else if c = CHR ''+'' then (False, cs) else (False, s))"

definition parse_int64 :: "string \<Rightarrow> int option" where
  "parse_int64 s =
     (case split_sign s of (neg, ds) \<Rightarrow>
        (case parse_dec ds of
           None \<Rightarrow> None
         | Some n \<Rightarrow>
             let v = (if neg then - int n else int n) in if in_i64 v then Some v else None))"

definition int64_or_clip :: "string \<Rightarrow> int" where
  "int64_or_clip s =
     (case split_sign s of (neg, ds) \<Rightarrow>
        (case parse_dec ds of
           None \<Rightarrow> 0
         | Some n \<Rightarrow>
             if neg then max (- (2 ^ 63)) (- int n) else min (2 ^ 63 - 1) (int n)))"

lemma digit_value_char: "d < 10 \<Longrightarrow> digit_value (digit_char d) = Some d"
  by (simp add: digit_value_def digit_char_def of_char_of take_bit_nat_eq_self Let_def)

lemma dec_value_append:
  "dec_value acc (xs @ ys) =
     (case dec_value acc xs of None \<Rightarrow> None | Some v \<Rightarrow> dec_value v ys)"
  by (induction xs arbitrary: acc) (auto split: option.splits)

lemma dec_string_nonempty [simp]: "dec_string n \<noteq> []"
  by (subst dec_string.simps) simp

lemma dec_value_dec_string: "dec_value 0 (dec_string n) = Some n"
proof (induction n rule: dec_string.induct)
  case (1 n)
  then show ?case
    by (subst dec_string.simps) (auto simp: dec_value_append digit_value_char)
qed

lemma parse_dec_dec_string [simp]: "parse_dec (dec_string n) = Some n"
  by (simp add: parse_dec_def dec_value_dec_string)

lemma parse_uint_dec_string: "n < 2 ^ bits \<Longrightarrow> parse_uint bits (dec_string n) = Some n"
  by (simp add: parse_uint_def)

lemma dec_string_inject [simp]: "dec_string m = dec_string n \<longleftrightarrow> m = n"
  by (metis parse_dec_dec_string option.inject)

text \<open>\<open>strconv.FormatUint(pid, 10)\<close>.\<close>

definition fmt_u64 :: "u64 \<Rightarrow> string" where
  "fmt_u64 v = dec_string (unat v)"

lemma fmt_u64_inject [simp]: "fmt_u64 v = fmt_u64 w \<longleftrightarrow> v = w"
  by (simp add: fmt_u64_def word_unat_eq_iff [symmetric])

subsection \<open>Letters\<close>

definition lower :: "char \<Rightarrow> char" where
  "lower c = (if 65 \<le> (of_char c :: nat) \<and> (of_char c :: nat) \<le> 90 then char_of (of_char c + 32 :: nat) else c)"

definition to_lower :: "string \<Rightarrow> string" where "to_lower = map lower"

definition equal_fold :: "string \<Rightarrow> string \<Rightarrow> bool" where
  "equal_fold a b \<longleftrightarrow> to_lower a = to_lower b"

text \<open>\<open>strings.HasPrefix\<close> and \<open>strings.TrimPrefix\<close>.\<close>

definition has_prefix :: "string \<Rightarrow> string \<Rightarrow> bool" where
  "has_prefix p s \<longleftrightarrow> take (length p) s = p"

definition trim_prefix :: "string \<Rightarrow> string \<Rightarrow> string" where
  "trim_prefix p s = (if has_prefix p s then drop (length p) s else s)"

end
