(* ===== verification/WireProps.thy ===== *)
theory WireProps
  imports Replies Decimal
begin

text \<open>
  The properties of the wire format: what the writers produce is what the readers read, the
  readers never leave the buffer, replies are read back by the client's layout, and the
  protobuf parser inverts the protobuf writers and always ends.
\<close>

subsection \<open>Typed values\<close>

text \<open>A value with its tag, as one argument or result of a task.\<close>

datatype tval = TU8 byte | TU32 u32 | TU64 u64 | TI64 int | TStr bytes | TBlob bytes

fun w_tval :: "tval \<Rightarrow> bytes" where
  "w_tval (TU8 v) = w_u8 v"
| "w_tval (TU32 v) = w_u32 v"
| "w_tval (TU64 v) = w_u64 v"
| "w_tval (TI64 v) = w_i64 v"
| "w_tval (TStr s) = w_strv s"
| "w_tval (TBlob p) = w_blobv p"

text \<open>Reading a value of the same type as the given one.\<close>

fun rd_tval :: "tval \<Rightarrow> tval reader" where
  "rd_tval (TU8 _) = rd_map TU8 rd_u8"
| "rd_tval (TU32 _) = rd_map TU32 rd_u32"
| "rd_tval (TU64 _) = rd_map TU64 rd_u64"
| "rd_tval (TI64 _) = rd_map TI64 statsInt64"
| "rd_tval (TStr _) = rd_map TStr rd_str"
| "rd_tval (TBlob _) = rd_map TBlob rd_blob"

fun tval_ok :: "tval \<Rightarrow> bool" where
  "tval_ok (TI64 v) = in_i64 v"
| "tval_ok (TStr s) = nul_free s"
| "tval_ok (TBlob p) = (length p < 2 ^ 32)"
| "tval_ok _ = True"

fun rd_tvals :: "tval list \<Rightarrow> tval list reader" where
  "rd_tvals [] r = (Inr [], r)"
| "rd_tvals (t # ts) r =
     (case rd_tval t r of
        (Inl e, r) \<Rightarrow> (Inl e, r)
      | (Inr v, r) \<Rightarrow> (case rd_tvals ts r of (Inl e, r) \<Rightarrow> (Inl e, r) | (Inr vs, r) \<Rightarrow> (Inr (v # vs), r)))"

lemma rd_tval_hit:
  "tval_ok t \<Longrightarrow> remaining r = w_tval t @ rest \<Longrightarrow>
   rd_tval t r = (Inr t, advance (length (w_tval t)) r)"
  by (cases t) (auto simp: rd_map_def u8.get_put [OF TrueI] u32.get_put [OF TrueI]
      u64.get_put [OF TrueI] i64.get_put str.get_put blob.get_put)

lemma rd_tvals_hit:
  "list_all tval_ok ts \<Longrightarrow> remaining r = concat (map w_tval ts) @ rest \<Longrightarrow>
   rd_tvals ts r = (Inr ts, advance (length (concat (map w_tval ts))) r)"
proof (induction ts arbitrary: r)
  case (Cons t ts)
  have 0: "remaining r = w_tval t @ concat (map w_tval ts) @ rest" using Cons.prems by simp
  have "rd_tval t r = (Inr t, advance (length (w_tval t)) r)"
    using Cons.prems(1) by (intro rd_tval_hit [OF _ 0]) simp
  then show ?case using Cons.IH [OF _ remaining_advance [OF 0]] Cons.prems(1) by simp
qed simp

text \<open>C40: A sequence of typed values written one after the other (task arguments, the results of a
  reply) is read back value by value by the matching readers, from any position in a buffer, and
  the reader stops exactly at what follows.\<close>

theorem wire_values_round_trip:
  assumes "list_all tval_ok ts" and "remaining r = concat (map w_tval ts) @ rest"
  shows "rd_tvals ts r = (Inr ts, advance (length (concat (map w_tval ts))) r)"
  using assms by (rule rd_tvals_hit)

lemma wire_values_round_trip_witness:
  "rd_tvals [TU8 7, TStr [65, 66], TU64 9, TI64 (- 5)]
     \<lparr>rbuf = concat (map w_tval [TU8 7, TStr [65, 66], TU64 9, TI64 (- 5)]) @ [0], roff = 0\<rparr> =
   (Inr [TU8 7, TStr [65, 66], TU64 9, TI64 (- 5)],
    advance 24 \<lparr>rbuf = concat (map w_tval [TU8 7, TStr [65, 66], TU64 9, TI64 (- 5)]) @ [0], roff = 0\<rparr>)"
  using wire_values_round_trip [of "[TU8 7, TStr [65, 66], TU64 9, TI64 (- 5)]"
      "\<lparr>rbuf = concat (map w_tval [TU8 7, TStr [65, 66], TU64 9, TI64 (- 5)]) @ [0], roff = 0\<rparr>" "[0]"]
  by (simp add: in_i64_def nul_free_def w_strv_def)

text \<open>No reader moves before its start or past the end of the buffer, whatever the bytes are:
  every slice the readers take is in range, on success and on error.\<close>

theorem wire_readers_stay_in_buffer:
  assumes "rd_ok r" and "rd_tvals ts r = (res, r')"
  shows "rbuf r' = rbuf r \<and> roff r \<le> roff r' \<and> roff r' \<le> length (rbuf r)"
proof -
  have one: "rbuf r' = rbuf r \<and> roff r \<le> roff r' \<and> rd_ok r'"
    if "rd_ok r" "rd_tval t r = (res, r')" for t r res r'
    using that
    by (cases t; simp)
       (auto dest: bounded_reader.get_bounded [OF u8_rd.rd_map_bounded]
         bounded_reader.get_bounded [OF u32_rd.rd_map_bounded]
         bounded_reader.get_bounded [OF u64_rd.rd_map_bounded]
         bounded_reader.get_bounded [OF i64_rd.rd_map_bounded]
         bounded_reader.get_bounded [OF str_rd.rd_map_bounded]
         bounded_reader.get_bounded [OF blob_rd.rd_map_bounded])
  show ?thesis
    using assms
  proof (induction ts arbitrary: r res r')
    case Nil
    then show ?case by (simp add: rd_ok_def)
  next
    case (Cons t ts)
    obtain v r1 where v: "rd_tval t r = (v, r1)" by fastforce
    note b = one [OF Cons.prems(1) v]
    obtain vs r2 where vs: "rd_tvals ts r1 = (vs, r2)" by fastforce
    show ?case
      using Cons.IH [OF _ vs] b Cons.prems(2) v vs
      by (auto simp: rd_ok_def split: sum.splits)
  qed
qed

lemma wire_readers_stay_in_buffer_witness:
  "roff (snd (rd_tvals [TU32 0, TBlob []] \<lparr>rbuf = [8, 1, 0, 0, 0, 19, 8, 255, 255, 0, 0], roff = 0\<rparr>)) \<le> 11"
proof -
  obtain res r' where r: "rd_tvals [TU32 0, TBlob []]
      \<lparr>rbuf = [8, 1, 0, 0, 0, 19, 8, 255, 255, 0, 0], roff = 0\<rparr> = (res, r')" by fastforce
  then show ?thesis using wire_readers_stay_in_buffer [OF _ r] by (simp add: rd_ok_def)
qed

subsection \<open>Replies\<close>

text \<open>The client reads from a reply exactly what the handler built: for an error the transaction
  and the error code and nothing else; for a success the task, the number of results and, when
  there is at least one, the bytes of the results.\<close>

theorem task_reply_read_back:
  "read_reply (taskReply txn task e res) =
     Some (if e \<noteq> 0 then \<lparr>rp_txn = txn, rp_err = e, rp_task = None, rp_count = 0, rp_body = []\<rparr>
           else case res of
             None \<Rightarrow> \<lparr>rp_txn = txn, rp_err = 0, rp_task = Some task, rp_count = 0, rp_body = []\<rparr>
           | Some (body, n) \<Rightarrow>
               \<lparr>rp_txn = txn, rp_err = 0, rp_task = Some task, rp_count = n,
                rp_body = (if n = 0 then [] else body)\<rparr>)"
  by (auto simp: read_reply_error read_reply_results read_reply_empty word_gt_0
      split: option.splits prod.splits)

text \<open>The account identifiers of a presence request are all read, in order, when there are at
  most 4096 of them.\<close>

theorem account_ids_round_trip:
  assumes "list_all (\<lambda>a. nul_free (acc_platform a)) as" and "length as \<le> 4096"
    and "remaining r = w_u32 (of_nat (length as)) @ concat (map w_accountID as) @ rest"
  shows "rd_accountIDs r = as"
  using assms by (rule accountIDs_written)

lemma account_ids_round_trip_witness:
  "rd_accountIDs \<lparr>rbuf = w_u32 1 @ w_accountID \<lparr>acc_id = 7, acc_platform = [110]\<rparr> @ [0], roff = 0\<rparr> =
   [\<lparr>acc_id = 7, acc_platform = [110]\<rparr>]"
  by (rule account_ids_round_trip [where rest = "[0]"]) (simp_all add: nul_free_def)

subsection \<open>Protobuf\<close>

lemma appendVarint_bound: "unat v < 128 ^ n \<Longrightarrow> 0 < n \<Longrightarrow> length (appendVarint v) \<le> n"
proof (induction n arbitrary: v)
  case (Suc n)
  show ?case
  proof (cases "v < 0x80")
    case False
    then have big: "128 \<le> unat v" by (simp add: word_less_nat_alt)
    then have n: "0 < n" using Suc.prems(1) by (cases n) auto
    have "unat (drop_bit 7 v) < 128 ^ n"
      using Suc.prems(1) by (simp add: unat_drop_bit_eq drop_bit_nat_def less_mult_imp_div_less mult.commute)
    then have "length (appendVarint (drop_bit 7 v)) \<le> n" using Suc.IH n by blast
    then show ?thesis using False by (simp add: appendVarint_big)
  qed (simp add: appendVarint_small)
qed simp

lemma appendVarint_length: "length (appendVarint v) \<le> 10"
  using unsigned_less [of v, where ?'a = nat] by (intro appendVarint_bound) simp_all

text \<open>A varint written by \<open>appendVarint\<close> is read back by \<open>readVarint\<close>, whatever follows it, and
  the position moves by the length written.\<close>

theorem varint_round_trip:
  assumes "drop i b = appendVarint v @ rest"
  shows "readVarint b i = Some (v, i + length (appendVarint v))"
  using assms by (rule readVarint_hit)

lemma varint_round_trip_witness:
  "readVarint (7 # appendVarint 300 @ [1, 2]) 1 = Some (300, 1 + length (appendVarint 300))"
  by (rule varint_round_trip) simp

text \<open>\<open>economyProto\<close> inverts the field writers: a message written with \<open>pbVarintField\<close> and
  \<open>pbBytesField\<close> is parsed into exactly its fields, in order, within the limits of 4096 fields
  and one mebibyte that the parser sets.\<close>

theorem economy_proto_round_trip:
  assumes "list_all small_field fs" and "length fs \<le> 4096"
    and "length (concat (map field_bytes fs)) \<le> 2 ^ 20"
  shows "economyProto (concat (map field_bytes fs)) = Inr fs"
  using assms by (rule economyProto_fields)

lemma economy_proto_round_trip_witness:
  "economyProto (concat (map field_bytes
     [\<lparr>pf_number = 1, pf_wire = 0, pf_value = 5, pf_data = []\<rparr>,
      \<lparr>pf_number = 2, pf_wire = 2, pf_value = 0, pf_data = [104, 105]\<rparr>])) =
   Inr [\<lparr>pf_number = 1, pf_wire = 0, pf_value = 5, pf_data = []\<rparr>,
        \<lparr>pf_number = 2, pf_wire = 2, pf_value = 0, pf_data = [104, 105]\<rparr>]"
  by (rule economy_proto_round_trip)
     (simp_all add: small_field_def field_bytes_def pbVarintField_def pbBytesField_def appendVarint.simps)

text \<open>The reply of the HTTP proxy carries the status twice (fields 1 and 2, for the two readers of
  the client) and the body, in a struct buffer right after the reply header.\<close>

theorem http_proxy_reply_fields:
  assumes "length body < 2 ^ 20 - 32"
  shows "\<exists>sb. httpProxyReply txn task status body = w_u64 txn @ w_u32 0 @ w_u8 task @ w_structv sb \<and>
    economyProto sb =
      Inr [\<lparr>pf_number = 1, pf_wire = 0, pf_value = ucast status, pf_data = []\<rparr>,
           \<lparr>pf_number = 2, pf_wire = 0, pf_value = ucast status, pf_data = []\<rparr>,
           \<lparr>pf_number = 3, pf_wire = 2, pf_value = 0, pf_data = body\<rparr>]"
proof -
  let ?fs = "[\<lparr>pf_number = 1, pf_wire = 0, pf_value = ucast status, pf_data = []\<rparr>,
              \<lparr>pf_number = 2, pf_wire = 0, pf_value = ucast status, pf_data = []\<rparr>,
              \<lparr>pf_number = 3, pf_wire = 2, pf_value = 0, pf_data = body\<rparr>]"
  have "length (concat (map field_bytes ?fs)) \<le> 2 ^ 20"
    using assms appendVarint_length [of "ucast status"] appendVarint_length [of "of_nat (length body)"]
    by (simp add: field_bytes_def pbVarintField_def pbBytesField_def appendVarint_small)
  then have "economyProto (concat (map field_bytes ?fs)) = Inr ?fs"
    using assms by (intro economyProto_fields) (simp_all add: small_field_def)
  moreover have "httpProxyReply txn task status body =
      w_u64 txn @ w_u32 0 @ w_u8 task @ w_structv (concat (map field_bytes ?fs))"
    by (simp add: httpProxyReply_def field_bytes_def pbVarintField_def pbBytesField_def
        appendVarint_small Let_def)
  ultimately show ?thesis by blast
qed

lemma http_proxy_reply_fields_witness:
  "\<exists>sb. httpProxyReply 1 2 200 [123, 125] = w_u64 1 @ w_u32 0 @ w_u8 2 @ w_structv sb"
  using http_proxy_reply_fields [of "[123, 125]" 1 2 200] by auto

end
