(* ===== verification/CtrRooms.thy ===== *)
theory CtrRooms
  imports Decimal "HOL-Library.Product_Lexorder"
begin

text \<open>
  The data of Crash Team Racing's asynchronous matchmaking (\<open>ctr_async.go\<close>): searches, rooms,
  notices and the matchmaker's state, with the methods of a single room.

  \<^item> A connection is its number \<open>l.n\<close>. A search is never changed after it is made, so the
    model passes it by value; pointer comparisons are comparisons of the search id.
  \<^item> Rooms are shared and changed through pointers, and a room that was deleted from
    \<open>m.rooms\<close> stays reachable through another room's \<open>mergeSource\<close>. The state therefore has a
    heap of all rooms, indexed by room id, and the list \<open>mm_live\<close> of the ids that the Go map
    \<open>m.rooms\<close> holds. Go's map iteration order is unspecified; every loop over the map either
    treats the rooms independently or sorts them first, so the order of \<open>mm_live\<close> does not
    matter.
  \<^item> The host document is the decoded JSON object. Values keep the dynamic Go type, because
    the code's type assertions depend on it: the document composed by the server holds a
    \<open>map[string]uint32\<close> under \<open>player_state\<close>, which the assertion to \<open>map[string]any\<close> rejects.
  \<^item> \<open>ctrIDs\<close> is the counter \<open>mm_next\<close>; ids are natural numbers (the 64-bit counter does not
    wrap in the life of a server).
\<close>

datatype goval =
    GNil
  | GBool bool
  | GNumber string
  | GString string
  | GSlice "goval list"
  | GMap "string \<Rightarrow> goval option"
  | GUint64 nat
  | GInt64 int
  | GStates32 "string \<Rightarrow> nat option"
  | GListen string u64
  | GTeam bool

type_synonym hostDoc = "string \<Rightarrow> goval option"
type_synonym conn = nat

record ctrSearch =
  sr_conn :: conn
  sr_id :: nat
  sr_pid :: u64
  sr_members :: "u64 list"
  sr_min :: nat
  sr_max :: nat
  sr_rules :: "(string \<times> string) list"
  sr_address :: string
  sr_secid :: string
  sr_seckey :: string
  sr_filter :: string
  sr_seats :: nat

record ctrRoom =
  rm_id :: nat
  rm_version :: nat
  rm_created :: int
  rm_host :: ctrSearch
  rm_players :: "ctrSearch list"
  rm_hostDoc :: hostDoc
  rm_capacity :: nat
  rm_notified :: "conn set"
  rm_mergeSource :: "nat option"
  rm_mergeTarget :: nat

record backendDoc =
  bd_update_id :: nat
  bd_update_time :: int
  bd_lobby_id :: nat
  bd_create_time :: int
  bd_players :: "string \<Rightarrow> string option"
  bd_security_id :: string
  bd_security_key :: string
  bd_rules :: "(string \<times> string) list"

record ctrNotice =
  nt_conn :: conn
  nt_event :: nat
  nt_ids :: "nat list"
  nt_host :: hostDoc
  nt_backend :: backendDoc

record ctrMatchmaker =
  mm_waiting :: "ctrSearch list"
  mm_heap :: "nat \<Rightarrow> ctrRoom option"
  mm_live :: "nat list"
  mm_next :: nat

definition ctrJoinLobby :: nat where "ctrJoinLobby = 2001"
definition ctrCreateLobby :: nat where "ctrCreateLobby = 2005"
definition ctrUpdateLobby :: nat where "ctrUpdateLobby = 2006"
definition ctrMergeLobby :: nat where "ctrMergeLobby = 2008"

definition empty_mm :: ctrMatchmaker where
  "empty_mm = \<lparr>mm_waiting = [], mm_heap = (\<lambda>_. None), mm_live = [], mm_next = 0\<rparr>"

text \<open>\<open>m.rooms[id]\<close>.\<close>

definition live_room :: "ctrMatchmaker \<Rightarrow> nat \<Rightarrow> ctrRoom option" where
  "live_room m i = (if i \<in> set (mm_live m) then mm_heap m i else None)"

text \<open>Writing through a room pointer, and \<open>delete(m.rooms, id)\<close>.\<close>

definition put_room :: "ctrRoom \<Rightarrow> ctrMatchmaker \<Rightarrow> ctrMatchmaker" where
  "put_room r m = m\<lparr>mm_heap := (mm_heap m)(rm_id r \<mapsto> r)\<rparr>"

definition del_room :: "nat \<Rightarrow> ctrMatchmaker \<Rightarrow> ctrMatchmaker" where
  "del_room i m = m\<lparr>mm_live := filter (\<lambda>j. j \<noteq> i) (mm_live m)\<rparr>"

subsection \<open>Player states of the host document\<close>

text \<open>
  \<open>r.hostDoc["player_state"].(map[string]any)[pid].(json.Number)\<close>, then \<open>Int64\<close> with its error
  dropped: every failed assertion leaves the zero value.
\<close>

definition doc_state :: "hostDoc \<Rightarrow> u64 \<Rightarrow> int" where
  "doc_state d pid =
     (case d ''player_state'' of
        Some (GMap states) \<Rightarrow>
          (case states (fmt_u64 pid) of Some (GNumber v) \<Rightarrow> int64_or_clip v | _ \<Rightarrow> 0)
      | _ \<Rightarrow> 0)"

definition room_state :: "ctrRoom \<Rightarrow> u64 \<Rightarrow> int" where
  "room_state r pid = doc_state (rm_hostDoc r) pid"

definition failed :: "ctrRoom \<Rightarrow> u64 \<Rightarrow> bool" where
  "failed r pid \<longleftrightarrow> pid \<noteq> sr_pid (rm_host r) \<and> room_state r pid = 3"

text \<open>
  \<open>delete(states, pid)\<close> for the members of a search, when the document holds a
  \<open>map[string]any\<close>; any other value is left alone.
\<close>

definition clear_states :: "u64 list \<Rightarrow> hostDoc \<Rightarrow> hostDoc" where
  "clear_states pids d =
     (case d ''player_state'' of
        Some (GMap states) \<Rightarrow>
          d(''player_state'' \<mapsto>
              GMap (\<lambda>k. if k \<in> fmt_u64 ` set pids then None else states k))
      | _ \<Rightarrow> d)"

definition lobby_open :: "hostDoc \<Rightarrow> bool" where
  "lobby_open d = (case d ''lobby_open'' of Some (GBool b) \<Rightarrow> b | _ \<Rightarrow> False)"

subsection \<open>Occupancy\<close>

text \<open>The people of the room's own searches who have not failed to join.\<close>

definition own_people :: "ctrRoom \<Rightarrow> u64 list" where
  "own_people r = filter (\<lambda>pid. \<not> failed r pid) (concat (map sr_members (rm_players r)))"

text \<open>
  \<open>occupancy\<close> recurses along \<open>mergeSource\<close>. The fuel bounds that recursion. A room whose merge
  is pending never has a merge of its own (\<open>mm_inv\<close> of theory \<open>CtrInv\<close>), so two levels are
  enough and more fuel changes nothing (lemma \<open>occ_fuel_enough\<close> there).
\<close>

fun occ_fuel :: "nat \<Rightarrow> (nat \<Rightarrow> ctrRoom option) \<Rightarrow> ctrRoom \<Rightarrow> nat" where
  "occ_fuel 0 h r = 0"
| "occ_fuel (Suc n) h r =
     length (own_people r) +
     (case rm_mergeSource r of
        None \<Rightarrow> 0
      | Some s \<Rightarrow> (case h s of None \<Rightarrow> 0 | Some src \<Rightarrow> occ_fuel n h src))"

definition occupancy :: "(nat \<Rightarrow> ctrRoom option) \<Rightarrow> ctrRoom \<Rightarrow> nat" where
  "occupancy h r = occ_fuel 2 h r"

definition connected :: "ctrRoom \<Rightarrow> nat" where
  "connected r =
     length (filter (\<lambda>pid. room_state r pid = 2) (concat (map sr_members (rm_players r))))"

subsection \<open>Documents and notices\<close>

definition source_players :: "(nat \<Rightarrow> ctrRoom option) \<Rightarrow> ctrRoom \<Rightarrow> ctrSearch list" where
  "source_players h r =
     (case rm_mergeSource r of
        None \<Rightarrow> []
      | Some s \<Rightarrow> (case h s of None \<Rightarrow> [] | Some src \<Rightarrow> rm_players src))"

definition expected :: "(nat \<Rightarrow> ctrRoom option) \<Rightarrow> ctrRoom \<Rightarrow> u64 list" where
  "expected h r =
     filter (\<lambda>pid. \<not> failed r pid)
       (concat (map sr_members (rm_players r @ source_players h r)))"

definition documents ::
    "(nat \<Rightarrow> ctrRoom option) \<Rightarrow> int \<Rightarrow> ctrRoom \<Rightarrow> hostDoc \<times> backendDoc" where
  "documents h now r =
     (rm_hostDoc r,
      \<lparr>bd_update_id = rm_version r, bd_update_time = now, bd_lobby_id = rm_id r,
       bd_create_time = rm_created r,
       bd_players = (\<lambda>k. if k \<in> fmt_u64 ` set (expected h r) then Some ''expected'' else None),
       bd_security_id = sr_secid (rm_host r), bd_security_key = sr_seckey (rm_host r),
       bd_rules = sr_rules (rm_host r)\<rparr>)"

definition room_notice ::
    "(nat \<Rightarrow> ctrRoom option) \<Rightarrow> int \<Rightarrow> ctrRoom \<Rightarrow> ctrSearch \<Rightarrow> nat \<Rightarrow> ctrNotice" where
  "room_notice h now r p event =
     (let ids = [sr_id p, rm_id r];
          ids = (if event = ctrCreateLobby then ids @ [rm_version r] else ids);
          ids = (if event = ctrUpdateLobby then [rm_id r, rm_version r] else ids)
      in \<lparr>nt_conn = sr_conn p, nt_event = event, nt_ids = ids,
          nt_host = fst (documents h now r), nt_backend = snd (documents h now r)\<rparr>)"

subsection \<open>Merging predicates (\<open>ctr_merge.go\<close>)\<close>

definition mergeOpen :: "(nat \<Rightarrow> ctrRoom option) \<Rightarrow> ctrRoom \<Rightarrow> bool" where
  "mergeOpen h r \<longleftrightarrow>
     lobby_open (rm_hostDoc r) \<and> connected r = occupancy h r \<and> occupancy h r > 0"

definition room_people :: "ctrRoom \<Rightarrow> u64 list" where
  "room_people r = concat (map sr_members (rm_players r))"

definition disjointRooms :: "ctrRoom \<Rightarrow> ctrRoom \<Rightarrow> bool" where
  "disjointRooms a b \<longleftrightarrow> list_all (\<lambda>pid. pid \<notin> set (room_people a)) (room_people b)"

subsection \<open>Lemmas on one room\<close>

fun remove_first :: "('a \<Rightarrow> bool) \<Rightarrow> 'a list \<Rightarrow> 'a list" where
  "remove_first P [] = []"
| "remove_first P (x # xs) = (if P x then xs else x # remove_first P xs)"

lemma set_remove_first: "set (remove_first P xs) \<subseteq> set xs"
  by (induction xs) auto

lemma remove_first_keeps: "x \<in> set xs \<Longrightarrow> \<not> P x \<Longrightarrow> x \<in> set (remove_first P xs)"
  by (induction xs) auto

lemma remove_first_other: "x \<in> set xs \<Longrightarrow> x \<notin> set (remove_first P xs) \<Longrightarrow> P x"
  using remove_first_keeps by metis

lemma distinct_map_remove_first:
  "distinct (map f xs) \<Longrightarrow> distinct (map f (remove_first P xs))"
  by (induction xs) (auto dest: set_remove_first [THEN subsetD])

lemma remove_first_key:
  "distinct (map f xs) \<Longrightarrow> x \<in> set (remove_first (\<lambda>p. f p = k) xs) \<Longrightarrow> f x \<noteq> k"
  by (induction xs) (auto split: if_splits simp: image_iff)

lemma doc_state_clear:
  "doc_state (clear_states pids d) pid = (if pid \<in> set pids then 0 else doc_state d pid)"
  by (auto simp: doc_state_def clear_states_def image_iff
      split: option.splits goval.splits)

lemma doc_state_update_id [simp]: "doc_state (d(''update_id'' \<mapsto> v)) pid = doc_state d pid"
  by (simp add: doc_state_def)

lemma doc_state_update_time [simp]: "doc_state (d(''update_time'' \<mapsto> v)) pid = doc_state d pid"
  by (simp add: doc_state_def)

lemma lobby_open_update [simp]:
  "lobby_open (d(''update_id'' \<mapsto> v)) = lobby_open d"
  "lobby_open (d(''update_time'' \<mapsto> v)) = lobby_open d"
  by (simp_all add: lobby_open_def)

end
