(* ===== verification/CtrMatch.thy ===== *)
theory CtrMatch
  imports CtrRooms
begin

text \<open>
  The matchmaker's operations (\<open>ctr_async.go\<close>, \<open>ctr_merge.go\<close>), each run under \<open>m.mu\<close> and
  therefore atomic: \<open>enqueue\<close>, \<open>cancel\<close>, \<open>leave\<close>, \<open>documents\<close>, \<open>syncDoc\<close>, \<open>startMerge\<close> and
  \<open>finishMerge\<close>. The time is an argument. A room variable of the code is a pointer: the model
  reads the room through the heap and writes it back after each change.
\<close>

definition the_room :: "ctrMatchmaker \<Rightarrow> nat \<Rightarrow> ctrRoom" where
  "the_room m i = the (mm_heap m i)"

subsection \<open>enqueue\<close>

text \<open>
  A player who searches again leaves the room he was in; a host who searches again closes
  his room.
\<close>

definition evict_player :: "u64 \<Rightarrow> ctrRoom \<Rightarrow> ctrRoom" where
  "evict_player pid r =
     (case find (\<lambda>p. sr_pid p = pid) (rm_players r) of
        None \<Rightarrow> r
      | Some p \<Rightarrow>
          r\<lparr>rm_players := remove_first (\<lambda>p. sr_pid p = pid) (rm_players r),
            rm_notified := rm_notified r - {sr_conn p}\<rparr>)"

definition enq_evict :: "ctrSearch \<Rightarrow> ctrMatchmaker \<Rightarrow> ctrMatchmaker" where
  "enq_evict s m =
     m\<lparr>mm_waiting := filter (\<lambda>p. sr_pid p \<noteq> sr_pid s) (mm_waiting m),
       mm_live := filter (\<lambda>i. sr_pid (rm_host (the_room m i)) \<noteq> sr_pid s) (mm_live m),
       mm_heap := (\<lambda>i. if i \<in> set (mm_live m) \<and> sr_pid (rm_host (the_room m i)) \<noteq> sr_pid s
                        then map_option (evict_player (sr_pid s)) (mm_heap m i)
                        else mm_heap m i)\<rparr>"

text \<open>Rooms are tried fullest first, ties in order of age.\<close>

definition rank_rooms :: "ctrMatchmaker \<Rightarrow> nat list" where
  "rank_rooms m =
     sort_key (\<lambda>i. (- int (occupancy (mm_heap m) (the_room m i)), i)) (mm_live m)"

definition reset_target :: "nat \<Rightarrow> ctrMatchmaker \<Rightarrow> ctrMatchmaker" where
  "reset_target i m =
     (let r = the_room m i in
      if rm_mergeTarget r \<noteq> 0 \<and> live_room m (rm_mergeTarget r) = None
      then put_room (r\<lparr>rm_mergeTarget := 0\<rparr>) m else m)"

datatype reason =
  MergePending | Closed | FilterMismatch | RoomCapacity | SearchCapacity | Selected

definition candidate_reason :: "ctrMatchmaker \<Rightarrow> ctrSearch \<Rightarrow> ctrRoom \<Rightarrow> reason" where
  "candidate_reason m s r =
     (let occ = occupancy (mm_heap m) r in
      if rm_mergeTarget r \<noteq> 0 \<or> rm_mergeSource r \<noteq> None then MergePending
      else if \<not> lobby_open (rm_hostDoc r) then Closed
      else if sr_filter (rm_host r) \<noteq> sr_filter s then FilterMismatch
      else if occ + sr_seats s > rm_capacity r then RoomCapacity
      else if occ + sr_seats s > sr_max s then SearchCapacity
      else Selected)"

text \<open>The room after a search was placed in it.\<close>

definition join_room :: "int \<Rightarrow> ctrSearch \<Rightarrow> ctrRoom \<Rightarrow> ctrRoom" where
  "join_room now s r =
     r\<lparr>rm_players := rm_players r @ [s],
       rm_capacity := min (rm_capacity r) (sr_max s),
       rm_version := rm_version r + 1,
       rm_hostDoc :=
         (clear_states (sr_members s) (rm_hostDoc r))
           (''update_id'' \<mapsto> GUint64 (rm_version r + 1), ''update_time'' \<mapsto> GInt64 now)\<rparr>"

fun enq_scan ::
    "int \<Rightarrow> ctrSearch \<Rightarrow> nat list \<Rightarrow> ctrMatchmaker \<Rightarrow> ctrMatchmaker \<times> ctrNotice list option" where
  "enq_scan now s [] m = (m, None)"
| "enq_scan now s (i # is) m =
     (let m = reset_target i m; r = the_room m i in
      if candidate_reason m s r = Selected then
        let r = join_room now s r; m = put_room r m in
        (m, Some [room_notice (mm_heap m) now r (rm_host r) ctrUpdateLobby])
      else enq_scan now s is m)"

text \<open>
  The greedy group of waiting searches with the same filter: \<open>(group, seats, minimum, maximum)\<close>.
\<close>

fun group_loop ::
    "string \<Rightarrow> ctrSearch list \<Rightarrow> ctrSearch list \<times> nat \<times> nat \<times> nat \<Rightarrow>
     ctrSearch list \<times> nat \<times> nat \<times> nat" where
  "group_loop flt [] acc = acc"
| "group_loop flt (p # ps) (grp, seats, mn, mx) =
     (if sr_filter p \<noteq> flt then group_loop flt ps (grp, seats, mn, mx)
      else
        let mn' = max mn (sr_min p); mx' = min mx (sr_max p) in
        if mn' > mx' \<or> seats + sr_seats p > mx' then group_loop flt ps (grp, seats, mn, mx)
        else group_loop flt ps (grp @ [p], seats + sr_seats p, mn', mx'))"

text \<open>The document the server composes for a new room.\<close>

definition new_hostDoc :: "nat \<Rightarrow> int \<Rightarrow> ctrSearch \<Rightarrow> hostDoc" where
  "new_hostDoc rid now h =
     [''update_id'' \<mapsto> GUint64 1, ''update_time'' \<mapsto> GInt64 now, ''game_id'' \<mapsto> GUint64 rid,
      ''lobby_open'' \<mapsto> GBool True, ''lobby_open_for_pres_join'' \<mapsto> GBool True,
      ''player_state'' \<mapsto> GStates32 [fmt_u64 (sr_pid h) \<mapsto> 1],
      ''listen_server'' \<mapsto> GListen (sr_address h) (sr_pid h),
      ''team_balance'' \<mapsto> GTeam True,
      ''ruleset_payload'' \<mapsto> GMap (\<lambda>_. None), ''attachment'' \<mapsto> GNil]"

definition new_room :: "nat \<Rightarrow> int \<Rightarrow> ctrSearch list \<Rightarrow> nat \<Rightarrow> ctrRoom" where
  "new_room rid now grp mx =
     (let h = hd grp in
      \<lparr>rm_id = rid, rm_version = 1, rm_created = now, rm_host = h, rm_players = grp,
       rm_hostDoc = new_hostDoc rid now h, rm_capacity = mx, rm_notified = {sr_conn h},
       rm_mergeSource = None, rm_mergeTarget = 0\<rparr>)"

definition enq_group :: "int \<Rightarrow> ctrSearch \<Rightarrow> ctrMatchmaker \<Rightarrow> ctrMatchmaker \<times> ctrNotice list" where
  "enq_group now s m =
     (let m = m\<lparr>mm_waiting := mm_waiting m @ [s]\<rparr> in
      case group_loop (sr_filter s) (mm_waiting m) ([], 0, 2, 8) of
        (grp, seats, mn, mx) \<Rightarrow>
          if seats < mn then (m, [])
          else
            let rid = mm_next m + 1;
                r = new_room rid now grp mx;
                m = (put_room r m)\<lparr>mm_live := mm_live m @ [rid], mm_next := rid,
                      mm_waiting :=
                        filter (\<lambda>p. sr_id p \<notin> sr_id ` set grp) (mm_waiting m)\<rparr>
            in (m, [room_notice (mm_heap m) now r (hd grp) ctrCreateLobby]))"

definition enqueue :: "int \<Rightarrow> ctrSearch \<Rightarrow> ctrMatchmaker \<Rightarrow> ctrMatchmaker \<times> ctrNotice list" where
  "enqueue now s m =
     (let m = enq_evict s m in
      case enq_scan now s (rank_rooms m) m of
        (m, Some out) \<Rightarrow> (m, out)
      | (m, None) \<Rightarrow> enq_group now s m)"

subsection \<open>cancel, leave, documents\<close>

definition cancel :: "conn \<Rightarrow> nat \<Rightarrow> ctrMatchmaker \<Rightarrow> ctrMatchmaker \<times> bool" where
  "cancel c i m =
     (if \<exists>p \<in> set (mm_waiting m). sr_conn p = c \<and> sr_id p = i
      then (m\<lparr>mm_waiting := remove_first (\<lambda>p. sr_conn p = c \<and> sr_id p = i) (mm_waiting m)\<rparr>, True)
      else (m, False))"

definition leave :: "conn \<Rightarrow> nat \<Rightarrow> ctrMatchmaker \<Rightarrow> ctrMatchmaker" where
  "leave c i m =
     (let hit = (\<lambda>j. j \<in> set (mm_live m) \<and> (i = 0 \<or> j = i));
          hosted = (\<lambda>j. sr_conn (rm_host (the_room m j)) = c)
      in m\<lparr>mm_waiting := filter (\<lambda>p. sr_conn p \<noteq> c) (mm_waiting m),
           mm_live := filter (\<lambda>j. \<not> (hit j \<and> hosted j)) (mm_live m),
           mm_heap :=
             (\<lambda>j. if hit j \<and> \<not> hosted j
                  then map_option
                    (\<lambda>r. r\<lparr>rm_players := remove_first (\<lambda>p. sr_conn p = c) (rm_players r)\<rparr>)
                    (mm_heap m j)
                  else mm_heap m j)\<rparr>)"

definition room_documents ::
    "int \<Rightarrow> conn \<Rightarrow> nat \<Rightarrow> ctrMatchmaker \<Rightarrow> (hostDoc \<times> backendDoc) option" where
  "room_documents now c i m =
     (case live_room m i of
        None \<Rightarrow> None
      | Some r \<Rightarrow>
          if \<exists>p \<in> set (rm_players r). sr_conn p = c
          then Some (documents (mm_heap m) now r) else None)"

subsection \<open>Merging\<close>

definition merge_candidate :: "ctrMatchmaker \<Rightarrow> ctrRoom \<Rightarrow> ctrRoom \<Rightarrow> bool" where
  "merge_candidate m dst src \<longleftrightarrow>
     (let h = mm_heap m in
      \<not> (rm_id src = rm_id dst \<or> rm_mergeTarget src \<noteq> 0 \<or> rm_mergeSource src \<noteq> None \<or>
         \<not> mergeOpen h src \<or> sr_filter (rm_host src) \<noteq> sr_filter (rm_host dst)) \<and>
      \<not> (occupancy h src > occupancy h dst \<or>
         occupancy h src = occupancy h dst \<and> rm_id src < rm_id dst) \<and>
      \<not> (occupancy h src + occupancy h dst > min (rm_capacity src) (rm_capacity dst) \<or>
         \<not> disjointRooms src dst))"

definition bump_version :: "ctrRoom \<Rightarrow> ctrRoom" where
  "bump_version r =
     r\<lparr>rm_version := rm_version r + 1,
       rm_hostDoc := (rm_hostDoc r)(''update_id'' \<mapsto> GUint64 (rm_version r + 1))\<rparr>"

definition startMerge :: "int \<Rightarrow> nat \<Rightarrow> ctrMatchmaker \<Rightarrow> ctrMatchmaker \<times> ctrNotice list" where
  "startMerge now i m =
     (let m = reset_target i m; dst = the_room m i in
      if rm_mergeTarget dst \<noteq> 0 \<or> rm_mergeSource dst \<noteq> None \<or> \<not> mergeOpen (mm_heap m) dst
      then (m, [])
      else
        case sort_key (\<lambda>j. (- int (occupancy (mm_heap m) (the_room m j)), j))
               (filter (\<lambda>j. merge_candidate m dst (the_room m j)) (mm_live m)) of
          [] \<Rightarrow> (m, [])
        | j # _ \<Rightarrow>
            let src = the_room m j;
                dst = bump_version
                  (dst\<lparr>rm_mergeSource := Some j,
                       rm_hostDoc := clear_states (room_people src) (rm_hostDoc dst)\<rparr>);
                m = put_room dst (put_room (src\<lparr>rm_mergeTarget := i\<rparr>) m)
            in (m, [room_notice (mm_heap m) now dst (rm_host dst) ctrUpdateLobby]))"

text \<open>
  \<open>m.rooms[src.id] == src\<close> compares pointers: the source is still in the map (a room id is
  used once, so the same id is the same room).
\<close>

definition merge_valid :: "ctrMatchmaker \<Rightarrow> ctrRoom \<Rightarrow> ctrRoom \<Rightarrow> bool" where
  "merge_valid m dst src \<longleftrightarrow>
     rm_id src \<in> set (mm_live m) \<and> rm_mergeTarget src = rm_id dst \<and>
     lobby_open (rm_hostDoc dst) \<and> mergeOpen (mm_heap m) src \<and> disjointRooms dst src \<and>
     (\<forall>pid \<in> set (room_people src). room_state dst pid \<noteq> 3)"

definition finishMerge :: "int \<Rightarrow> nat \<Rightarrow> ctrMatchmaker \<Rightarrow> ctrMatchmaker \<times> ctrNotice list" where
  "finishMerge now i m =
     (let dst = the_room m i in
      case rm_mergeSource dst of
        None \<Rightarrow> (m, [])
      | Some j \<Rightarrow>
          let src = the_room m j in
          if \<not> merge_valid m dst src then
            let dst = bump_version (dst\<lparr>rm_mergeSource := None\<rparr>);
                m = put_room dst (put_room (src\<lparr>rm_mergeTarget := 0\<rparr>) m)
            in (m, [room_notice (mm_heap m) now dst (rm_host dst) ctrUpdateLobby])
          else
            let dst = dst\<lparr>rm_mergeSource := None,
                          rm_capacity := min (rm_capacity dst) (rm_capacity src),
                          rm_players := rm_players dst @ rm_players src\<rparr>;
                docs = documents (mm_heap m) now dst;
                out = map (\<lambda>p. \<lparr>nt_conn = sr_conn p, nt_event = ctrMergeLobby,
                               nt_ids = [sr_id p, rm_id src, rm_id dst],
                               nt_host = fst docs, nt_backend = snd docs\<rparr>) (rm_players src);
                dst = dst\<lparr>rm_notified := rm_notified dst \<union> sr_conn ` set (rm_players src)\<rparr>
            in (del_room j (put_room dst m), out))"

subsection \<open>syncDoc\<close>

definition sync_keys :: "string list" where
  "sync_keys = [''lobby_open'', ''lobby_open_for_pres_join'', ''player_state'',
     ''listen_server'', ''team_balance'', ''ruleset_payload'', ''attachment'']"

text \<open>Dropping the members the host reported as failed; a search with none left goes.\<close>

definition keep_search :: "ctrRoom \<Rightarrow> ctrSearch \<Rightarrow> ctrSearch" where
  "keep_search r p =
     (let ms = filter (\<lambda>pid. \<not> failed r pid) (sr_members p) in
      p\<lparr>sr_members := ms, sr_seats := length ms\<rparr>)"

definition release_failed :: "ctrRoom \<Rightarrow> ctrRoom" where
  "release_failed r =
     (let kept = filter (\<lambda>p. sr_members p \<noteq> []) (map (keep_search r) (rm_players r));
          gone = filter (\<lambda>p. sr_members (keep_search r p) = []) (rm_players r)
      in r\<lparr>rm_players := kept,
           rm_host :=
             (case find (\<lambda>p. sr_id p = sr_id (rm_host r)) kept of
                Some p \<Rightarrow> p | None \<Rightarrow> rm_host r),
           rm_notified := rm_notified r - sr_conn ` set gone\<rparr>)"

text \<open>A join notice for every player whose connection was not told yet.\<close>

fun notify_loop ::
    "(nat \<Rightarrow> ctrRoom option) \<Rightarrow> int \<Rightarrow> ctrSearch list \<Rightarrow> ctrRoom \<Rightarrow> ctrRoom \<times> ctrNotice list" where
  "notify_loop h now [] r = (r, [])"
| "notify_loop h now (p # ps) r =
     (if sr_conn p \<in> rm_notified r then notify_loop h now ps r
      else
        let r = r\<lparr>rm_notified := insert (sr_conn p) (rm_notified r)\<rparr>;
            n = room_notice h now r p ctrJoinLobby in
        case notify_loop h now ps r of (r, ns) \<Rightarrow> (r, n # ns))"

text \<open>
  Backfill from the waiting searches: \<open>(room, remaining, added)\<close>. The room has no merge source
  here, so its occupancy does not read the heap.
\<close>

fun backfill_loop ::
    "(nat \<Rightarrow> ctrRoom option) \<Rightarrow> ctrSearch list \<Rightarrow> ctrRoom \<Rightarrow> ctrRoom \<times> ctrSearch list \<times> nat" where
  "backfill_loop h [] r = (r, [], 0)"
| "backfill_loop h (p # ps) r =
     (if sr_filter p \<noteq> sr_filter (rm_host r) \<or>
         occupancy h r + sr_seats p > min (rm_capacity r) (sr_max p)
      then case backfill_loop h ps r of (r, rest, k) \<Rightarrow> (r, p # rest, k)
      else
        let r = r\<lparr>rm_hostDoc := clear_states (sr_members p) (rm_hostDoc r),
                  rm_players := rm_players r @ [p],
                  rm_capacity := min (rm_capacity r) (sr_max p)\<rparr> in
        case backfill_loop h ps r of (r, rest, k) \<Rightarrow> (r, rest, k + 1))"

definition sync_backfill ::
    "int \<Rightarrow> nat \<Rightarrow> ctrMatchmaker \<Rightarrow> ctrMatchmaker \<times> ctrNotice list" where
  "sync_backfill now i m =
     (let r = the_room m i in
      if lobby_open (rm_hostDoc r) \<and> rm_mergeTarget r = 0 \<and> rm_mergeSource r = None then
        case backfill_loop (mm_heap m) (mm_waiting m) r of
          (r, rest, added) \<Rightarrow>
            let r = (if added > 0 then bump_version r else r);
                m = (put_room r m)\<lparr>mm_waiting := rest\<rparr>
            in (m, if added > 0
                   then [room_notice (mm_heap m) now r (rm_host r) ctrUpdateLobby] else [])
      else (m, []))"

definition syncDoc ::
    "int \<Rightarrow> conn \<Rightarrow> nat \<Rightarrow> nat \<Rightarrow> hostDoc option \<Rightarrow> ctrMatchmaker \<Rightarrow>
     ctrMatchmaker \<times> bool \<times> ctrNotice list" where
  "syncDoc now c i version doc m =
     (case doc of
        None \<Rightarrow> (m, False, [])
      | Some doc \<Rightarrow>
         (case live_room m i of
            None \<Rightarrow> (m, False, [])
          | Some r \<Rightarrow>
              if sr_conn (rm_host r) \<noteq> c \<or> rm_version r \<noteq> version then (m, False, [])
              else if list_ex (\<lambda>k. doc k = None) sync_keys then (m, False, [])
              else
                let r = r\<lparr>rm_hostDoc := doc(''update_id'' \<mapsto> GUint64 (rm_version r),
                                            ''update_time'' \<mapsto> GInt64 now)\<rparr>;
                    m = put_room r m;
                    (m, merged) = finishMerge now i m;
                    r = release_failed (the_room m i);
                    (r, joins) = notify_loop (mm_heap m) now (rm_players r) r;
                    m = put_room r m;
                    (m, filled) = sync_backfill now i m;
                    out = merged @ joins @ filled;
                    (m, started) = (if out = [] then startMerge now i m else (m, []))
                in (m, True, out @ started)))"

end
