(* ===== verification/Transition.thy ===== *)
theory Transition
  imports Main
begin

text \<open>
  Reachability for the stateful components. A component is a set of initial states and a step
  relation; the locale \<open>invariant_system\<close> is the contract every component's invariant meets,
  and its lemma lifts a one-step invariant to all reachable states.
\<close>

inductive reach :: "('s \<Rightarrow> bool) \<Rightarrow> ('s \<Rightarrow> 's \<Rightarrow> bool) \<Rightarrow> 's \<Rightarrow> bool"
  for init :: "'s \<Rightarrow> bool" and step :: "'s \<Rightarrow> 's \<Rightarrow> bool" where
  reach_init: "init s \<Longrightarrow> reach init step s"
| reach_step: "reach init step s \<Longrightarrow> step s t \<Longrightarrow> reach init step t"

locale invariant_system =
  fixes init :: "'s \<Rightarrow> bool"
    and step :: "'s \<Rightarrow> 's \<Rightarrow> bool"
    and inv :: "'s \<Rightarrow> bool"
  assumes init_inv: "init s \<Longrightarrow> inv s"
    and step_inv: "inv s \<Longrightarrow> step s t \<Longrightarrow> inv t"
begin

lemma reach_inv: "reach init step s \<Longrightarrow> inv s"
  by (induction rule: reach.induct) (auto intro: init_inv step_inv)

end

lemma reach_run_intro: "step\<^sup>*\<^sup>* s t \<Longrightarrow> reach init step s \<Longrightarrow> reach init step t"
  by (induction rule: rtranclp_induct) (auto intro: reach.reach_step)

text \<open>
  A detailed system that simulates an abstract one: matched states stay matched by some run of the abstract
  system, so every reachable state matches a reachable abstract state.
\<close>

locale simulation =
  fixes init :: "'s \<Rightarrow> bool"
    and step :: "'s \<Rightarrow> 's \<Rightarrow> bool"
    and abs_init :: "'a \<Rightarrow> bool"
    and abs_step :: "'a \<Rightarrow> 'a \<Rightarrow> bool"
    and matches :: "'s \<Rightarrow> 'a \<Rightarrow> bool"
  assumes init_match: "init s \<Longrightarrow> \<exists>a. abs_init a \<and> matches s a"
    and step_match: "matches s a \<Longrightarrow> step s t \<Longrightarrow> \<exists>b. abs_step\<^sup>*\<^sup>* a b \<and> matches t b"
begin

lemma reach_match: "reach init step s \<Longrightarrow> \<exists>a. reach abs_init abs_step a \<and> matches s a"
proof (induction rule: reach.induct)
  case (reach_init s)
  then show ?case using init_match reach.reach_init by metis
next
  case (reach_step s t)
  then show ?case using step_match reach_run_intro by metis
qed

lemma run_match: "step\<^sup>*\<^sup>* s t \<Longrightarrow> matches s a \<Longrightarrow> \<exists>b. abs_step\<^sup>*\<^sup>* a b \<and> matches t b"
proof (induction rule: rtranclp_induct)
  case (step t u)
  then show ?case using step_match rtranclp_trans by metis
qed blast

end

lemma reach_start: "reach (\<lambda>w. w = s) step s"
  by (rule reach.intros(1)) (rule refl)

end
