(* ===== verification/CtrInv.thy ===== *)
theory CtrInv
  imports CtrMatch Transition "HOL-Library.Multiset"
begin

text \<open>
  The invariant of the matchmaker and its preservation by every operation.

  \<open>room_inv\<close> speaks of one room: no member of it is marked as failed, its people fit its
  capacity, and the host is one of its players. \<open>merge_ok\<close> ties the two rooms of a pending
  merge together, and \<open>search_keys\<close> collects the searches by id or by leader, so that
  \<open>each search (each leader) is in one place only\<close> is a statement on multisets, which the
  operations shrink or extend by one.
\<close>

definition seats :: "ctrRoom \<Rightarrow> nat" where
  "seats r = length (room_people r)"

definition no_failed :: "ctrRoom \<Rightarrow> bool" where
  "no_failed r \<longleftrightarrow> (\<forall>pid \<in> set (room_people r). \<not> failed r pid)"

definition search_ok :: "ctrSearch \<Rightarrow> bool" where
  "search_ok s \<longleftrightarrow> sr_seats s = length (sr_members s) \<and> sr_members s \<noteq> []"

definition leader_ok :: "ctrSearch \<Rightarrow> bool" where
  "leader_ok s \<longleftrightarrow> search_ok s \<and> sr_pid s \<in> set (sr_members s)"

definition fits :: "ctrRoom \<Rightarrow> ctrSearch \<Rightarrow> bool" where
  "fits r p \<longleftrightarrow> search_ok p \<and> sr_filter p = sr_filter (rm_host r)"

text \<open>What holds of a room even while a new host document is being applied.\<close>

definition room_base :: "ctrRoom \<Rightarrow> bool" where
  "room_base r \<longleftrightarrow>
     seats r \<le> rm_capacity r \<and> rm_capacity r \<le> 8 \<and>
     rm_host r \<in> set (rm_players r) \<and> leader_ok (rm_host r) \<and>
     list_all (fits r) (rm_players r)"

definition room_inv :: "ctrRoom \<Rightarrow> bool" where
  "room_inv r \<longleftrightarrow> room_base r \<and> no_failed r"

definition merge_ok :: "ctrMatchmaker \<Rightarrow> ctrRoom \<Rightarrow> bool" where
  "merge_ok m r \<longleftrightarrow>
     (\<forall>s. rm_mergeSource r = Some s \<longrightarrow>
        s \<noteq> rm_id r \<and> rm_mergeTarget r = 0 \<and>
        (\<exists>src. mm_heap m s = Some src \<and> rm_mergeSource src = None \<and>
           rm_mergeTarget src = rm_id r \<and>
           sr_filter (rm_host src) = sr_filter (rm_host r) \<and>
           seats r + seats src \<le> rm_capacity r \<and> seats r + seats src \<le> rm_capacity src))"

definition heap_ids :: "ctrMatchmaker \<Rightarrow> bool" where
  "heap_ids m \<longleftrightarrow>
     distinct (mm_live m) \<and>
     (\<forall>i \<in> set (mm_live m). mm_heap m i \<noteq> None) \<and>
     (\<forall>i r. mm_heap m i = Some r \<longrightarrow> rm_id r = i \<and> 0 < i \<and> i \<le> mm_next m)"

text \<open>All searches the matchmaker holds: waiting, or in a room of \<open>m.rooms\<close>.\<close>

definition search_keys :: "(ctrSearch \<Rightarrow> 'k) \<Rightarrow> ctrMatchmaker \<Rightarrow> 'k multiset" where
  "search_keys f m =
     image_mset f (mset (mm_waiting m)) +
     (\<Sum>i \<in> set (mm_live m). image_mset f (mset (rm_players (the_room m i))))"

definition single :: "'k multiset \<Rightarrow> bool" where
  "single M \<longleftrightarrow> (\<forall>k. count M k \<le> 1)"

text \<open>The invariant, with room \<open>x\<close> (if any) still to be cleaned of failed members.\<close>

definition mm_inv_but :: "nat option \<Rightarrow> ctrMatchmaker \<Rightarrow> bool" where
  "mm_inv_but x m \<longleftrightarrow>
     heap_ids m \<and> list_all leader_ok (mm_waiting m) \<and>
     (\<forall>i r. mm_heap m i = Some r \<longrightarrow> (if x = Some i then room_base r else room_inv r)) \<and>
     (\<forall>i \<in> set (mm_live m). merge_ok m (the_room m i)) \<and>
     single (search_keys sr_id m) \<and> single (search_keys sr_pid m)"

abbreviation mm_inv :: "ctrMatchmaker \<Rightarrow> bool" where
  "mm_inv \<equiv> mm_inv_but None"

subsection \<open>Multisets of searches\<close>

lemma single_mono: "M \<subseteq># N \<Longrightarrow> single N \<Longrightarrow> single M"
  by (meson le_trans mset_subset_eq_count single_def)

lemma single_add_iff: "single (add_mset y M) \<longleftrightarrow> single M \<and> count M y = 0"
proof
  assume l: "single (add_mset y M)"
  have "count M k \<le> 1" for k
    using l [unfolded single_def, rule_format, of k] by (simp split: if_splits)
  moreover have "count M y = 0"
    using l [unfolded single_def, rule_format, of y] by simp
  ultimately show "single M \<and> count M y = 0" by (simp add: single_def)
next
  assume "single M \<and> count M y = 0"
  then show "single (add_mset y M)" by (simp add: single_def)
qed

lemma single_mset: "single (mset ys) \<longleftrightarrow> distinct ys"
  by (induction ys) (simp add: single_def, auto simp: single_add_iff count_eq_zero_iff)

lemma single_distinct: "single (image_mset f (mset xs)) \<longleftrightarrow> distinct (map f xs)"
  using single_mset [of "map f xs"] by simp

lemma sum_mset_mono:
  "(\<And>i. i \<in> A \<Longrightarrow> f i \<subseteq># (g i :: 'a multiset)) \<Longrightarrow> sum f A \<subseteq># sum g A"
  by (induction A rule: infinite_finite_induct) (auto intro: subset_mset.add_mono)

lemma sum_mset_subset:
  "finite B \<Longrightarrow> A \<subseteq> B \<Longrightarrow> sum f A \<subseteq># (sum f B :: 'a multiset)"
  by (simp add: sum.subset_diff [of A B])

lemma sum_mset_subset':
  "finite B \<Longrightarrow> A \<subseteq> B \<Longrightarrow> (\<And>i. i \<in> A \<Longrightarrow> f i = g i) \<Longrightarrow>
   sum f A \<subseteq># (sum g B :: 'a multiset)"
  by (metis sum.cong sum_mset_subset)

lemma elem_sum_mset:
  "finite A \<Longrightarrow> x \<in># sum f A \<longleftrightarrow> (\<exists>i \<in> A. x \<in># (f i :: 'a multiset))"
  by (induction A rule: finite_induct) auto

lemma search_keys_room:
  "i \<in> set (mm_live m) \<Longrightarrow>
   search_keys f m =
     image_mset f (mset (mm_waiting m)) + image_mset f (mset (rm_players (the_room m i))) +
     (\<Sum>j \<in> set (mm_live m) - {i}. image_mset f (mset (rm_players (the_room m j))))"
  by (simp add: search_keys_def sum.remove add.assoc)

lemma single_room_distinct:
  "single (search_keys f m) \<Longrightarrow> i \<in> set (mm_live m) \<Longrightarrow>
   distinct (map f (rm_players (the_room m i)))"
proof -
  assume s: "single (search_keys f m)" and i: "i \<in> set (mm_live m)"
  have "image_mset f (mset (rm_players (the_room m i))) \<subseteq># search_keys f m"
    by (simp add: search_keys_room [OF i])
  then show ?thesis using s single_mono single_distinct by blast
qed

subsection \<open>The heap\<close>

lemma the_room_put [simp]:
  "the_room (put_room r m) i = (if i = rm_id r then r else the_room m i)"
  by (simp add: the_room_def put_room_def)

lemma put_room_simps [simp]:
  "mm_live (put_room r m) = mm_live m" "mm_waiting (put_room r m) = mm_waiting m"
  "mm_next (put_room r m) = mm_next m"
  "mm_heap (put_room r m) = (mm_heap m)(rm_id r \<mapsto> r)"
  by (simp_all add: put_room_def)

lemma del_room_simps [simp]:
  "mm_heap (del_room i m) = mm_heap m" "mm_waiting (del_room i m) = mm_waiting m"
  "mm_next (del_room i m) = mm_next m" "the_room (del_room i m) j = the_room m j"
  "set (mm_live (del_room i m)) = set (mm_live m) - {i}"
  by (auto simp: del_room_def the_room_def)

lemma heap_ids_live:
  "heap_ids m \<Longrightarrow> i \<in> set (mm_live m) \<Longrightarrow>
   mm_heap m i = Some (the_room m i) \<and> rm_id (the_room m i) = i \<and> 0 < i"
  by (force simp: heap_ids_def the_room_def)

lemma own_people_no_failed: "no_failed r \<Longrightarrow> length (own_people r) = seats r"
  by (simp add: own_people_def seats_def no_failed_def room_people_def)

lemma occupancy_alone:
  "no_failed r \<Longrightarrow> rm_mergeSource r = None \<Longrightarrow> occupancy h r = seats r"
  by (simp add: occupancy_def numeral_2_eq_2 own_people_no_failed)

subsection \<open>Operations that only remove searches\<close>

text \<open>
  \<open>room_shrink r r'\<close>: \<open>r'\<close> is \<open>r\<close> with some searches of guests removed. Eviction, leaving and
  cancelling are shrinking on every room, on the waiting list and on \<open>m.rooms\<close>.
\<close>

definition room_shrink :: "ctrRoom \<Rightarrow> ctrRoom \<Rightarrow> bool" where
  "room_shrink r r' \<longleftrightarrow>
     rm_id r' = rm_id r \<and> rm_host r' = rm_host r \<and> rm_hostDoc r' = rm_hostDoc r \<and>
     rm_capacity r' = rm_capacity r \<and> rm_mergeSource r' = rm_mergeSource r \<and>
     rm_mergeTarget r' = rm_mergeTarget r \<and>
     mset (rm_players r') \<subseteq># mset (rm_players r) \<and> 
     (rm_host r \<in> set (rm_players r) \<longrightarrow> rm_host r \<in> set (rm_players r'))"

lemma room_shrinkD:
  assumes "room_shrink r r'"
  shows "rm_id r' = rm_id r" "rm_host r' = rm_host r" "rm_hostDoc r' = rm_hostDoc r"
    "rm_capacity r' = rm_capacity r" "rm_mergeSource r' = rm_mergeSource r"
    "rm_mergeTarget r' = rm_mergeTarget r" "mset (rm_players r') \<subseteq># mset (rm_players r)"
    "rm_host r \<in> set (rm_players r) \<Longrightarrow> rm_host r \<in> set (rm_players r')"
  using assms by (simp_all add: room_shrink_def)

lemma length_concat_mset: "length (concat (map f xs)) = (\<Sum>x \<in># mset xs. length (f x))"
  by (induction xs) auto

lemma sum_mset_le: "M \<subseteq># N \<Longrightarrow> (\<Sum>x \<in># M. g x) \<le> (\<Sum>x \<in># N. (g x :: nat))"
  by (metis le_add1 mset_subset_eq_exists_conv sum_mset.union image_mset_union)

lemma seats_mset: "seats r = (\<Sum>p \<in># mset (rm_players r). length (sr_members p))"
  by (simp only: seats_def room_people_def length_concat_mset)

lemma room_shrink_seats: "room_shrink r r' \<Longrightarrow> seats r' \<le> seats r"
  by (auto simp: room_shrink_def seats_mset intro: sum_mset_le)

lemma room_shrink_players: "room_shrink r r' \<Longrightarrow> set (rm_players r') \<subseteq> set (rm_players r)"
  by (auto simp: room_shrink_def dest: mset_subset_eqD)

lemma room_shrink_refl: "room_shrink r r"
  by (simp add: room_shrink_def)

lemma room_shrink_failed: "room_shrink r r' \<Longrightarrow> failed r' pid \<longleftrightarrow> failed r pid"
  by (simp add: room_shrink_def failed_def room_state_def)

lemma room_shrink_people: "room_shrink r r' \<Longrightarrow> set (room_people r') \<subseteq> set (room_people r)"
  using room_shrink_players [of r r'] by (auto simp: room_people_def)

lemma room_shrink_fits: "room_shrink r r' \<Longrightarrow> fits r' p \<longleftrightarrow> fits r p"
  by (simp add: fits_def room_shrinkD)

lemma room_shrink_inv:
  assumes sh: "room_shrink r r'" and inv: "room_inv r"
  shows "room_inv r'"
proof -
  have "no_failed r'"
    using inv room_shrink_people [OF sh]
    by (auto simp: room_inv_def no_failed_def room_shrink_failed [OF sh])
  moreover have "list_all (fits r') (rm_players r')"
    using inv room_shrink_players [OF sh]
    by (auto simp: room_inv_def room_base_def list_all_iff room_shrink_fits [OF sh])
  ultimately show ?thesis
    using inv room_shrink_seats [OF sh] room_shrinkD(8) [OF sh]
    by (simp add: room_inv_def room_base_def room_shrinkD [OF sh])
qed

definition mm_shrink :: "ctrMatchmaker \<Rightarrow> ctrMatchmaker \<Rightarrow> bool" where
  "mm_shrink m m' \<longleftrightarrow>
     mm_next m' = mm_next m \<and> mset (mm_waiting m') \<subseteq># mset (mm_waiting m) \<and>
     (\<exists>P. mm_live m' = filter P (mm_live m)) \<and>
     (\<forall>i. case mm_heap m i of
            None \<Rightarrow> mm_heap m' i = None
          | Some r \<Rightarrow> \<exists>r'. mm_heap m' i = Some r' \<and> room_shrink r r')"

lemma mm_shrink_room:
  "mm_shrink m m' \<Longrightarrow> mm_heap m i = Some r \<Longrightarrow>
   mm_heap m' i = Some (the_room m' i) \<and> room_shrink r (the_room m' i)"
  by (drule mm_shrink_def [THEN iffD1]) (auto simp: the_room_def dest!: spec [of _ i])

lemma mm_shrink_back:
  "mm_shrink m m' \<Longrightarrow> mm_heap m' i = Some r' \<Longrightarrow> \<exists>r. mm_heap m i = Some r \<and> room_shrink r r'"
  by (drule mm_shrink_def [THEN iffD1])
     (auto dest!: spec [of _ i] split: option.splits)

lemma mm_shrink_live: "mm_shrink m m' \<Longrightarrow> set (mm_live m') \<subseteq> set (mm_live m)"
  by (auto simp: mm_shrink_def)

lemma mm_shrink_keys:
  assumes "mm_shrink m m'" and "heap_ids m"
  shows "search_keys f m' \<subseteq># search_keys f m"
proof -
  have "mset (rm_players (the_room m' i)) \<subseteq># mset (rm_players (the_room m i))"
    if "i \<in> set (mm_live m')" for i
    using that mm_shrink_live [OF assms(1)] heap_ids_live [OF assms(2), of i]
      mm_shrink_room [OF assms(1), of i] by (auto simp: room_shrink_def)
  then have "(\<Sum>i \<in> set (mm_live m'). image_mset f (mset (rm_players (the_room m' i))))
      \<subseteq># (\<Sum>i \<in> set (mm_live m'). image_mset f (mset (rm_players (the_room m i))))"
    by (intro sum_mset_mono image_mset_subseteq_mono)
  also have "\<dots> \<subseteq># (\<Sum>i \<in> set (mm_live m). image_mset f (mset (rm_players (the_room m i))))"
    using mm_shrink_live [OF assms(1)] by (intro sum_mset_subset) auto
  finally show ?thesis
    using assms(1) unfolding search_keys_def mm_shrink_def
    by (intro subset_mset.add_mono image_mset_subseteq_mono) auto
qed

lemma merge_ok_shrink:
  assumes "mm_shrink m m'" and "merge_ok m r" and "room_shrink r r'"
  shows "merge_ok m' r'"
  unfolding merge_ok_def
proof (intro allI impI)
  fix s assume "rm_mergeSource r' = Some s"
  with assms(3) have ms: "rm_mergeSource r = Some s" by (simp add: room_shrink_def)
  with assms(2) obtain src where
    src: "s \<noteq> rm_id r" "rm_mergeTarget r = 0" "mm_heap m s = Some src"
      "rm_mergeSource src = None" "rm_mergeTarget src = rm_id r"
      "sr_filter (rm_host src) = sr_filter (rm_host r)"
      "seats r + seats src \<le> rm_capacity r" "seats r + seats src \<le> rm_capacity src"
    by (auto simp: merge_ok_def)
  obtain src' where s': "mm_heap m' s = Some src'" "room_shrink src src'"
    using mm_shrink_room [OF assms(1) src(3)] by blast
  show "s \<noteq> rm_id r' \<and> rm_mergeTarget r' = 0 \<and>
      (\<exists>src. mm_heap m' s = Some src \<and> rm_mergeSource src = None \<and>
         rm_mergeTarget src = rm_id r' \<and>
         sr_filter (rm_host src) = sr_filter (rm_host r') \<and>
         seats r' + seats src \<le> rm_capacity r' \<and> seats r' + seats src \<le> rm_capacity src)"
    using src s' assms(3) room_shrink_seats [OF assms(3)] room_shrink_seats [OF s'(2)]
    by (auto simp: room_shrink_def)
qed

lemma mm_shrink_inv:
  assumes sh: "mm_shrink m m'" and inv: "mm_inv m"
  shows "mm_inv m'"
proof -
  have ids: "heap_ids m" using inv by (simp add: mm_inv_but_def)
  have ids': "heap_ids m'"
    unfolding heap_ids_def
  proof (intro conjI ballI allI impI)
    show "distinct (mm_live m')" using sh ids by (auto simp: mm_shrink_def heap_ids_def)
  next
    fix i assume "i \<in> set (mm_live m')"
    then have "i \<in> set (mm_live m)" using mm_shrink_live [OF sh] by auto
    with ids have "mm_heap m i = Some (the_room m i)" by (simp add: heap_ids_live)
    then show "mm_heap m' i \<noteq> None" using mm_shrink_room [OF sh] by fastforce
  next
    fix i r' assume "mm_heap m' i = Some r'"
    then obtain r where "mm_heap m i = Some r" "room_shrink r r'"
      using mm_shrink_back [OF sh] by blast
    with ids sh show "rm_id r' = i" "0 < i" "i \<le> mm_next m'"
      by (auto simp: heap_ids_def room_shrink_def mm_shrink_def)
  qed
  have "list_all leader_ok (mm_waiting m')"
    using sh inv by (auto simp: mm_shrink_def mm_inv_but_def list_all_iff dest: mset_subset_eqD)
  moreover have "\<forall>i r. mm_heap m' i = Some r \<longrightarrow> room_inv r"
    using mm_shrink_back [OF sh] inv room_shrink_inv
    by (fastforce simp: mm_inv_but_def)
  moreover have "merge_ok m' (the_room m' i)" if "i \<in> set (mm_live m')" for i
    using that mm_shrink_live [OF sh] heap_ids_live [OF ids, of i] inv
      mm_shrink_room [OF sh, of i]
    by (intro merge_ok_shrink [OF sh, of "the_room m i"]) (auto simp: mm_inv_but_def)
  moreover have "single (search_keys sr_id m')" and "single (search_keys sr_pid m')"
    using mm_shrink_keys [OF sh ids] inv single_mono by (auto simp: mm_inv_but_def)
  ultimately show ?thesis using ids' by (auto simp: mm_inv_but_def)
qed

lemma mset_remove_first: "mset (remove_first P xs) \<subseteq># mset xs"
  by (induction xs) (auto intro: subset_mset.order_trans [of _ "mset _"])

lemma evict_player_shrink:
  "sr_pid (rm_host r) \<noteq> pid \<Longrightarrow> room_shrink r (evict_player pid r)"
  by (auto simp: evict_player_def room_shrink_def mset_remove_first remove_first_keeps
      split: option.splits)

lemma enq_evict_shrink: "heap_ids m \<Longrightarrow> mm_shrink m (enq_evict s m)"
  unfolding mm_shrink_def enq_evict_def
  by (auto simp: the_room_def room_shrink_refl multiset_filter_subset
      intro: evict_player_shrink split: option.splits)

lemma cancel_shrink: "mm_shrink m (fst (cancel c i m))"
proof -
  have "mm_live m = filter (\<lambda>_. True) (mm_live m)" by simp
  then have "\<exists>P. mm_live m = filter P (mm_live m)" by metis
  then show ?thesis
    by (auto simp: mm_shrink_def cancel_def mset_remove_first room_shrink_refl
        split: option.splits)
qed

lemma leave_shrink: "heap_ids m \<Longrightarrow> mm_shrink m (leave c i m)"
  unfolding mm_shrink_def leave_def Let_def
  by (auto simp: the_room_def room_shrink_refl multiset_filter_subset mset_remove_first
      room_shrink_def remove_first_keeps split: option.splits)

lemmas shrink_inv =
  mm_shrink_inv [OF enq_evict_shrink] mm_shrink_inv [OF cancel_shrink]
  mm_shrink_inv [OF leave_shrink]

subsection \<open>Writing one room\<close>

lemma merge_ok_heap: "mm_heap m' = mm_heap m \<Longrightarrow> merge_ok m' r \<longleftrightarrow> merge_ok m r"
  by (simp add: merge_ok_def)

lemma merge_ok_put_other:
  "merge_ok m d \<Longrightarrow> rm_mergeSource d \<noteq> Some (rm_id r') \<Longrightarrow> merge_ok (put_room r' m) d"
  by (auto simp: merge_ok_def)

text \<open>A room that keeps its merge fields and capacity and does not grow may be a source.\<close>

definition merge_keep :: "ctrRoom \<Rightarrow> ctrRoom \<Rightarrow> bool" where
  "merge_keep r r' \<longleftrightarrow>
     rm_id r' = rm_id r \<and> rm_mergeSource r' = rm_mergeSource r \<and>
     rm_mergeTarget r' = rm_mergeTarget r \<and> rm_capacity r' = rm_capacity r \<and>
     sr_filter (rm_host r') = sr_filter (rm_host r) \<and> seats r' \<le> seats r"

lemma merge_ok_put_keep:
  assumes "merge_ok m d" and "mm_heap m (rm_id r) = Some r" and "merge_keep r r'"
  shows "merge_ok (put_room r' m) d"
  unfolding merge_ok_def
proof (intro allI impI)
  fix s assume "rm_mergeSource d = Some s"
  with assms(1) obtain src where src: "s \<noteq> rm_id d" "rm_mergeTarget d = 0"
    "mm_heap m s = Some src" "rm_mergeSource src = None" "rm_mergeTarget src = rm_id d"
    "sr_filter (rm_host src) = sr_filter (rm_host d)"
    "seats d + seats src \<le> rm_capacity d" "seats d + seats src \<le> rm_capacity src"
    by (auto simp: merge_ok_def)
  show "s \<noteq> rm_id d \<and> rm_mergeTarget d = 0 \<and>
      (\<exists>src. mm_heap (put_room r' m) s = Some src \<and> rm_mergeSource src = None \<and>
         rm_mergeTarget src = rm_id d \<and> sr_filter (rm_host src) = sr_filter (rm_host d) \<and>
         seats d + seats src \<le> rm_capacity d \<and> seats d + seats src \<le> rm_capacity src)"
  proof (cases "s = rm_id r")
    case True
    then have "src = r" using src(3) assms(2) by simp
    with src True assms(3) show ?thesis by (auto simp: merge_keep_def)
  next
    case False
    with src assms(3) show ?thesis by (auto simp: merge_keep_def)
  qed
qed

lemma merge_ok_self_keep:
  assumes "merge_ok m r" and "merge_keep r r'"
  shows "merge_ok (put_room r' m) r'"
proof -
  have "s \<noteq> rm_id r" if "rm_mergeSource r = Some s" for s
    using assms(1) that by (simp add: merge_ok_def)
  then show ?thesis
    using assms by (auto simp: merge_ok_def merge_keep_def)
qed

lemma mm_inv_room:
  "mm_inv_but x m \<Longrightarrow> mm_heap m i = Some r \<Longrightarrow> if x = Some i then room_base r else room_inv r"
  by (simp add: mm_inv_but_def)

lemma mm_inv_live:
  "mm_inv_but x m \<Longrightarrow> i \<in> set (mm_live m) \<Longrightarrow>
   mm_heap m i = Some (the_room m i) \<and> rm_id (the_room m i) = i \<and> 0 < i"
  by (rule heap_ids_live) (simp_all add: mm_inv_but_def)

lemma mm_inv_merge:
  "mm_inv_but x m \<Longrightarrow> i \<in> set (mm_live m) \<Longrightarrow> merge_ok m (the_room m i)"
  by (simp add: mm_inv_but_def)

lemma merge_okD:
  assumes "merge_ok m d" and "rm_mergeSource d = Some s"
  obtains src where "s \<noteq> rm_id d" "rm_mergeTarget d = 0"
    "mm_heap m s = Some src" "rm_mergeSource src = None" "rm_mergeTarget src = rm_id d"
    "sr_filter (rm_host src) = sr_filter (rm_host d)"
    "seats d + seats src \<le> rm_capacity d" "seats d + seats src \<le> rm_capacity src"
  using assms by (auto simp: merge_ok_def)

text \<open>A room whose merge target is 0 is no live room's source.\<close>

lemma not_a_source:
  assumes "mm_inv_but x m" and "mm_heap m i = Some r" and "rm_mergeTarget r = 0"
    and "j \<in> set (mm_live m)"
  shows "rm_mergeSource (the_room m j) \<noteq> Some i"
  using mm_inv_merge [OF assms(1,4)] mm_inv_live [OF assms(1,4)] assms(2,3)
  by (auto simp: merge_ok_def)

lemma put_room_inv:
  assumes inv: "mm_inv_but x m" and heap: "mm_heap m i = Some r" and eqid: "rm_id r' = i"
    and xy: "\<And>j. j \<noteq> i \<Longrightarrow> x = Some j \<longleftrightarrow> y = Some j"
    and room: "if y = Some i then room_base r' else room_inv r'"
    and others: "\<And>j. j \<in> set (mm_live m) \<Longrightarrow> j \<noteq> i \<Longrightarrow> merge_ok (put_room r' m) (the_room m j)"
    and self: "i \<in> set (mm_live m) \<Longrightarrow> merge_ok (put_room r' m) r'"
    and wait: "list_all leader_ok w"
    and m': "m' = (put_room r' m)\<lparr>mm_waiting := w\<rparr>"
    and keys: "single (search_keys sr_id m')" "single (search_keys sr_pid m')"
  shows "mm_inv_but y m'"
proof -
  have ids: "heap_ids m" using inv by (simp add: mm_inv_but_def)
  have "heap_ids m'"
    using ids heap eqid unfolding heap_ids_def m' by (auto split: if_splits)
  moreover have "if y = Some j then room_base rj else room_inv rj"
    if "mm_heap m' j = Some rj" for j rj
    using that room eqid xy [of j] mm_inv_room [OF inv, of j rj] unfolding m'
    by (auto split: if_splits)
  moreover have "merge_ok m' (the_room m' j)" if "j \<in> set (mm_live m')" for j
  proof -
    have h: "mm_heap m' = mm_heap (put_room r' m)" by (simp add: m')
    have j: "j \<in> set (mm_live m)" using that by (simp add: m')
    have "the_room m' j = (if j = i then r' else the_room m j)"
      using eqid by (simp add: m' the_room_def)
    then show ?thesis
      using self others [OF j] j by (cases "j = i") (simp_all add: merge_ok_heap [OF h])
  qed
  moreover have "list_all leader_ok (mm_waiting m')" using wait by (simp add: m')
  ultimately show ?thesis
    using keys unfolding mm_inv_but_def by blast
qed

lemma search_keys_put:
  "rm_id r' = i \<Longrightarrow> i \<in> set (mm_live m) \<Longrightarrow>
   search_keys f ((put_room r' m)\<lparr>mm_waiting := w\<rparr>) =
     image_mset f (mset w) + image_mset f (mset (rm_players r')) +
     (\<Sum>j \<in> set (mm_live m) - {i}. image_mset f (mset (rm_players (the_room m j))))"
proof -
  assume id: "rm_id r' = i" and i: "i \<in> set (mm_live m)"
  let ?m = "(put_room r' m)\<lparr>mm_waiting := w\<rparr>"
  have "the_room ?m j = (if j = i then r' else the_room m j)" for j
    using id by (simp add: the_room_def)
  then show ?thesis
    using search_keys_room [of i ?m f] i by simp
qed

lemma search_keys_put_same:
  assumes "rm_id r' = i" and "i \<in> set (mm_live m)"
    and "map f (rm_players r') = map f (rm_players (the_room m i))"
  shows "search_keys f (put_room r' m) = search_keys f m"
proof -
  have "mset (map f (rm_players r')) = mset (map f (rm_players (the_room m i)))"
    using assms(3) by simp
  then have "image_mset f (mset (rm_players r')) = image_mset f (mset (rm_players (the_room m i)))"
    by simp
  moreover have w: "(put_room r' m)\<lparr>mm_waiting := mm_waiting m\<rparr> = put_room r' m"
    by (simp add: put_room_def)
  ultimately show ?thesis
    using search_keys_put [OF assms(1,2), of f "mm_waiting m"]
    unfolding w search_keys_room [OF assms(2), of f] by simp
qed

text \<open>Writing a room outside \<open>m.rooms\<close> moves no search.\<close>

lemma search_keys_put_dead:
  "rm_id r' \<notin> set (mm_live m) \<Longrightarrow> search_keys f (put_room r' m) = search_keys f m"
  unfolding search_keys_def by (intro arg_cong2 [where f = "(+)"] sum.cong) auto

text \<open>Changes of merge flags, version, document time and notified set only.\<close>

lemma put_room_same_inv:
  assumes inv: "mm_inv_but x m" and heap: "mm_heap m i = Some r" and eqid: "rm_id r' = i"
    and same: "map sr_id (rm_players r') = map sr_id (rm_players r)"
      "map sr_pid (rm_players r') = map sr_pid (rm_players r)"
    and xy: "\<And>j. j \<noteq> i \<Longrightarrow> x = Some j \<longleftrightarrow> y = Some j"
    and room: "if y = Some i then room_base r' else room_inv r'"
    and others: "\<And>j. j \<in> set (mm_live m) \<Longrightarrow> j \<noteq> i \<Longrightarrow> merge_ok (put_room r' m) (the_room m j)"
    and self: "i \<in> set (mm_live m) \<Longrightarrow> merge_ok (put_room r' m) r'"
  shows "mm_inv_but y (put_room r' m)"
proof (rule put_room_inv [OF inv heap eqid xy room others self])
  have r: "the_room m i = r" using heap by (simp add: the_room_def)
  show "list_all leader_ok (mm_waiting m)" using inv by (simp add: mm_inv_but_def)
  show "put_room r' m = (put_room r' m)\<lparr>mm_waiting := mm_waiting m\<rparr>"
    by (simp add: put_room_def)
  show "single (search_keys sr_id (put_room r' m))"
    using inv same r search_keys_put_same [OF eqid, of m sr_id]
      search_keys_put_dead [of r' m sr_id] eqid
    by (cases "i \<in> set (mm_live m)") (auto simp: mm_inv_but_def)
  show "single (search_keys sr_pid (put_room r' m))"
    using inv same r search_keys_put_same [OF eqid, of m sr_pid]
      search_keys_put_dead [of r' m sr_pid] eqid
    by (cases "i \<in> set (mm_live m)") (auto simp: mm_inv_but_def)
qed

end
