(* ===== verification/CtrSafe.thy ===== *)
theory CtrSafe
  imports CtrInv
begin

text \<open>
  Every operation of the matchmaker keeps its invariant \<open>mm_inv\<close> (theory \<open>CtrInv\<close>):
  \<open>enqueue\<close>, \<open>cancel\<close>, \<open>leave\<close>, \<open>startMerge\<close>, \<open>finishMerge\<close> and \<open>syncDoc\<close>.
\<close>

named_theorems room_simps

subsection \<open>Fields the room invariant does not read\<close>

lemma room_upd_failed [room_simps]:
  "failed (r\<lparr>rm_mergeTarget := t\<rparr>) pid = failed r pid"
  "failed (r\<lparr>rm_mergeSource := s\<rparr>) pid = failed r pid"
  "failed (r\<lparr>rm_version := v\<rparr>) pid = failed r pid"
  "failed (r\<lparr>rm_notified := n\<rparr>) pid = failed r pid"
  "failed (r\<lparr>rm_players := ps\<rparr>) pid = failed r pid"
  "failed (r\<lparr>rm_capacity := c\<rparr>) pid = failed r pid"
  by (simp_all add: failed_def room_state_def)

lemma failed_bump [room_simps]: "failed (bump_version r) pid = failed r pid"
  by (simp add: failed_def room_state_def bump_version_def)

lemma failed_clear [room_simps]:
  "failed (r\<lparr>rm_hostDoc := clear_states pids (rm_hostDoc r)\<rparr>) pid \<longleftrightarrow>
   failed r pid \<and> pid \<notin> set pids"
  by (auto simp: failed_def room_state_def doc_state_clear)

lemma people_upd [room_simps]:
  "room_people (r\<lparr>rm_mergeTarget := t\<rparr>) = room_people r"
  "room_people (r\<lparr>rm_mergeSource := s\<rparr>) = room_people r"
  "room_people (r\<lparr>rm_version := v\<rparr>) = room_people r"
  "room_people (r\<lparr>rm_notified := n\<rparr>) = room_people r"
  "room_people (r\<lparr>rm_capacity := c\<rparr>) = room_people r"
  "room_people (r\<lparr>rm_hostDoc := d\<rparr>) = room_people r"
  "room_people (r\<lparr>rm_players := ps\<rparr>) = concat (map sr_members ps)"
  "room_people (bump_version r) = room_people r"
  by (simp_all add: room_people_def bump_version_def)

lemma seats_people [room_simps]: "seats r = length (room_people r)"
  by (simp add: seats_def)

text \<open>
  \<open>same_seats\<close>: the room has the same searches, host and capacity. Merge flags, version, document
  and notified set may differ. With no new failed member such a change keeps the invariant.
\<close>

definition same_seats :: "ctrRoom \<Rightarrow> ctrRoom \<Rightarrow> bool" where
  "same_seats r r' \<longleftrightarrow>
     rm_id r' = rm_id r \<and> rm_host r' = rm_host r \<and> rm_players r' = rm_players r \<and>
     rm_capacity r' = rm_capacity r"

lemma same_seats_simps [room_simps]:
  "same_seats r r" "same_seats r (r\<lparr>rm_mergeTarget := t\<rparr>)" "same_seats r (r\<lparr>rm_mergeSource := s\<rparr>)"
  "same_seats r (r\<lparr>rm_hostDoc := d\<rparr>)" "same_seats r (r\<lparr>rm_notified := n\<rparr>)"
  "same_seats r (bump_version r)"
  by (simp_all add: same_seats_def bump_version_def)

lemma same_seats_trans: "same_seats r s \<Longrightarrow> same_seats s t \<Longrightarrow> same_seats r t"
  by (simp add: same_seats_def)

lemma same_seats_eqs:
  assumes "same_seats r r'"
  shows "seats r' = seats r" "room_people r' = room_people r" "fits r' p = fits r p"
    "room_base r' = room_base r"
  using assms
  by (simp_all add: same_seats_def seats_def room_people_def fits_def room_base_def list_all_iff)

lemma same_seats_inv:
  "same_seats r r' \<Longrightarrow> room_inv r \<Longrightarrow> (\<And>pid. failed r' pid \<Longrightarrow> failed r pid) \<Longrightarrow> room_inv r'"
  by (auto simp: room_inv_def same_seats_eqs no_failed_def)

lemma merge_ok_none: "rm_mergeSource r = None \<Longrightarrow> merge_ok m r"
  by (simp add: merge_ok_def)

lemma mm_inv_heap: "mm_inv_but x m \<Longrightarrow> heap_ids m"
  by (simp add: mm_inv_but_def)

lemma mm_inv_base: "mm_inv_but x m \<Longrightarrow> mm_heap m i = Some r \<Longrightarrow> room_base r"
  using mm_inv_room [of x m i r] by (auto simp: room_inv_def split: if_splits)

subsection \<open>A merge target that is gone\<close>

lemma reset_target_simps [simp]:
  "mm_live (reset_target i m) = mm_live m" "mm_waiting (reset_target i m) = mm_waiting m"
  "mm_next (reset_target i m) = mm_next m"
  by (simp_all add: reset_target_def Let_def)

lemma reset_target_room:
  "heap_ids m \<Longrightarrow> i \<in> set (mm_live m) \<Longrightarrow>
   the_room (reset_target i m) j = the_room m j \<or>
   j = i \<and> the_room (reset_target i m) j = (the_room m i)\<lparr>rm_mergeTarget := 0\<rparr>"
  using heap_ids_live [of m i] by (auto simp: reset_target_def Let_def)

lemma reset_target_inv:
  assumes inv: "mm_inv m" and i: "i \<in> set (mm_live m)"
  shows "mm_inv (reset_target i m)"
proof -
  let ?r = "the_room m i"
  have live: "mm_heap m i = Some ?r" "rm_id ?r = i" using mm_inv_live [OF inv i] by auto
  show ?thesis
  proof (cases "rm_mergeTarget ?r \<noteq> 0 \<and> live_room m (rm_mergeTarget ?r) = None")
    case False
    then show ?thesis using inv by (auto simp: reset_target_def Let_def)
  next
    case True
    have none: "rm_mergeSource ?r = None"
      using mm_inv_merge [OF inv i] True by (cases "rm_mergeSource ?r") (auto simp: merge_ok_def)
    have "mm_inv (put_room (?r\<lparr>rm_mergeTarget := 0\<rparr>) m)"
    proof (rule put_room_same_inv [OF inv live(1)])
      show "if None = Some i then room_base (?r\<lparr>rm_mergeTarget := 0\<rparr>)
            else room_inv (?r\<lparr>rm_mergeTarget := 0\<rparr>)"
        using mm_inv_room [OF inv live(1)]
        by (auto intro: same_seats_inv [of ?r] simp: room_simps)
    next
      fix j assume j: "j \<in> set (mm_live m)" "j \<noteq> i"
      have "rm_mergeSource (the_room m j) \<noteq> Some i"
      proof
        assume "rm_mergeSource (the_room m j) = Some i"
        then have "rm_mergeTarget ?r = j"
          using mm_inv_merge [OF inv j(1)] mm_inv_live [OF inv j(1)] live by (auto simp: merge_ok_def)
        with True j mm_inv_live [OF inv j(1)] show False by (simp add: live_room_def)
      qed
      then show "merge_ok (put_room (?r\<lparr>rm_mergeTarget := 0\<rparr>) m) (the_room m j)"
        using merge_ok_put_other [OF mm_inv_merge [OF inv j(1)]] live by simp
    qed (simp_all add: live merge_ok_none none)
    with True show ?thesis by (simp add: reset_target_def Let_def)
  qed
qed

subsection \<open>Seating one search\<close>

definition seated :: "ctrSearch \<Rightarrow> ctrRoom \<Rightarrow> ctrRoom" where
  "seated s r =
     r\<lparr>rm_hostDoc := clear_states (sr_members s) (rm_hostDoc r),
       rm_players := rm_players r @ [s],
       rm_capacity := min (rm_capacity r) (sr_max s)\<rparr>"

lemma seated_simps [simp]:
  "rm_id (seated s r) = rm_id r" "rm_host (seated s r) = rm_host r"
  "rm_players (seated s r) = rm_players r @ [s]"
  "rm_capacity (seated s r) = min (rm_capacity r) (sr_max s)"
  "rm_mergeSource (seated s r) = rm_mergeSource r" "rm_mergeTarget (seated s r) = rm_mergeTarget r"
  "rm_version (seated s r) = rm_version r" "rm_notified (seated s r) = rm_notified r"
  "rm_created (seated s r) = rm_created r"
  by (simp_all add: seated_def)

lemma failed_seated: "failed (seated s r) pid \<longleftrightarrow> failed r pid \<and> pid \<notin> set (sr_members s)"
  by (auto simp: seated_def failed_def room_state_def doc_state_clear)

lemma seats_seated: "search_ok s \<Longrightarrow> seats (seated s r) = seats r + sr_seats s"
  by (simp add: seats_def room_people_def search_ok_def)

lemma room_inv_occupancy:
  "room_inv r \<Longrightarrow> rm_mergeSource r = None \<Longrightarrow> occupancy h r = seats r"
  by (simp add: room_inv_def occupancy_alone)

lemma seated_inv:
  assumes "room_inv r" and "fits r s"
    and "seats r + sr_seats s \<le> min (rm_capacity r) (sr_max s)"
  shows "room_inv (seated s r)"
proof -
  have ok: "search_ok s" using assms(2) by (simp add: fits_def)
  have "no_failed (seated s r)"
    using assms(1) by (auto simp: room_inv_def no_failed_def failed_seated room_people_def)
  moreover have "fits (seated s r) p = fits r p" for p by (simp add: fits_def)
  ultimately show ?thesis
    using assms seats_seated [OF ok, of r]
    by (auto simp: room_inv_def room_base_def list_all_iff)
qed

lemma join_room_seated:
  "join_room now s r =
   (seated s r)\<lparr>rm_version := rm_version r + 1,
     rm_hostDoc := (rm_hostDoc (seated s r))(''update_id'' \<mapsto> GUint64 (rm_version r + 1),
                                             ''update_time'' \<mapsto> GInt64 now)\<rparr>"
  by (simp add: join_room_def seated_def)

lemma join_room_inv: "room_inv (seated s r) \<Longrightarrow> room_inv (join_room now s r)"
  by (rule same_seats_inv [of "seated s r"])
     (simp_all add: join_room_seated same_seats_def failed_def room_state_def)

text \<open>What the matchmaker requires of a search that arrives.\<close>

definition fresh_search :: "ctrSearch \<Rightarrow> ctrMatchmaker \<Rightarrow> bool" where
  "fresh_search s m \<longleftrightarrow>
     leader_ok s \<and> sr_seats s \<le> sr_max s \<and> sr_max s \<le> 8 \<and>
     sr_id s \<notin># search_keys sr_id m \<and> sr_pid s \<notin># search_keys sr_pid m"

lemma single_add: "single M \<Longrightarrow> y \<notin># M \<Longrightarrow> single (add_mset y M)"
  by (simp add: single_add_iff count_eq_zero_iff)

lemma search_keys_seat:
  assumes "rm_id r' = i" and "i \<in> set (mm_live m)"
    and "rm_players r' = rm_players (the_room m i) @ qs"
  shows "search_keys f ((put_room r' m)\<lparr>mm_waiting := w\<rparr>) + image_mset f (mset (mm_waiting m)) =
    search_keys f m + image_mset f (mset w) + image_mset f (mset qs)"
  using assms by (simp add: search_keys_put search_keys_room [of i m])

lemma waiting_self: "(put_room r' m)\<lparr>mm_waiting := mm_waiting m\<rparr> = put_room r' m"
  by (simp add: put_room_def)

lemma search_keys_join:
  assumes "rm_id r' = i" and "i \<in> set (mm_live m)"
    and "rm_players r' = rm_players (the_room m i) @ [s]"
  shows "search_keys f (put_room r' m) = add_mset (f s) (search_keys f m)"
  using search_keys_seat [OF assms, of f "mm_waiting m"] unfolding waiting_self by simp

lemma join_inv:
  assumes inv: "mm_inv m" and i: "i \<in> set (mm_live m)" and new: "fresh_search s m"
    and sel: "candidate_reason m s (the_room m i) = Selected"
  shows "mm_inv (put_room (join_room now s (the_room m i)) m)"
proof -
  let ?r = "the_room m i" and ?r' = "join_room now s (the_room m i)"
  have live: "mm_heap m i = Some ?r" "rm_id ?r = i" using mm_inv_live [OF inv i] by auto
  have r: "room_inv ?r" using mm_inv_room [OF inv live(1)] by simp
  have flags: "rm_mergeTarget ?r = 0" "rm_mergeSource ?r = None"
    "sr_filter (rm_host ?r) = sr_filter s"
    "occupancy (mm_heap m) ?r + sr_seats s \<le> min (rm_capacity ?r) (sr_max s)"
    using sel by (auto simp: candidate_reason_def Let_def split: if_splits)
  have "fits ?r s" using new flags(3) by (simp add: fits_def fresh_search_def leader_ok_def)
  then have r': "room_inv ?r'"
    using seated_inv [OF r] flags(4) room_inv_occupancy [OF r flags(2)] by (simp add: join_room_inv)
  have id: "rm_id ?r' = i" using live by (simp add: join_room_def)
  have players: "rm_players ?r' = rm_players ?r @ [s]" by (simp add: join_room_def)
  show ?thesis
  proof (rule put_room_inv [OF inv live(1) id, of None])
    fix j assume j: "j \<in> set (mm_live m)" "j \<noteq> i"
    then show "merge_ok (put_room ?r' m) (the_room m j)"
      using merge_ok_put_other [OF mm_inv_merge [OF inv j(1)]]
        not_a_source [OF inv live(1) flags(1) j(1)] id by simp
  next
    show "merge_ok (put_room ?r' m) ?r'"
      using flags by (simp add: merge_ok_none join_room_def)
  next
    show "put_room ?r' m = (put_room ?r' m)\<lparr>mm_waiting := mm_waiting m\<rparr>"
      by (simp only: waiting_self)
  qed (use inv new r' in \<open>auto simp: mm_inv_but_def search_keys_join [OF id i players]
          fresh_search_def intro: single_add\<close>)
qed

subsection \<open>enqueue\<close>

lemma search_keys_reset:
  assumes "heap_ids m" and "i \<in> set (mm_live m)"
  shows "search_keys f (reset_target i m) = search_keys f m"
proof -
  have "rm_players (the_room (reset_target i m) j) = rm_players (the_room m j)" for j
    using reset_target_room [OF assms, of j] by auto
  then show ?thesis by (simp add: search_keys_def)
qed

lemma fresh_reset:
  "mm_inv m \<Longrightarrow> i \<in> set (mm_live m) \<Longrightarrow> fresh_search s (reset_target i m) = fresh_search s m"
  by (simp add: fresh_search_def search_keys_reset mm_inv_heap)

lemma enq_scan_inv:
  "enq_scan now s is m = (m', out) \<Longrightarrow> mm_inv m \<Longrightarrow> set is \<subseteq> set (mm_live m) \<Longrightarrow>
   fresh_search s m \<Longrightarrow> mm_inv m'"
proof (induction "is" arbitrary: m)
  case (Cons i "is")
  let ?m = "reset_target i m"
  have i: "i \<in> set (mm_live m)" using Cons.prems by simp
  have inv: "mm_inv ?m" by (rule reset_target_inv [OF Cons.prems(2) i])
  have new: "fresh_search s ?m" using fresh_reset [OF Cons.prems(2) i] Cons.prems by simp
  show ?case
  proof (cases "candidate_reason ?m s (the_room ?m i) = Selected")
    case True
    then show ?thesis
      using Cons.prems(1) join_inv [OF inv _ new True] i by (simp add: Let_def) blast
  next
    case False
    then show ?thesis
      using Cons.IH [OF _ inv _ new] Cons.prems by (auto simp: Let_def)
  qed
qed simp

lemma enq_scan_frame:
  "enq_scan now s is m = (m', out) \<Longrightarrow>
   mm_live m' = mm_live m \<and> mm_waiting m' = mm_waiting m \<and> mm_next m' = mm_next m"
  by (induction "is" arbitrary: m) (auto simp: Let_def split: if_splits)

lemma enq_scan_keys:
  "enq_scan now s is m = (m', out) \<Longrightarrow> mm_inv m \<Longrightarrow> set is \<subseteq> set (mm_live m) \<Longrightarrow>
   search_keys f m' =
     (case out of None \<Rightarrow> search_keys f m | Some _ \<Rightarrow> add_mset (f s) (search_keys f m))"
proof (induction "is" arbitrary: m)
  case (Cons i "is")
  let ?m = "reset_target i m"
  have i: "i \<in> set (mm_live m)" using Cons.prems by simp
  have inv: "mm_inv ?m" by (rule reset_target_inv [OF Cons.prems(2) i])
  have keys: "search_keys f ?m = search_keys f m"
    using search_keys_reset [OF mm_inv_heap [OF Cons.prems(2)] i] .
  show ?case
  proof (cases "candidate_reason ?m s (the_room ?m i) = Selected")
    case True
    have "rm_id (join_room now s (the_room ?m i)) = i"
      using mm_inv_live [OF inv] i by (simp add: join_room_def)
    then show ?thesis
      using Cons.prems(1) True i keys
        search_keys_join [of "join_room now s (the_room ?m i)" i ?m s f]
      by (auto simp: Let_def join_room_def)
  next
    case False
    then show ?thesis
      using Cons.IH [OF _ inv] Cons.prems keys by (cases out) (auto simp: Let_def)
  qed
qed simp

subsection \<open>A new room\<close>

fun group_ok :: "string \<Rightarrow> ctrSearch list \<times> nat \<times> nat \<times> nat \<Rightarrow> bool" where
  "group_ok flt (grp, n, mn, mx) \<longleftrightarrow>
     n = sum_list (map sr_seats grp) \<and> n \<le> mx \<and> 2 \<le> mn \<and> mn \<le> mx \<and> mx \<le> 8 \<and>
     list_all (\<lambda>p. sr_filter p = flt \<and> sr_min p \<le> mn \<and> mx \<le> sr_max p) grp"

lemma group_ok_add:
  "group_ok flt (grp, n, mn, mx) \<Longrightarrow> sr_filter p = flt \<Longrightarrow>
   max mn (sr_min p) \<le> min mx (sr_max p) \<Longrightarrow> n + sr_seats p \<le> min mx (sr_max p) \<Longrightarrow>
   group_ok flt (grp @ [p], n + sr_seats p, max mn (sr_min p), min mx (sr_max p))"
  by (auto simp: list_all_iff)

lemma group_loop_ok: "group_ok flt acc \<Longrightarrow> group_ok flt (group_loop flt ps acc)"
proof (induction flt ps acc rule: group_loop.induct)
  case (2 flt p ps grp seats mn mx)
  show ?case
  proof (cases "sr_filter p = flt \<and> max mn (sr_min p) \<le> min mx (sr_max p) \<and>
      seats + sr_seats p \<le> min mx (sr_max p)")
    case True
    then show ?thesis
      using 2 group_ok_add [of flt grp seats mn mx p]
      by (simp add: Let_def linorder_not_less [symmetric] del: group_ok.simps)
  next
    case False
    then show ?thesis
      using 2 by (auto simp: Let_def linorder_not_less [symmetric] simp del: group_ok.simps)
  qed
qed simp

lemma group_loop_mset:
  "group_loop flt ps (grp, n, mn, mx) = (grp', n', mn', mx') \<Longrightarrow>
   mset grp' \<subseteq># mset grp + mset ps"
proof (induction ps arbitrary: grp n mn mx)
  case (Cons p ps)
  have skip: "mset grp + mset ps \<subseteq># mset grp + mset (p # ps)" by simp
  show ?case
    using Cons.prems Cons.IH skip
    by (fastforce simp: Let_def split: if_splits intro: subset_mset.order_trans)
qed simp

lemma partition_by_key:
  assumes "distinct (map f xs)" and "mset grp \<subseteq># mset xs"
  shows "mset grp + mset (filter (\<lambda>p. f p \<notin> f ` set grp) xs) = mset xs"
proof -
  obtain C where C: "mset xs = mset grp + C"
    using assms(2) mset_subset_eq_exists_conv by blast
  have single: "single (image_mset f (mset xs))" using assms(1) single_distinct by blast
  have apart: "f c \<notin> f ` set grp" if "c \<in># C" for c
  proof
    assume "f c \<in> f ` set grp"
    then have "f c \<in># image_mset f (mset grp)" by auto
    moreover have "f c \<in># image_mset f C" using that by auto
    ultimately have "2 \<le> count (image_mset f (mset grp) + image_mset f C) (f c)"
      by (simp only: count_union flip: count_greater_zero_iff)
    moreover have "count (image_mset f (mset xs)) (f c) \<le> 1" using single by (simp only: single_def)
    ultimately show False using C by simp
  qed
  have "filter_mset (\<lambda>p. f p \<notin> f ` set grp) C = C"
    using apart by (simp add: filter_mset_eq_conv)
  moreover have "filter_mset (\<lambda>p. f p \<notin> f ` set grp) (mset grp) = {#}"
    by (simp flip: mset_filter)
  ultimately show ?thesis using C by (simp add: mset_filter)
qed

lemma new_room_simps [simp]:
  "rm_id (new_room rid now grp mx) = rid" "rm_host (new_room rid now grp mx) = hd grp"
  "rm_players (new_room rid now grp mx) = grp" "rm_capacity (new_room rid now grp mx) = mx"
  "rm_mergeSource (new_room rid now grp mx) = None" "rm_mergeTarget (new_room rid now grp mx) = 0"
  "rm_version (new_room rid now grp mx) = 1"
  "rm_notified (new_room rid now grp mx) = {sr_conn (hd grp)}"
  by (simp_all add: new_room_def Let_def)

lemma new_room_failed: "\<not> failed (new_room rid now grp mx) pid"
  by (simp add: failed_def room_state_def doc_state_def new_room_def new_hostDoc_def Let_def)

lemma seats_sum: "list_all search_ok ps \<Longrightarrow> length (concat (map sr_members ps)) = sum_list (map sr_seats ps)"
  by (induction ps) (auto simp: search_ok_def)

lemma new_room_inv:
  assumes ok: "group_ok flt (grp, n, mn, mx)" and big: "mn \<le> n" and ld: "list_all leader_ok grp"
  shows "room_inv (new_room rid now grp mx)"
proof -
  have ne: "grp \<noteq> []" using ok big by auto
  have so: "list_all search_ok grp" using ld by (auto simp: list_all_iff leader_ok_def)
  have "sr_filter (hd grp) = flt" and "hd grp \<in> set grp" using ok ne by (auto simp: list_all_iff)
  then show ?thesis
    using ok ld so seats_sum [OF so]
    by (simp add: room_inv_def room_base_def no_failed_def new_room_failed seats_def
        room_people_def fits_def list_all_iff)
qed

text \<open>What \<open>enq_group\<close> does, when the group is large enough.\<close>

lemma enq_group_room:
  assumes "group_loop (sr_filter s) (mm_waiting m @ [s]) ([], 0, 2, 8) = (grp, n, mn, mx)"
    and "mn \<le> n"
  defines "rid \<equiv> mm_next m + 1"
  shows "fst (enq_group now s m) =
    (put_room (new_room rid now grp mx) m)
      \<lparr>mm_live := mm_live m @ [rid], mm_next := rid,
       mm_waiting := filter (\<lambda>p. sr_id p \<notin> sr_id ` set grp) (mm_waiting m @ [s])\<rparr>"
  using assms by (simp add: enq_group_def Let_def put_room_def)

lemma enq_group_wait:
  assumes "group_loop (sr_filter s) (mm_waiting m @ [s]) ([], 0, 2, 8) = (grp, n, mn, mx)"
    and "n < mn"
  shows "enq_group now s m = (m\<lparr>mm_waiting := mm_waiting m @ [s]\<rparr>, [])"
  using assms by (simp add: enq_group_def Let_def)

lemma enq_group_facts:
  assumes "group_loop (sr_filter s) (mm_waiting m @ [s]) ([], 0, 2, 8) = (grp, n, mn, mx)"
    and "distinct (map sr_id (mm_waiting m @ [s]))"
  shows "group_ok (sr_filter s) (grp, n, mn, mx)"
    and "set grp \<subseteq> insert s (set (mm_waiting m))"
    and "mset grp + mset (filter (\<lambda>p. sr_id p \<notin> sr_id ` set grp) (mm_waiting m @ [s])) =
         add_mset s (mset (mm_waiting m))"
proof -
  show "group_ok (sr_filter s) (grp, n, mn, mx)"
    using group_loop_ok [of "sr_filter s" "([], 0, 2, 8)" "mm_waiting m @ [s]"] assms(1) by simp
  have sub: "mset grp \<subseteq># mset (mm_waiting m @ [s])"
    using group_loop_mset [OF assms(1)] by simp
  from set_mset_mono [OF sub] show "set grp \<subseteq> insert s (set (mm_waiting m))" by simp
  show "mset grp + mset (filter (\<lambda>p. sr_id p \<notin> sr_id ` set grp) (mm_waiting m @ [s])) =
         add_mset s (mset (mm_waiting m))"
    using partition_by_key [OF assms(2) sub] by simp
qed

lemma waiting_distinct:
  assumes "mm_inv m" and "fresh_search s m"
  shows "distinct (map sr_id (mm_waiting m @ [s]))"
proof -
  have sub: "image_mset sr_id (mset (mm_waiting m)) \<subseteq># search_keys sr_id m"
    by (simp add: search_keys_def)
  have "single (search_keys sr_id m)" using assms(1) by (simp add: mm_inv_but_def)
  then have "distinct (map sr_id (mm_waiting m))"
    using single_mono [OF sub] single_distinct by blast
  moreover have "sr_id s \<notin># image_mset sr_id (mset (mm_waiting m))"
    using mset_subset_eqD [OF sub] assms(2) by (auto simp: fresh_search_def)
  ultimately show ?thesis by auto
qed

lemma next_fresh: "heap_ids m \<Longrightarrow> mm_next m + 1 \<notin> set (mm_live m) \<and> mm_heap m (mm_next m + 1) = None"
  unfolding heap_ids_def by (metis not_None_eq add.commute not_less_eq_eq order_refl plus_1_eq_Suc)

lemma search_keys_new:
  assumes "rm_id r' \<notin> set (mm_live m)"
  shows "search_keys f ((put_room r' m)\<lparr>mm_live := mm_live m @ [rm_id r'], mm_next := k, mm_waiting := w\<rparr>)
      + image_mset f (mset (mm_waiting m)) =
    search_keys f m + image_mset f (mset w) + image_mset f (mset (rm_players r'))"
proof -
  let ?m = "(put_room r' m)\<lparr>mm_live := mm_live m @ [rm_id r'], mm_next := k, mm_waiting := w\<rparr>"
  have room: "the_room ?m i = (if i = rm_id r' then r' else the_room m i)" for i
    by (simp add: the_room_def)
  have "(\<Sum>i \<in> set (mm_live m). image_mset f (mset (rm_players (the_room ?m i)))) =
      (\<Sum>i \<in> set (mm_live m). image_mset f (mset (rm_players (the_room m i))))"
    using assms by (intro sum.cong) (auto simp: room)
  then show ?thesis
    using assms by (simp add: search_keys_def room del: put_room_simps(4))
qed

lemma enq_group_keys:
  assumes inv: "mm_inv m" and new: "fresh_search s m"
  shows "search_keys f (fst (enq_group now s m)) = add_mset (f s) (search_keys f m)"
proof -
  obtain grp n mn mx where
    g: "group_loop (sr_filter s) (mm_waiting m @ [s]) ([], 0, 2, 8) = (grp, n, mn, mx)"
    by (metis prod_cases4)
  show ?thesis
  proof (cases "n < mn")
    case True
    then show ?thesis by (simp add: enq_group_wait [OF g] search_keys_def the_room_def)
  next
    case False
    define w where "w = filter (\<lambda>p. sr_id p \<notin> sr_id ` set grp) (mm_waiting m @ [s])"
    have "image_mset f (mset grp) + image_mset f (mset w) =
        add_mset (f s) (image_mset f (mset (mm_waiting m)))"
      using enq_group_facts(3) [OF g waiting_distinct [OF inv new]] unfolding w_def
      by (metis image_mset_union image_mset_add_mset)
    moreover have "search_keys f (fst (enq_group now s m)) + image_mset f (mset (mm_waiting m)) =
        search_keys f m + (image_mset f (mset grp) + image_mset f (mset w))"
      using False next_fresh [OF mm_inv_heap [OF inv]]
        search_keys_new [of "new_room (mm_next m + 1) now grp mx" m f w "mm_next m + 1"]
      unfolding w_def by (subst enq_group_room [OF g]) (simp_all add: ac_simps)
    ultimately show ?thesis by simp
  qed
qed

lemma waiting_upd [simp]:
  "the_room (m\<lparr>mm_waiting := w\<rparr>) i = the_room m i"
  "merge_ok (m\<lparr>mm_waiting := w\<rparr>) r = merge_ok m r"
  "heap_ids (m\<lparr>mm_waiting := w\<rparr>) = heap_ids m"
  by (simp_all add: the_room_def merge_ok_def heap_ids_def)

lemma new_room_mm_inv:
  assumes inv: "mm_inv m" and rid: "rm_id r' = mm_next m + 1" and r': "room_inv r'"
    and src: "rm_mergeSource r' = None" and w: "list_all leader_ok w"
    and m': "m' = (put_room r' m)\<lparr>mm_live := mm_live m @ [rm_id r'], mm_next := rm_id r',
                     mm_waiting := w\<rparr>"
    and keys: "single (search_keys sr_id m')" "single (search_keys sr_pid m')"
  shows "mm_inv m'"
proof -
  have ids: "heap_ids m" by (rule mm_inv_heap [OF inv])
  note fresh = next_fresh [OF ids]
  have "heap_ids m'"
    using ids fresh rid unfolding heap_ids_def m'
    by (auto split: if_splits intro: le_SucI)
  moreover have "room_inv r" if "mm_heap m' i = Some r" for i r
    using that r' mm_inv_room [OF inv, of i r] unfolding m' by (auto split: if_splits)
  moreover have "merge_ok m' (the_room m' i)" if "i \<in> set (mm_live m')" for i
  proof (cases "i = rm_id r'")
    case True
    then show ?thesis using src by (simp add: m' the_room_def merge_ok_none)
  next
    case False
    then have i: "i \<in> set (mm_live m)" using that by (simp add: m')
    have same: "the_room m' i = the_room m i" using False by (simp add: m' the_room_def)
    have "rm_mergeSource (the_room m i) \<noteq> Some (rm_id r')"
      using mm_inv_merge [OF inv i] fresh rid by (auto simp: merge_ok_def)
    then have "merge_ok (put_room r' m) (the_room m i)"
      by (rule merge_ok_put_other [OF mm_inv_merge [OF inv i]])
    moreover have "mm_heap m' = mm_heap (put_room r' m)" by (simp add: m')
    ultimately show ?thesis using same merge_ok_heap by metis
  qed
  moreover have "list_all leader_ok (mm_waiting m')" using w by (simp add: m')
  ultimately show ?thesis
    using keys unfolding mm_inv_but_def by simp
qed

lemma enq_group_inv:
  assumes inv: "mm_inv m" and new: "fresh_search s m"
  shows "mm_inv (fst (enq_group now s m))"
proof -
  obtain grp n mn mx where
    g: "group_loop (sr_filter s) (mm_waiting m @ [s]) ([], 0, 2, 8) = (grp, n, mn, mx)"
    by (metis prod_cases4)
  have ld: "list_all leader_ok (mm_waiting m @ [s])"
    using inv new by (simp add: mm_inv_but_def fresh_search_def)
  have keys: "single (search_keys sr_id (fst (enq_group now s m)))"
    "single (search_keys sr_pid (fst (enq_group now s m)))"
    using inv new by (simp_all add: enq_group_keys [OF inv new] mm_inv_but_def fresh_search_def single_add)
  show ?thesis
  proof (cases "n < mn")
    case True
    have *: "fst (enq_group now s m) = m\<lparr>mm_waiting := mm_waiting m @ [s]\<rparr>"
      using True by (simp add: enq_group_wait [OF g])
    show ?thesis
      using inv ld keys unfolding * mm_inv_but_def by simp
  next
    case False
    note facts = enq_group_facts [OF g waiting_distinct [OF inv new]]
    have "list_all leader_ok grp" using facts(2) ld by (auto simp: list_all_iff)
    then have "room_inv (new_room (mm_next m + 1) now grp mx)"
      using new_room_inv [OF facts(1)] False by simp
    moreover have "list_all leader_ok (filter (\<lambda>p. sr_id p \<notin> sr_id ` set grp) (mm_waiting m @ [s]))"
      using ld by (auto simp: list_all_iff)
    ultimately show ?thesis
      using enq_group_room [OF g, of now] False
      by (intro new_room_mm_inv [OF inv _ _ _ _ _ keys,
            of "new_room (mm_next m + 1) now grp mx"]) simp_all
  qed
qed

definition arriving :: "ctrSearch \<Rightarrow> ctrMatchmaker \<Rightarrow> bool" where
  "arriving s m \<longleftrightarrow>
     leader_ok s \<and> sr_seats s \<le> sr_max s \<and> sr_max s \<le> 8 \<and> sr_id s \<notin># search_keys sr_id m"

lemma evict_room_pid:
  "distinct (map sr_pid (rm_players r)) \<Longrightarrow> p \<in> set (rm_players (evict_player pid r)) \<Longrightarrow> sr_pid p \<noteq> pid"
  by (auto simp: evict_player_def find_None_iff dest: remove_first_key split: option.splits)

lemma in_search_keys:
  "k \<in># search_keys f m \<longleftrightarrow>
   k \<in> f ` set (mm_waiting m) \<or>
   (\<exists>i \<in> set (mm_live m). k \<in> f ` set (rm_players (the_room m i)))"
  by (simp add: search_keys_def elem_sum_mset)

lemma mm_inv_single:
  "mm_inv_but x m \<Longrightarrow> single (search_keys sr_id m)"
  "mm_inv_but x m \<Longrightarrow> single (search_keys sr_pid m)"
  by (simp_all add: mm_inv_but_def)

lemma enq_evict_pid:
  assumes "mm_inv m"
  shows "sr_pid s \<notin># search_keys sr_pid (enq_evict s m)"
proof
  assume in_keys: "sr_pid s \<in># search_keys sr_pid (enq_evict s m)"
  have "sr_pid s \<notin> sr_pid ` set (mm_waiting (enq_evict s m))"
    by (auto simp: enq_evict_def)
  with in_keys obtain i p where ip: "i \<in> set (mm_live (enq_evict s m))"
    "p \<in> set (rm_players (the_room (enq_evict s m) i))" "sr_pid p = sr_pid s"
    unfolding in_search_keys by fastforce
  then have i: "i \<in> set (mm_live m)" "sr_pid (rm_host (the_room m i)) \<noteq> sr_pid s"
    by (auto simp: enq_evict_def)
  have "the_room (enq_evict s m) i = evict_player (sr_pid s) (the_room m i)"
  proof -
    obtain r where "mm_heap m i = Some r" using heap_ids_live [OF mm_inv_heap [OF assms] i(1)] by blast
    with i show ?thesis by (simp add: the_room_def enq_evict_def)
  qed
  moreover have "distinct (map sr_pid (rm_players (the_room m i)))"
    by (rule single_room_distinct [OF mm_inv_single(2) [OF assms] i(1)])
  ultimately show False using ip evict_room_pid by metis
qed

lemma enq_evict_fresh:
  assumes "mm_inv m" and "arriving s m"
  shows "mm_inv (enq_evict s m)" and "fresh_search s (enq_evict s m)"
proof -
  show inv: "mm_inv (enq_evict s m)"
    using shrink_inv(1) [OF mm_inv_heap [OF assms(1)] assms(1)] .
  have "search_keys sr_id (enq_evict s m) \<subseteq># search_keys sr_id m"
    by (rule mm_shrink_keys [OF enq_evict_shrink [OF mm_inv_heap [OF assms(1)]] mm_inv_heap [OF assms(1)]])
  then have "sr_id s \<notin># search_keys sr_id (enq_evict s m)"
    using assms(2) mset_subset_eqD by (force simp: arriving_def)
  then show "fresh_search s (enq_evict s m)"
    using assms enq_evict_pid [OF assms(1)] by (auto simp: fresh_search_def arriving_def)
qed

lemma set_rank_rooms: "set (rank_rooms m) = set (mm_live m)"
  by (simp add: rank_rooms_def)

lemma enqueue_cases:
  obtains (joined) m1 out where "enq_scan now s (rank_rooms (enq_evict s m)) (enq_evict s m) = (m1, Some out)"
      "enqueue now s m = (m1, out)"
  | (queued) m1 where "enq_scan now s (rank_rooms (enq_evict s m)) (enq_evict s m) = (m1, None)"
      "enqueue now s m = enq_group now s m1"
  by (cases "enq_scan now s (rank_rooms (enq_evict s m)) (enq_evict s m)")
     (auto simp: enqueue_def Let_def split: option.splits)

lemma enq_scan_fresh:
  assumes "enq_scan now s is m = (m', None)" and "mm_inv m" and "set is \<subseteq> set (mm_live m)"
    and "fresh_search s m"
  shows "fresh_search s m'"
  using enq_scan_keys [OF assms(1-3), of sr_id] enq_scan_keys [OF assms(1-3), of sr_pid] assms(4)
  by (simp add: fresh_search_def)

lemma enqueue_keeps_inv:
  assumes "mm_inv m" and "arriving s m"
  shows "mm_inv (fst (enqueue now s m))"
proof -
  note ev = enq_evict_fresh [OF assms]
  have sub: "set (rank_rooms (enq_evict s m)) \<subseteq> set (mm_live (enq_evict s m))"
    by (simp add: set_rank_rooms)
  show ?thesis
  proof (cases rule: enqueue_cases [of now s m])
    case (joined m1 out)
    then show ?thesis using enq_scan_inv [OF joined(1) ev(1) sub ev(2)] by simp
  next
    case (queued m1)
    then show ?thesis
      using enq_scan_inv [OF queued(1) ev(1) sub ev(2)] enq_scan_fresh [OF queued(1) ev(1) sub ev(2)]
        enq_group_inv by simp
  qed
qed

text \<open>The searches after \<open>enqueue\<close>: those the eviction left, and the new one.\<close>

lemma enqueue_search_keys:
  assumes "mm_inv m" and "arriving s m"
  shows "search_keys f (fst (enqueue now s m)) = add_mset (f s) (search_keys f (enq_evict s m))"
proof -
  note ev = enq_evict_fresh [OF assms]
  have sub: "set (rank_rooms (enq_evict s m)) \<subseteq> set (mm_live (enq_evict s m))"
    by (simp add: set_rank_rooms)
  show ?thesis
  proof (cases rule: enqueue_cases [of now s m])
    case (joined m1 out)
    then show ?thesis using enq_scan_keys [OF joined(1) ev(1) sub] by simp
  next
    case (queued m1)
    then show ?thesis
      using enq_scan_inv [OF queued(1) ev(1) sub ev(2)] enq_scan_fresh [OF queued(1) ev(1) sub ev(2)]
        enq_group_keys [of m1 s f now] enq_scan_keys [OF queued(1) ev(1) sub, of f] by simp
  qed
qed

end
