(* ===== verification/CtrSync.thy ===== *)
theory CtrSync
  imports CtrSafe
begin

text \<open>
  Merging and \<open>syncDoc\<close> keep the invariant. Between the arrival of a new host document and
  the release of the members it reports as failed, the room being synced only has
  \<open>room_base\<close>; that is the invariant \<open>mm_inv_but (Some i)\<close>.
\<close>

subsection \<open>startMerge\<close>

lemma mergeOpen_seats:
  "room_inv r \<Longrightarrow> rm_mergeSource r = None \<Longrightarrow> mergeOpen h r \<longleftrightarrow>
   lobby_open (rm_hostDoc r) \<and> connected r = seats r \<and> seats r > 0"
  by (simp add: mergeOpen_def room_inv_occupancy)

text \<open>The state after a merge of \<open>j\<close> into \<open>i\<close> was reserved.\<close>

definition reserved :: "nat \<Rightarrow> nat \<Rightarrow> ctrMatchmaker \<Rightarrow> ctrMatchmaker" where
  "reserved i j m =
     (let src = the_room m j; dst = the_room m i in
      put_room
        (bump_version (dst\<lparr>rm_mergeSource := Some j,
           rm_hostDoc := clear_states (room_people src) (rm_hostDoc dst)\<rparr>))
        (put_room (src\<lparr>rm_mergeTarget := i\<rparr>) m))"

lemma startMerge_cases:
  obtains (none) "startMerge now i m = (reset_target i m, [])"
  | (merge) j where "fst (startMerge now i m) = reserved i j (reset_target i m)"
      "j \<in> set (mm_live m)"
      "merge_candidate (reset_target i m) (the_room (reset_target i m) i) (the_room (reset_target i m) j)"
      "rm_mergeTarget (the_room (reset_target i m) i) = 0"
      "rm_mergeSource (the_room (reset_target i m) i) = None"
      "length (snd (startMerge now i m)) = 1"
proof -
  let ?m = "reset_target i m"
  let ?cs = "sort_key (\<lambda>j. (- int (occupancy (mm_heap ?m) (the_room ?m j)), j))
               (filter (\<lambda>j. merge_candidate ?m (the_room ?m i) (the_room ?m j)) (mm_live ?m))"
  show ?thesis
  proof (cases "rm_mergeTarget (the_room ?m i) \<noteq> 0 \<or> rm_mergeSource (the_room ?m i) \<noteq> None \<or>
      \<not> mergeOpen (mm_heap ?m) (the_room ?m i)")
    case True
    then show ?thesis using none by (simp add: startMerge_def Let_def)
  next
    case free: False
    show ?thesis
    proof (cases ?cs)
      case Nil
      then show ?thesis using none free by (simp add: startMerge_def Let_def)
    next
      case (Cons j js)
      then have "j \<in> set ?cs" by simp
      then show ?thesis
        using merge [of j] free Cons by (simp add: startMerge_def Let_def reserved_def)
    qed
  qed
qed

lemma merge_candidateD:
  assumes "merge_candidate m dst src"
  shows "rm_id src \<noteq> rm_id dst" "rm_mergeTarget src = 0" "rm_mergeSource src = None"
    "sr_filter (rm_host src) = sr_filter (rm_host dst)"
    "occupancy (mm_heap m) src + occupancy (mm_heap m) dst \<le> min (rm_capacity src) (rm_capacity dst)"
    "disjointRooms src dst" "mergeOpen (mm_heap m) src"
  using assms by (auto simp: merge_candidate_def Let_def)

lemma bump_simps [simp]:
  "rm_id (bump_version r) = rm_id r" "rm_host (bump_version r) = rm_host r"
  "rm_players (bump_version r) = rm_players r" "rm_capacity (bump_version r) = rm_capacity r"
  "rm_mergeSource (bump_version r) = rm_mergeSource r"
  "rm_mergeTarget (bump_version r) = rm_mergeTarget r"
  "rm_version (bump_version r) = rm_version r + 1" "rm_notified (bump_version r) = rm_notified r"
  by (simp_all add: bump_version_def)

lemma reserved_inv:
  assumes inv: "mm_inv m" and i: "i \<in> set (mm_live m)" and j: "j \<in> set (mm_live m)"
    and cand: "merge_candidate m (the_room m i) (the_room m j)"
    and free: "rm_mergeTarget (the_room m i) = 0" "rm_mergeSource (the_room m i) = None"
  shows "mm_inv (reserved i j m)"
proof -
  let ?dst = "the_room m i" and ?src = "the_room m j"
  let ?src' = "?src\<lparr>rm_mergeTarget := i\<rparr>"
  let ?dst' = "bump_version (?dst\<lparr>rm_mergeSource := Some j,
                 rm_hostDoc := clear_states (room_people ?src) (rm_hostDoc ?dst)\<rparr>)"
  let ?m1 = "put_room ?src' m"
  have li: "mm_heap m i = Some ?dst" "rm_id ?dst = i" using mm_inv_live [OF inv i] by auto
  have lj: "mm_heap m j = Some ?src" "rm_id ?src = j" using mm_inv_live [OF inv j] by auto
  note c = merge_candidateD [OF cand]
  have ne: "j \<noteq> i" using c(1) li lj by simp
  have rsrc: "room_inv ?src" and rdst: "room_inv ?dst"
    using mm_inv_room [OF inv lj(1)] mm_inv_room [OF inv li(1)] by auto
  have inv1: "mm_inv ?m1"
  proof (rule put_room_same_inv [OF inv lj(1)])
    show "if None = Some j then room_base ?src' else room_inv ?src'"
      using same_seats_inv [OF _ rsrc, of ?src'] by (simp add: room_simps)
  next
    fix k assume "k \<in> set (mm_live m)" "k \<noteq> j"
    then show "merge_ok ?m1 (the_room m k)"
      using merge_ok_put_other [OF mm_inv_merge [OF inv]] not_a_source [OF inv lj(1) c(2)] lj by simp
  qed (simp_all add: lj merge_ok_none c)
  have h1: "mm_heap ?m1 i = Some ?dst" using ne li lj by simp
  have "mm_inv (put_room ?dst' ?m1)"
  proof (rule put_room_same_inv [OF inv1 h1])
    have "same_seats ?dst ?dst'" by (simp add: same_seats_def)
    moreover have "failed ?dst pid" if "failed ?dst' pid" for pid
      using that
      by (auto simp: bump_version_def failed_def room_state_def doc_state_clear split: if_splits)
    ultimately show "if None = Some i then room_base ?dst' else room_inv ?dst'"
      using same_seats_inv rdst by simp
  next
    fix k assume k: "k \<in> set (mm_live ?m1)" "k \<noteq> i"
    show "merge_ok (put_room ?dst' ?m1) (the_room ?m1 k)"
      using merge_ok_put_other [OF mm_inv_merge [OF inv1 k(1)]]
        not_a_source [OF inv1 h1 free(1) k(1)] li by simp
  next
    show "merge_ok (put_room ?dst' ?m1) ?dst'"
      using ne li lj c free room_inv_occupancy [OF rsrc c(3), of "mm_heap m"]
        room_inv_occupancy [OF rdst free(2), of "mm_heap m"]
      by (simp add: merge_ok_def seats_def people_upd add.commute)
  qed (simp_all add: li)
  then show ?thesis by (simp add: reserved_def Let_def)
qed

lemma startMerge_inv:
  assumes "mm_inv m" and "i \<in> set (mm_live m)"
  shows "mm_inv (fst (startMerge now i m))"
proof (cases rule: startMerge_cases [of now i m])
  case none
  then show ?thesis using reset_target_inv [OF assms] by simp
next
  case (merge j)
  then show ?thesis using reserved_inv [OF reset_target_inv [OF assms]] assms by simp
qed

subsection \<open>finishMerge\<close>

lemma search_keys_del:
  "j \<in> set (mm_live m) \<Longrightarrow>
   search_keys f m = search_keys f (del_room j m) + image_mset f (mset (rm_players (the_room m j)))"
  by (simp add: search_keys_def sum.remove [of "set (mm_live m)" j] ac_simps)

lemma search_keys_del_sub: "search_keys f (del_room j m) \<subseteq># search_keys f m"
  unfolding search_keys_def by (intro subset_mset.add_mono sum_mset_subset') auto

lemma del_room_inv:
  assumes inv: "mm_inv_but x m"
  shows "mm_inv_but x (del_room j m)"
proof -
  have "heap_ids (del_room j m)"
    using mm_inv_heap [OF inv] by (auto simp: heap_ids_def del_room_def)
  moreover have "merge_ok (del_room j m) (the_room (del_room j m) i)"
    if "i \<in> set (mm_live (del_room j m))" for i
    using that mm_inv_merge [OF inv] merge_ok_heap [of "del_room j m" m] by simp
  ultimately show ?thesis
    using inv single_mono [OF search_keys_del_sub, of sr_id m j]
      single_mono [OF search_keys_del_sub, of sr_pid m j]
    unfolding mm_inv_but_def by auto
qed

text \<open>The state after the merge of \<open>j\<close> into \<open>i\<close> was cancelled, and after it was carried out.\<close>

definition cancelled :: "nat \<Rightarrow> nat \<Rightarrow> ctrMatchmaker \<Rightarrow> ctrMatchmaker" where
  "cancelled i j m =
     put_room (bump_version ((the_room m i)\<lparr>rm_mergeSource := None\<rparr>))
       (put_room ((the_room m j)\<lparr>rm_mergeTarget := 0\<rparr>) m)"

definition merged_room :: "ctrRoom \<Rightarrow> ctrRoom \<Rightarrow> ctrRoom" where
  "merged_room dst src =
     dst\<lparr>rm_mergeSource := None, rm_capacity := min (rm_capacity dst) (rm_capacity src),
         rm_players := rm_players dst @ rm_players src,
         rm_notified := rm_notified dst \<union> sr_conn ` set (rm_players src)\<rparr>"

definition merged :: "nat \<Rightarrow> nat \<Rightarrow> ctrMatchmaker \<Rightarrow> ctrMatchmaker" where
  "merged i j m = del_room j (put_room (merged_room (the_room m i) (the_room m j)) m)"

lemma finishMerge_cases:
  obtains (none) "finishMerge now i m = (m, [])" "rm_mergeSource (the_room m i) = None"
  | (cancel) j where "rm_mergeSource (the_room m i) = Some j"
      "\<not> merge_valid m (the_room m i) (the_room m j)"
      "fst (finishMerge now i m) = cancelled i j m" "length (snd (finishMerge now i m)) = 1"
  | (merge) j where "rm_mergeSource (the_room m i) = Some j"
      "merge_valid m (the_room m i) (the_room m j)"
      "fst (finishMerge now i m) = merged i j m"
      "map nt_conn (snd (finishMerge now i m)) = map sr_conn (rm_players (the_room m j))"
  by (cases "rm_mergeSource (the_room m i)";
      cases "merge_valid m (the_room m i) (the_room m (the (rm_mergeSource (the_room m i))))")
     (auto simp: finishMerge_def Let_def cancelled_def merged_def merged_room_def o_def)

lemma cancelled_inv:
  assumes inv: "mm_inv_but (Some i) m" and i: "i \<in> set (mm_live m)"
    and ms: "rm_mergeSource (the_room m i) = Some j"
  shows "mm_inv_but (Some i) (cancelled i j m)"
proof -
  let ?dst = "the_room m i" and ?src = "the_room m j"
  let ?dst' = "bump_version (?dst\<lparr>rm_mergeSource := None\<rparr>)"
  let ?src' = "?src\<lparr>rm_mergeTarget := 0\<rparr>"
  let ?m1 = "put_room ?dst' m"
  have li: "mm_heap m i = Some ?dst" "rm_id ?dst = i" using mm_inv_live [OF inv i] by auto
  obtain src where src: "j \<noteq> i" "rm_mergeTarget ?dst = 0" "mm_heap m j = Some src"
      "rm_mergeSource src = None" "rm_mergeTarget src = i"
    using merge_okD [OF mm_inv_merge [OF inv i] ms] li by metis
  have srce: "?src = src" using src(3) by (simp add: the_room_def)
  have idj: "rm_id src = j" using mm_inv_heap [OF inv] src(3) by (simp add: heap_ids_def)
  have inv1: "mm_inv_but (Some i) ?m1"
  proof (rule put_room_same_inv [OF inv li(1)])
    show "if Some i = Some i then room_base ?dst' else room_inv ?dst'"
      using mm_inv_base [OF inv li(1)] same_seats_eqs(4) [of ?dst ?dst'] by (simp add: same_seats_def)
  next
    fix k assume "k \<in> set (mm_live m)" "k \<noteq> i"
    then show "merge_ok ?m1 (the_room m k)"
      using merge_ok_put_other [OF mm_inv_merge [OF inv]] not_a_source [OF inv li(1) src(2)] li by simp
  qed (simp_all add: li merge_ok_none)
  have h1: "mm_heap ?m1 j = Some src" using src li by simp
  have "mm_inv_but (Some i) (put_room ?src' ?m1)"
  proof (rule put_room_same_inv [OF inv1 h1])
    have "room_inv src" using mm_inv_room [OF inv src(3)] src(1) by simp
    then show "if Some i = Some j then room_base ?src' else room_inv ?src'"
      using same_seats_inv [of src ?src'] src(1) srce by (simp add: room_simps)
  next
    fix k assume k: "k \<in> set (mm_live ?m1)" "k \<noteq> j"
    have "rm_mergeSource (the_room ?m1 k) \<noteq> Some j"
    proof
      assume s: "rm_mergeSource (the_room ?m1 k) = Some j"
      then have "k \<noteq> i" using li by auto
      then show False
        using s k(1) mm_inv_merge [OF inv, of k] mm_inv_live [OF inv, of k] src li
        by (auto simp: merge_ok_def)
    qed
    then show "merge_ok (put_room ?src' ?m1) (the_room ?m1 k)"
      using merge_ok_put_other [OF mm_inv_merge [OF inv1 k(1)]] idj srce by simp
  qed (simp_all add: srce idj src merge_ok_none)
  moreover have "put_room ?src' (put_room ?dst' m) = put_room ?dst' (put_room ?src' m)"
    using src(1) srce idj li by (simp add: put_room_def fun_upd_twist)
  ultimately show ?thesis by (simp add: cancelled_def)
qed

lemma merged_room_simps [simp]:
  "rm_id (merged_room d s) = rm_id d" "rm_host (merged_room d s) = rm_host d"
  "rm_players (merged_room d s) = rm_players d @ rm_players s"
  "rm_mergeSource (merged_room d s) = None" "rm_mergeTarget (merged_room d s) = rm_mergeTarget d"
  "rm_capacity (merged_room d s) = min (rm_capacity d) (rm_capacity s)"
  by (simp_all add: merged_room_def)

lemma merged_room_base:
  assumes d: "room_base d" and s: "room_base s" and f: "sr_filter (rm_host s) = sr_filter (rm_host d)"
    and c: "seats d + seats s \<le> rm_capacity d" "seats d + seats s \<le> rm_capacity s"
  shows "room_base (merged_room d s)"
proof -
  have "seats (merged_room d s) = seats d + seats s" by (simp add: seats_def room_people_def)
  moreover have "fits (merged_room d s) p = fits d p" "fits s p = fits d p" for p
    using f by (simp_all add: fits_def)
  ultimately show ?thesis
    using d s c by (auto simp: room_base_def list_all_iff)
qed

lemma search_keys_append:
  assumes "rm_id r' = i" and "i \<in> set (mm_live m)"
    and "rm_players r' = rm_players (the_room m i) @ qs"
  shows "search_keys f (put_room r' m) = search_keys f m + image_mset f (mset qs)"
  using search_keys_seat [OF assms, of f "mm_waiting m"] unfolding waiting_self by simp

lemma merged_inv:
  assumes inv: "mm_inv_but (Some i) m" and i: "i \<in> set (mm_live m)"
    and ms: "rm_mergeSource (the_room m i) = Some j"
    and val: "merge_valid m (the_room m i) (the_room m j)"
  shows "mm_inv_but (Some i) (merged i j m)"
proof -
  let ?dst = "the_room m i" and ?src = "the_room m j"
  let ?dst' = "merged_room ?dst ?src" and ?m1 = "del_room j m"
  have li: "mm_heap m i = Some ?dst" "rm_id ?dst = i" using mm_inv_live [OF inv i] by auto
  obtain src where src: "j \<noteq> i" "rm_mergeTarget ?dst = 0" "mm_heap m j = Some src"
      "sr_filter (rm_host src) = sr_filter (rm_host ?dst)"
      "seats ?dst + seats src \<le> rm_capacity ?dst" "seats ?dst + seats src \<le> rm_capacity src"
    using merge_okD [OF mm_inv_merge [OF inv i] ms] li by metis
  have srce: "?src = src" using src(3) by (simp add: the_room_def)
  have j: "j \<in> set (mm_live m)"
    using val srce mm_inv_heap [OF inv] src(3) by (auto simp: merge_valid_def heap_ids_def)
  have inv1: "mm_inv_but (Some i) ?m1" by (rule del_room_inv [OF inv])
  have h1: "mm_heap ?m1 i = Some ?dst" using li by simp
  have i1: "i \<in> set (mm_live ?m1)" using i src(1) by simp
  have id: "rm_id ?dst' = i" using li by simp
  have players: "rm_players ?dst' = rm_players (the_room ?m1 i) @ rm_players ?src" by simp
  have keys: "search_keys sr_id (put_room ?dst' ?m1) = search_keys sr_id m"
    "search_keys sr_pid (put_room ?dst' ?m1) = search_keys sr_pid m"
    using search_keys_append [OF id i1 players] search_keys_del [OF j] by metis+
  have "mm_inv_but (Some i) (put_room ?dst' ?m1)"
  proof (rule put_room_inv [OF inv1 h1 id, of "Some i"])
    have "room_base ?dst'"
      using merged_room_base [OF mm_inv_base [OF inv li(1)] mm_inv_base [OF inv src(3)] src(4-6)]
      by (simp add: srce)
    then show "if Some i = Some i then room_base ?dst' else room_inv ?dst'" by simp
  next
    fix k assume k: "k \<in> set (mm_live ?m1)" "k \<noteq> i"
    show "merge_ok (put_room ?dst' ?m1) (the_room ?m1 k)"
      using merge_ok_put_other [OF mm_inv_merge [OF inv1 k(1)]]
        not_a_source [OF inv1 h1 src(2) k(1)] li by simp
  next
    show "put_room ?dst' ?m1 = (put_room ?dst' ?m1)\<lparr>mm_waiting := mm_waiting ?m1\<rparr>"
      by (simp only: waiting_self)
  qed (use inv in \<open>auto simp: keys merge_ok_none mm_inv_but_def\<close>)
  moreover have "put_room ?dst' ?m1 = del_room j (put_room ?dst' m)"
    by (simp add: put_room_def del_room_def)
  ultimately show ?thesis by (simp add: merged_def)
qed

lemma finishMerge_inv:
  assumes "mm_inv_but (Some i) m" and "i \<in> set (mm_live m)"
  shows "mm_inv_but (Some i) (fst (finishMerge now i m))"
    and "i \<in> set (mm_live (fst (finishMerge now i m)))"
proof -
  have ne: "j \<noteq> i" if "rm_mergeSource (the_room m i) = Some j" for j
    using merge_okD [OF mm_inv_merge [OF assms] that] mm_inv_live [OF assms] by metis
  show "mm_inv_but (Some i) (fst (finishMerge now i m))"
    by (cases rule: finishMerge_cases [of now i m])
       (simp_all add: assms cancelled_inv merged_inv)
  show "i \<in> set (mm_live (fst (finishMerge now i m)))"
    by (cases rule: finishMerge_cases [of now i m])
       (use ne assms in \<open>auto simp: cancelled_def merged_def\<close>)
qed

subsection \<open>Releasing failed members\<close>

lemma keep_search_simps [simp]:
  "sr_id (keep_search r p) = sr_id p" "sr_pid (keep_search r p) = sr_pid p"
  "sr_conn (keep_search r p) = sr_conn p" "sr_filter (keep_search r p) = sr_filter p"
  "sr_max (keep_search r p) = sr_max p" "sr_min (keep_search r p) = sr_min p"
  "sr_members (keep_search r p) = filter (\<lambda>pid. \<not> failed r pid) (sr_members p)"
  "sr_seats (keep_search r p) = length (filter (\<lambda>pid. \<not> failed r pid) (sr_members p))"
  by (simp_all add: keep_search_def Let_def)

lemma keep_players:
  "filter (\<lambda>p. sr_members p \<noteq> []) (map (keep_search r) ps) =
   map (keep_search r) (filter (\<lambda>p. sr_members (keep_search r p) \<noteq> []) ps)"
  by (simp add: filter_map o_def)

lemma find_key:
  "distinct (map f xs) \<Longrightarrow> x \<in> set xs \<Longrightarrow> find (\<lambda>p. f p = f x) xs = Some x"
  by (induction xs) (auto simp: image_iff)

lemma release_host:
  assumes base: "room_base r" and dist: "distinct (map sr_id (rm_players r))"
  shows "rm_host (release_failed r) = keep_search r (rm_host r)"
    and "keep_search r (rm_host r) \<in> set (rm_players (release_failed r))"
    and "leader_ok (keep_search r (rm_host r))"
proof -
  let ?h = "keep_search r (rm_host r)"
  let ?kept = "filter (\<lambda>p. sr_members p \<noteq> []) (map (keep_search r) (rm_players r))"
  have h: "rm_host r \<in> set (rm_players r)" "sr_pid (rm_host r) \<in> set (sr_members (rm_host r))"
    using base by (auto simp: room_base_def leader_ok_def)
  have "\<not> failed r (sr_pid (rm_host r))" by (simp add: failed_def)
  then have pid: "sr_pid (rm_host r) \<in> set (sr_members ?h)" using h by simp
  then have "sr_members ?h \<noteq> []" by (metis empty_iff list.set(1))
  then have in_kept: "?h \<in> set ?kept" using h(1) by (simp del: keep_search_simps)
  have "distinct (map sr_id ?kept)"
    using dist by (simp add: keep_players o_def distinct_map_filter)
  then have "find (\<lambda>p. sr_id p = sr_id ?h) ?kept = Some ?h" by (rule find_key [OF _ in_kept])
  then show "rm_host (release_failed r) = ?h" by (simp add: release_failed_def Let_def)
  show "?h \<in> set (rm_players (release_failed r))"
    using in_kept by (simp add: release_failed_def Let_def)
  show "leader_ok ?h"
    using pid \<open>sr_members ?h \<noteq> []\<close> by (simp add: leader_ok_def search_ok_def)
qed

lemma release_simps [simp]:
  "rm_id (release_failed r) = rm_id r" "rm_capacity (release_failed r) = rm_capacity r"
  "rm_mergeSource (release_failed r) = rm_mergeSource r"
  "rm_mergeTarget (release_failed r) = rm_mergeTarget r"
  "rm_hostDoc (release_failed r) = rm_hostDoc r" "rm_version (release_failed r) = rm_version r"
  by (simp_all add: release_failed_def Let_def)

lemma release_players:
  "rm_players (release_failed r) =
   map (keep_search r) (filter (\<lambda>p. sr_members (keep_search r p) \<noteq> []) (rm_players r))"
  by (simp add: release_failed_def Let_def keep_players del: keep_search_simps)

lemma release_concat:
  "concat (map sr_members
     (map (keep_search r) (filter (\<lambda>p. sr_members (keep_search r p) \<noteq> []) ps))) =
   filter (\<lambda>pid. \<not> failed r pid) (concat (map sr_members ps))"
  by (induction ps) auto

lemma release_people:
  "room_people (release_failed r) = filter (\<lambda>pid. \<not> failed r pid) (room_people r)"
  unfolding room_people_def release_players by (rule release_concat)

lemma release_keys:
  assumes "\<And>p. f (keep_search r p) = f p"
  shows "image_mset f (mset (rm_players (release_failed r))) \<subseteq># image_mset f (mset (rm_players r))"
proof -
  have "image_mset f (mset (rm_players (release_failed r))) =
      image_mset f (mset (filter (\<lambda>p. sr_members (keep_search r p) \<noteq> []) (rm_players r)))"
    by (simp add: release_players assms image_mset.compositionality o_def del: keep_search_simps)
  then show ?thesis
    by (simp add: image_mset_subseteq_mono multiset_filter_subset del: keep_search_simps)
qed

lemma release_room:
  assumes base: "room_base r" and dist: "distinct (map sr_id (rm_players r))"
  shows "room_inv (release_failed r)" and "merge_keep r (release_failed r)"
proof -
  note host = release_host [OF base dist]
  have pid: "sr_pid (rm_host (release_failed r)) = sr_pid (rm_host r)"
    and flt: "sr_filter (rm_host (release_failed r)) = sr_filter (rm_host r)"
    by (simp_all add: host(1))
  have failed: "failed (release_failed r) p = failed r p" for p
    using pid by (simp add: failed_def room_state_def)
  have seats: "seats (release_failed r) \<le> seats r"
    by (simp add: seats_def release_people)
  have "fits (release_failed r) (keep_search r p)"
    if "p \<in> set (rm_players r)" "sr_members (keep_search r p) \<noteq> []" for p
  proof -
    have "fits r p" using base that(1) by (simp add: room_base_def list_all_iff)
    then show ?thesis using that(2) flt by (simp add: fits_def search_ok_def)
  qed
  then have "list_all (fits (release_failed r)) (rm_players (release_failed r))"
    by (simp add: release_players list_all_iff del: keep_search_simps)
  moreover have "no_failed (release_failed r)"
    by (simp add: no_failed_def failed release_people)
  moreover have "rm_capacity r \<le> 8" "seats r \<le> rm_capacity r"
    using base by (simp_all add: room_base_def)
  ultimately show "room_inv (release_failed r)"
    using host seats by (simp add: room_inv_def room_base_def del: keep_search_simps)
  show "merge_keep r (release_failed r)"
    using seats flt by (simp add: merge_keep_def)
qed

lemma release_single:
  assumes "rm_id r' = i" and "i \<in> set (mm_live m)"
    and "r' = (release_failed (the_room m i))\<lparr>rm_notified := ns\<rparr>"
    and "single (search_keys f m)" and "\<And>p. f (keep_search (the_room m i) p) = f p"
  shows "single (search_keys f (put_room r' m))"
proof -
  have "image_mset f (mset (rm_players r')) \<subseteq># image_mset f (mset (rm_players (the_room m i)))"
    using release_keys [of f "the_room m i"] assms(3,5) by simp
  then have "search_keys f (put_room r' m) \<subseteq># search_keys f m"
    using search_keys_put [OF assms(1,2), of f "mm_waiting m"] search_keys_room [OF assms(2), of f]
    unfolding waiting_self by simp
  then show ?thesis using assms(4) by (rule single_mono)
qed

lemma notify_loop_room:
  "notify_loop h now ps r = (r', ns) \<Longrightarrow>
   r' = r\<lparr>rm_notified := rm_notified r \<union> sr_conn ` set ps\<rparr>"
proof (induction ps arbitrary: r ns)
  case (Cons p ps)
  then show ?case
    by (cases "sr_conn p \<in> rm_notified r")
       (auto simp: Let_def insert_absorb split: prod.splits dest!: Cons.IH)
qed simp

text \<open>Writing the cleaned room back restores the invariant.\<close>

lemma release_inv:
  assumes inv: "mm_inv_but (Some i) m" and i: "i \<in> set (mm_live m)"
    and n: "r' = (release_failed (the_room m i))\<lparr>rm_notified := ns\<rparr>"
  shows "mm_inv (put_room r' m)"
proof -
  let ?r = "the_room m i"
  have li: "mm_heap m i = Some ?r" "rm_id ?r = i" using mm_inv_live [OF inv i] by auto
  have dist: "distinct (map sr_id (rm_players ?r))"
    by (rule single_room_distinct [OF mm_inv_single(1) [OF inv] i])
  note rel = release_room [OF mm_inv_base [OF inv li(1)] dist]
  have id: "rm_id r' = i" using li by (simp add: n)
  have r': "room_inv r'"
    by (rule same_seats_inv [OF _ rel(1)]) (simp_all add: n same_seats_simps room_upd_failed)
  have keep: "merge_keep ?r r'"
    using rel(2) unfolding merge_keep_def n by (simp add: seats_def room_people_def)
  note single = release_single [OF id i n]
  show ?thesis
  proof (rule put_room_inv [OF inv li(1) id, of None])
    show "if None = Some i then room_base r' else room_inv r'" using r' by simp
  next
    fix j assume "j \<in> set (mm_live m)" "j \<noteq> i"
    then show "merge_ok (put_room r' m) (the_room m j)"
      by (intro merge_ok_put_keep [OF mm_inv_merge [OF inv], where r = "the_room m i"])
         (simp_all add: li keep)
  next
    show "merge_ok (put_room r' m) r'"
      by (rule merge_ok_self_keep [OF mm_inv_merge [OF inv i] keep])
  next
    show "put_room r' m = (put_room r' m)\<lparr>mm_waiting := mm_waiting m\<rparr>"
      by (simp only: waiting_self)
  next
    show "list_all leader_ok (mm_waiting m)" using inv by (simp add: mm_inv_but_def)
  next
    show "single (search_keys sr_id (put_room r' m))"
      by (rule single [OF mm_inv_single(1) [OF inv]]) simp
  next
    show "single (search_keys sr_pid (put_room r' m))"
      by (rule single [OF mm_inv_single(2) [OF inv]]) simp
  qed simp
qed

subsection \<open>Backfilling from the waiting searches\<close>

lemma backfill_loop_seated:
  "backfill_loop h (p # ps) r =
     (if sr_filter p \<noteq> sr_filter (rm_host r) \<or>
         occupancy h r + sr_seats p > min (rm_capacity r) (sr_max p)
      then case backfill_loop h ps r of (r, rest, k) \<Rightarrow> (r, p # rest, k)
      else case backfill_loop h ps (seated p r) of (r, rest, k) \<Rightarrow> (r, rest, k + 1))"
  by (simp add: seated_def Let_def)

text \<open>
  \<open>filled r qs r'\<close>: \<open>r'\<close> is \<open>r\<close> with the searches \<open>qs\<close> seated at the end.
\<close>

definition filled :: "ctrRoom \<Rightarrow> ctrSearch list \<Rightarrow> ctrRoom \<Rightarrow> bool" where
  "filled r qs r' \<longleftrightarrow>
     rm_id r' = rm_id r \<and> rm_host r' = rm_host r \<and> rm_players r' = rm_players r @ qs \<and>
     rm_mergeSource r' = rm_mergeSource r \<and> rm_mergeTarget r' = rm_mergeTarget r \<and>
     rm_version r' = rm_version r"

lemma backfill_loop_inv:
  "backfill_loop h ps r = (r', rest, k) \<Longrightarrow> room_inv r \<Longrightarrow> rm_mergeSource r = None \<Longrightarrow>
   list_all leader_ok ps \<Longrightarrow>
   room_inv r' \<and> (\<exists>qs. filled r qs r' \<and> length qs = k \<and> mset qs + mset rest = mset ps)"
proof (induction ps arbitrary: r r' rest k)
  case Nil
  then show ?case by (auto simp: filled_def)
next
  case (Cons p ps)
  have ps: "list_all leader_ok ps" using Cons.prems(4) by simp
  show ?case
  proof (cases "sr_filter p \<noteq> sr_filter (rm_host r) \<or>
      occupancy h r + sr_seats p > min (rm_capacity r) (sr_max p)")
    case True
    obtain rest' where rest': "backfill_loop h ps r = (r', rest', k)" "rest = p # rest'"
      using Cons.prems(1) True by (auto simp: backfill_loop_seated simp del: backfill_loop.simps
          split: prod.splits)
    then show ?thesis using Cons.IH [OF rest'(1) Cons.prems(2,3) ps] by auto
  next
    case False
    obtain k' where k': "backfill_loop h ps (seated p r) = (r', rest, k')" "k = k' + 1"
      using Cons.prems(1) False by (auto simp: backfill_loop_seated simp del: backfill_loop.simps
          split: prod.splits)
    have "fits r p" using Cons.prems(4) False by (simp add: fits_def leader_ok_def)
    moreover have "seats r + sr_seats p \<le> min (rm_capacity r) (sr_max p)"
      using False room_inv_occupancy [OF Cons.prems(2,3), of h] by (simp add: not_less)
    ultimately have "room_inv (seated p r)" by (rule seated_inv [OF Cons.prems(2)])
    then obtain qs where "room_inv r'" "filled (seated p r) qs r'" "length qs = k'"
      "mset qs + mset rest = mset ps"
      using Cons.IH [OF k'(1) _ _ ps] Cons.prems(3) by auto
    then show ?thesis
      using k'(2) by (auto simp: filled_def intro!: exI [of _ "p # qs"])
  qed
qed

lemma sync_backfill_cases:
  obtains (skip) "sync_backfill now i m = (m, [])"
  | (fill) r' rest k where
      "backfill_loop (mm_heap m) (mm_waiting m) (the_room m i) = (r', rest, k)"
      "rm_mergeTarget (the_room m i) = 0" "rm_mergeSource (the_room m i) = None"
      "lobby_open (rm_hostDoc (the_room m i))"
      "fst (sync_backfill now i m) =
         (put_room (if k > 0 then bump_version r' else r') m)\<lparr>mm_waiting := rest\<rparr>"
      "length (snd (sync_backfill now i m)) = (if k > 0 then 1 else 0)"
proof (cases "lobby_open (rm_hostDoc (the_room m i)) \<and> rm_mergeTarget (the_room m i) = 0 \<and>
    rm_mergeSource (the_room m i) = None")
  case False
  then show ?thesis using skip by (auto simp: sync_backfill_def Let_def)
next
  case True
  obtain r' rest k where
    b: "backfill_loop (mm_heap m) (mm_waiting m) (the_room m i) = (r', rest, k)"
    by (metis prod_cases3)
  show ?thesis by (rule fill [OF b]) (use True b in \<open>simp_all add: sync_backfill_def Let_def\<close>)
qed

lemma search_keys_fill:
  assumes "rm_id r' = i" and "i \<in> set (mm_live m)"
    and "rm_players r' = rm_players (the_room m i) @ qs"
    and "mset qs + mset rest = mset (mm_waiting m)"
  shows "search_keys f ((put_room r' m)\<lparr>mm_waiting := rest\<rparr>) = search_keys f m"
proof -
  have "image_mset f (mset rest) + image_mset f (mset qs) = image_mset f (mset (mm_waiting m))"
    using assms(4) by (metis add.commute image_mset_union)
  then show ?thesis
    using search_keys_seat [OF assms(1-3), of f rest] by (simp add: add.assoc)
qed

lemma sync_backfill_inv:
  assumes inv: "mm_inv m" and i: "i \<in> set (mm_live m)"
  shows "mm_inv (fst (sync_backfill now i m))" and "mm_live (fst (sync_backfill now i m)) = mm_live m"
proof -
  let ?r = "the_room m i"
  have li: "mm_heap m i = Some ?r" "rm_id ?r = i" using mm_inv_live [OF inv i] by auto
  have "mm_inv (fst (sync_backfill now i m)) \<and> mm_live (fst (sync_backfill now i m)) = mm_live m"
  proof (cases rule: sync_backfill_cases [of now i m])
    case skip
    then show ?thesis using inv by simp
  next
    case (fill r' rest k)
    have r: "room_inv ?r" using mm_inv_room [OF inv li(1)] by simp
    have wait: "list_all leader_ok (mm_waiting m)" using inv by (simp add: mm_inv_but_def)
    obtain qs where q: "room_inv r'" "filled ?r qs r'" "mset qs + mset rest = mset (mm_waiting m)"
      using backfill_loop_inv [OF fill(1) r fill(3) wait] by blast
    define r2 where "r2 = (if k > 0 then bump_version r' else r')"
    have r2: "room_inv r2" "rm_id r2 = i" "rm_mergeSource r2 = None"
      "rm_players r2 = rm_players ?r @ qs"
      using q(1,2) fill(3) li same_seats_inv [of r' "bump_version r'"]
      by (auto simp: r2_def filled_def same_seats_simps failed_bump)
    let ?m' = "(put_room r2 m)\<lparr>mm_waiting := rest\<rparr>"
    have sets: "set rest \<subseteq> set (mm_waiting m)"
      using arg_cong [OF q(3), of set_mset] by auto
    have "mm_inv ?m'"
    proof (rule put_room_inv [OF inv li(1) r2(2), of None])
      fix j assume "j \<in> set (mm_live m)" "j \<noteq> i"
      then show "merge_ok (put_room r2 m) (the_room m j)"
        using merge_ok_put_other [OF mm_inv_merge [OF inv]] not_a_source [OF inv li(1) fill(2)] r2(2)
        by simp
    next
      show "list_all leader_ok rest" using wait sets by (auto simp: list_all_iff)
    next
      show "single (search_keys sr_id ?m')" "single (search_keys sr_pid ?m')"
        using search_keys_fill [OF r2(2) i r2(4) q(3), of sr_id]
          search_keys_fill [OF r2(2) i r2(4) q(3), of sr_pid] mm_inv_single [OF inv] by simp_all
    qed (simp_all add: r2 merge_ok_none)
    then show ?thesis using fill(5) by (simp add: r2_def)
  qed
  then show "mm_inv (fst (sync_backfill now i m))"
    and "mm_live (fst (sync_backfill now i m)) = mm_live m" by auto
qed

subsection \<open>syncDoc\<close>

text \<open>The stages of an accepted sync.\<close>

definition sync_doc_room :: "int \<Rightarrow> hostDoc \<Rightarrow> ctrRoom \<Rightarrow> ctrRoom" where
  "sync_doc_room now doc r =
     r\<lparr>rm_hostDoc := doc(''update_id'' \<mapsto> GUint64 (rm_version r), ''update_time'' \<mapsto> GInt64 now)\<rparr>"

definition sync_merged :: "int \<Rightarrow> nat \<Rightarrow> hostDoc \<Rightarrow> ctrMatchmaker \<Rightarrow> ctrMatchmaker \<times> ctrNotice list" where
  "sync_merged now i doc m = finishMerge now i (put_room (sync_doc_room now doc (the_room m i)) m)"

definition sync_joined :: "int \<Rightarrow> nat \<Rightarrow> ctrMatchmaker \<Rightarrow> ctrMatchmaker \<times> ctrNotice list" where
  "sync_joined now i m =
     (let r = release_failed (the_room m i) in
      case notify_loop (mm_heap m) now (rm_players r) r of (r', joins) \<Rightarrow> (put_room r' m, joins))"

definition sync_accepted :: "conn \<Rightarrow> nat \<Rightarrow> nat \<Rightarrow> hostDoc option \<Rightarrow> ctrMatchmaker \<Rightarrow> bool" where
  "sync_accepted c i version doc m \<longleftrightarrow>
     (case (doc, live_room m i) of
        (Some d, Some r) \<Rightarrow> sr_conn (rm_host r) = c \<and> rm_version r = version \<and>
                             list_all (\<lambda>k. d k \<noteq> None) sync_keys
      | _ \<Rightarrow> False)"

lemma syncDoc_rejected:
  "\<not> sync_accepted c i version doc m \<Longrightarrow> syncDoc now c i version doc m = (m, False, [])"
  by (auto simp: sync_accepted_def syncDoc_def list_all_iff list_ex_iff split: option.splits)

lemma syncDoc_accepted:
  assumes "sync_accepted c i version doc m"
  obtains m1 m2 m3 merged joins filled where
    "i \<in> set (mm_live m)"
    "sync_merged now i (the doc) m = (m1, merged)" "sync_joined now i m1 = (m2, joins)"
    "sync_backfill now i m2 = (m3, filled)"
    "syncDoc now c i version doc m =
       (let out = merged @ joins @ filled in
        case (if out = [] then startMerge now i m3 else (m3, [])) of
          (m4, started) \<Rightarrow> (m4, True, out @ started))"
proof -
  obtain d r where d: "doc = Some d" and r: "live_room m i = Some r" "sr_conn (rm_host r) = c"
    "rm_version r = version" "\<not> list_ex (\<lambda>k. d k = None) sync_keys"
    using assms by (auto simp: sync_accepted_def list_all_iff list_ex_iff split: option.splits)
  have room: "the_room m i = r" and live: "i \<in> set (mm_live m)"
    using r(1) by (auto simp: live_room_def the_room_def split: if_splits)
  obtain m1 merged where m1: "sync_merged now i d m = (m1, merged)" by fastforce
  obtain m2 joins where m2: "sync_joined now i m1 = (m2, joins)" by fastforce
  obtain m3 filled where m3: "sync_backfill now i m2 = (m3, filled)" by fastforce
  obtain r' where n: "notify_loop (mm_heap m1) now (rm_players (release_failed (the_room m1 i)))
      (release_failed (the_room m1 i)) = (r', joins)" "m2 = put_room r' m1"
    using m2 by (auto simp: sync_joined_def Let_def split: prod.splits)
  show ?thesis
  proof (rule that [OF live _ m2 m3])
    show "sync_merged now i (the doc) m = (m1, merged)" using m1 d by simp
    show "syncDoc now c i version doc m =
       (let out = merged @ joins @ filled in
        case (if out = [] then startMerge now i m3 else (m3, [])) of
          (m4, started) \<Rightarrow> (m4, True, out @ started))"
      using m1 n m3 room d r
      by (simp add: syncDoc_def sync_merged_def sync_doc_room_def Let_def)
  qed
qed

lemma sync_doc_inv:
  assumes inv: "mm_inv m" and i: "i \<in> set (mm_live m)"
  shows "mm_inv_but (Some i) (put_room (sync_doc_room now doc (the_room m i)) m)"
proof -
  let ?r = "the_room m i" and ?r' = "sync_doc_room now doc (the_room m i)"
  have li: "mm_heap m i = Some ?r" "rm_id ?r = i" using mm_inv_live [OF inv i] by auto
  have same: "same_seats ?r ?r'" by (simp add: sync_doc_room_def same_seats_simps)
  have keep: "merge_keep ?r ?r'"
    using same_seats_eqs(1) [OF same] by (simp add: merge_keep_def sync_doc_room_def)
  show ?thesis
  proof (rule put_room_same_inv [OF inv li(1)])
    show "if Some i = Some i then room_base ?r' else room_inv ?r'"
      using mm_inv_base [OF inv li(1)] same_seats_eqs(4) [OF same] by simp
  next
    fix j assume "j \<in> set (mm_live m)" "j \<noteq> i"
    then show "merge_ok (put_room ?r' m) (the_room m j)"
      by (intro merge_ok_put_keep [OF mm_inv_merge [OF inv], where r = ?r]) (simp_all add: li keep)
  next
    show "merge_ok (put_room ?r' m) ?r'"
      by (rule merge_ok_self_keep [OF mm_inv_merge [OF inv i] keep])
  qed (simp_all add: li sync_doc_room_def)
qed

lemma sync_merged_inv:
  assumes "mm_inv m" and "i \<in> set (mm_live m)" and "sync_merged now i doc m = (m1, out)"
  shows "mm_inv_but (Some i) m1" and "i \<in> set (mm_live m1)"
  using finishMerge_inv [OF sync_doc_inv [OF assms(1,2), of now doc], of now] assms(2,3)
  by (auto simp: sync_merged_def)

lemma sync_joined_inv:
  assumes "mm_inv_but (Some i) m" and "i \<in> set (mm_live m)" and "sync_joined now i m = (m2, out)"
  shows "mm_inv m2" and "i \<in> set (mm_live m2)"
proof -
  obtain r' where n: "notify_loop (mm_heap m) now (rm_players (release_failed (the_room m i)))
      (release_failed (the_room m i)) = (r', out)" "m2 = put_room r' m"
    using assms(3) by (auto simp: sync_joined_def Let_def split: prod.splits)
  show "mm_inv m2"
    using release_inv [OF assms(1,2) notify_loop_room [OF n(1)]] n(2) by simp
  show "i \<in> set (mm_live m2)" using assms(2) n(2) by simp
qed

lemma syncDoc_keeps_inv:
  assumes "mm_inv m"
  shows "mm_inv (fst (syncDoc now c i version doc m))"
proof (cases "sync_accepted c i version doc m")
  case False
  then show ?thesis using assms by (simp add: syncDoc_rejected)
next
  case True
  then obtain m1 m2 m3 merged joins filled where s: "i \<in> set (mm_live m)"
    "sync_merged now i (the doc) m = (m1, merged)" "sync_joined now i m1 = (m2, joins)"
    "sync_backfill now i m2 = (m3, filled)"
    "syncDoc now c i version doc m =
       (let out = merged @ joins @ filled in
        case (if out = [] then startMerge now i m3 else (m3, [])) of
          (m4, started) \<Rightarrow> (m4, True, out @ started))"
    by (rule syncDoc_accepted)
  note i1 = sync_merged_inv [OF assms s(1,2)]
  note i2 = sync_joined_inv [OF i1 s(3)]
  have i3: "mm_inv m3" "i \<in> set (mm_live m3)"
    using sync_backfill_inv [OF i2, of now] s(4) i2(2) by simp_all
  show ?thesis
    using s(5) i3 startMerge_inv [OF i3, of now] by (auto simp: Let_def split: prod.splits)
qed

subsection \<open>Syncing moves searches but never duplicates one\<close>

lemma put_keys:
  assumes "mm_heap m i = Some r" and "rm_id r' = i" and "rm_players r' = rm_players r"
  shows "search_keys f (put_room r' m) = search_keys f m"
proof (cases "i \<in> set (mm_live m)")
  case True
  have "the_room m i = r" using assms(1) by (simp add: the_room_def)
  then show ?thesis using search_keys_put_same [OF assms(2) True, of f] assms(3) by simp
qed (simp add: assms(2) search_keys_put_dead)

lemma mm_next_frames [simp]:
  "mm_next (reserved i j m) = mm_next m" "mm_next (cancelled i j m) = mm_next m"
  "mm_next (merged i j m) = mm_next m"
  by (simp_all add: reserved_def cancelled_def merged_def Let_def)

lemma startMerge_next: "mm_next (fst (startMerge now i m)) = mm_next m"
  by (cases rule: startMerge_cases [of now i m]) simp_all

lemma finishMerge_next: "mm_next (fst (finishMerge now i m)) = mm_next m"
  by (cases rule: finishMerge_cases [of now i m]) simp_all

lemma sync_backfill_next: "mm_next (fst (sync_backfill now i m)) = mm_next m"
  by (cases rule: sync_backfill_cases [of now i m]) simp_all

lemma startMerge_keys:
  assumes inv: "mm_inv m" and i: "i \<in> set (mm_live m)"
  shows "search_keys f (fst (startMerge now i m)) = search_keys f m"
proof (cases rule: startMerge_cases [of now i m])
  case none
  then show ?thesis using search_keys_reset [OF mm_inv_heap [OF inv] i] by simp
next
  case (merge j)
  let ?m = "reset_target i m"
  let ?src' = "(the_room ?m j)\<lparr>rm_mergeTarget := i\<rparr>"
  have inv': "mm_inv ?m" by (rule reset_target_inv [OF inv i])
  have li: "mm_heap ?m i = Some (the_room ?m i)" "rm_id (the_room ?m i) = i"
    using mm_inv_live [OF inv'] i by auto
  have lj: "mm_heap ?m j = Some (the_room ?m j)" "rm_id (the_room ?m j) = j"
    using mm_inv_live [OF inv'] merge(2) by auto
  have "search_keys f (put_room ?src' ?m) = search_keys f m"
    using put_keys [OF lj(1), of ?src' f] lj(2) search_keys_reset [OF mm_inv_heap [OF inv] i, of f]
    by simp
  moreover have "search_keys f (reserved i j ?m) = search_keys f (put_room ?src' ?m)"
    unfolding reserved_def Let_def
    by (rule put_keys [of _ i "the_room ?m i"])
       (use li lj merge_candidateD(1) [OF merge(3)] in auto)
  ultimately show ?thesis using merge(1) by simp
qed

lemma finishMerge_keys:
  assumes inv: "mm_inv_but (Some i) m" and i: "i \<in> set (mm_live m)"
  shows "search_keys f (fst (finishMerge now i m)) = search_keys f m"
proof (cases rule: finishMerge_cases [of now i m])
  case none
  then show ?thesis by simp
next
  case (cancel j)
  have li: "mm_heap m i = Some (the_room m i)" "rm_id (the_room m i) = i"
    using mm_inv_live [OF inv i] by auto
  obtain src where src: "j \<noteq> i" "mm_heap m j = Some src"
    using merge_okD [OF mm_inv_merge [OF inv i] cancel(1)] li by metis
  have lj: "the_room m j = src" "rm_id src = j"
    using src(2) mm_inv_heap [OF inv] by (simp_all add: the_room_def heap_ids_def)
  have "search_keys f (put_room (src\<lparr>rm_mergeTarget := 0\<rparr>) m) = search_keys f m"
    using put_keys [OF src(2), of "src\<lparr>rm_mergeTarget := 0\<rparr>"] lj by simp
  moreover have "search_keys f (cancelled i j m) =
      search_keys f (put_room (src\<lparr>rm_mergeTarget := 0\<rparr>) m)"
    unfolding cancelled_def lj(1)
    by (rule put_keys [of _ i "the_room m i"]) (use li lj src in auto)
  ultimately show ?thesis using cancel(3) by simp
next
  case (merge j)
  have li: "mm_heap m i = Some (the_room m i)" "rm_id (the_room m i) = i"
    using mm_inv_live [OF inv i] by auto
  obtain src where src: "j \<noteq> i" "mm_heap m j = Some src"
    using merge_okD [OF mm_inv_merge [OF inv i] merge(1)] li by metis
  have "j \<in> set (mm_live m)"
    using merge(2) src(2) mm_inv_heap [OF inv] by (auto simp: merge_valid_def the_room_def heap_ids_def)
  then have "search_keys f m =
      search_keys f (del_room j m) + image_mset f (mset (rm_players (the_room m j)))"
    by (rule search_keys_del)
  moreover have "search_keys f (put_room (merged_room (the_room m i) (the_room m j)) (del_room j m)) =
      search_keys f (del_room j m) + image_mset f (mset (rm_players (the_room m j)))"
    by (rule search_keys_append [of _ i]) (use li i src in auto)
  moreover have "merged i j m = put_room (merged_room (the_room m i) (the_room m j)) (del_room j m)"
    by (simp add: merged_def put_room_def del_room_def)
  ultimately show ?thesis using merge(3) by simp
qed

lemma sync_joined_keys:
  assumes inv: "mm_inv_but (Some i) m" and i: "i \<in> set (mm_live m)"
    and step: "sync_joined now i m = (m2, out)" and f: "\<And>r p. f (keep_search r p) = f p"
  shows "search_keys f m2 \<subseteq># search_keys f m" and "mm_next m2 = mm_next m"
proof -
  let ?r = "the_room m i"
  have id: "rm_id ?r = i" using mm_inv_live [OF inv i] by auto
  obtain r' where n: "notify_loop (mm_heap m) now (rm_players (release_failed ?r))
      (release_failed ?r) = (r', out)" "m2 = put_room r' m"
    using step by (auto simp: sync_joined_def Let_def split: prod.splits)
  have r': "rm_id r' = i" "rm_players r' = rm_players (release_failed ?r)"
    using notify_loop_room [OF n(1)] id by auto
  have "image_mset f (mset (rm_players r')) \<subseteq># image_mset f (mset (rm_players ?r))"
    using release_keys [of f ?r] f r'(2) by simp
  then show "search_keys f m2 \<subseteq># search_keys f m"
    using search_keys_put [OF r'(1) i, of f "mm_waiting m"] search_keys_room [OF i, of f] n(2)
    unfolding waiting_self by simp
  show "mm_next m2 = mm_next m" using n(2) by simp
qed

lemma sync_backfill_keys:
  assumes inv: "mm_inv m" and i: "i \<in> set (mm_live m)"
  shows "search_keys f (fst (sync_backfill now i m)) = search_keys f m"
proof (cases rule: sync_backfill_cases [of now i m])
  case skip
  then show ?thesis by simp
next
  case (fill r' rest k)
  let ?r = "the_room m i"
  have li: "mm_heap m i = Some ?r" "rm_id ?r = i" using mm_inv_live [OF inv i] by auto
  have r: "room_inv ?r" using mm_inv_room [OF inv li(1)] by simp
  have wait: "list_all leader_ok (mm_waiting m)" using inv by (simp add: mm_inv_but_def)
  obtain qs where q: "filled ?r qs r'" "mset qs + mset rest = mset (mm_waiting m)"
    using backfill_loop_inv [OF fill(1) r fill(3) wait] by blast
  then show ?thesis
    using fill(5) li(2)
      search_keys_fill [of "if k > 0 then bump_version r' else r'" i m qs rest f] i
    by (auto simp: filled_def)
qed

lemma syncDoc_keys:
  assumes inv: "mm_inv m" and f: "\<And>r p. f (keep_search r p) = f p"
  shows "search_keys f (fst (syncDoc now c i version doc m)) \<subseteq># search_keys f m"
    and "mm_next (fst (syncDoc now c i version doc m)) = mm_next m"
proof -
  have "search_keys f (fst (syncDoc now c i version doc m)) \<subseteq># search_keys f m \<and>
    mm_next (fst (syncDoc now c i version doc m)) = mm_next m"
  proof (cases "sync_accepted c i version doc m")
    case False
    then show ?thesis by (simp add: syncDoc_rejected)
  next
    case True
    then obtain m1 m2 m3 merged joins filled where s: "i \<in> set (mm_live m)"
      "sync_merged now i (the doc) m = (m1, merged)" "sync_joined now i m1 = (m2, joins)"
      "sync_backfill now i m2 = (m3, filled)"
      "syncDoc now c i version doc m =
         (let out = merged @ joins @ filled in
          case (if out = [] then startMerge now i m3 else (m3, [])) of
            (m4, started) \<Rightarrow> (m4, True, out @ started))"
      by (rule syncDoc_accepted)
    let ?r0 = "sync_doc_room now (the doc) (the_room m i)"
    have li: "mm_heap m i = Some (the_room m i)" "rm_id (the_room m i) = i"
      using mm_inv_live [OF inv s(1)] by auto
    note i0 = sync_doc_inv [OF inv s(1), of now "the doc"]
    note i1 = sync_merged_inv [OF inv s(1,2)]
    note i2 = sync_joined_inv [OF i1 s(3)]
    have i3: "mm_inv m3" "i \<in> set (mm_live m3)"
      using sync_backfill_inv [OF i2, of now] s(4) i2(2) by simp_all
    have k0: "search_keys f (put_room ?r0 m) = search_keys f m"
      by (rule put_keys [OF li(1)]) (simp_all add: sync_doc_room_def li)
    have k1: "search_keys f m1 = search_keys f m" "mm_next m1 = mm_next m"
      using finishMerge_keys [OF i0, of f now] finishMerge_next [of now i "put_room ?r0 m"] k0 s(1,2)
      by (simp_all add: sync_merged_def)
    note k2 = sync_joined_keys [OF i1 s(3) f]
    have k3: "search_keys f m3 = search_keys f m2" "mm_next m3 = mm_next m2"
      using sync_backfill_keys [OF i2, of f now] sync_backfill_next [of now i m2] s(4) by simp_all
    have "search_keys f (fst (startMerge now i m3)) = search_keys f m3"
      "mm_next (fst (startMerge now i m3)) = mm_next m3"
      using startMerge_keys [OF i3] startMerge_next by simp_all
    then show ?thesis
      using s(5) k1 k2 k3 by (auto simp: Let_def split: prod.splits)
  qed
  then show "search_keys f (fst (syncDoc now c i version doc m)) \<subseteq># search_keys f m"
    and "mm_next (fst (syncDoc now c i version doc m)) = mm_next m" by auto
qed

end
