(* ===== verification/Base64.thy ===== *)
theory Base64
  imports Prelude
begin

text \<open>
  Go's \<open>encoding/base64\<close> as the program uses it: \<open>StdEncoding\<close> (padded), \<open>RawURLEncoding\<close> and
  \<open>RawStdEncoding\<close> (no padding), over strings of characters. The decoder skips line breaks,
  as Go's does, and does not check the unused low bits of the last digit (Go's default, which is
  not strict). The round trip holds for each encoding.
\<close>

definition std_alphabet :: string where
  "std_alphabet = ''ABCDEFGHIJKLMNOPQRSTUVWXYZabcdefghijklmnopqrstuvwxyz0123456789+/''"

definition url_alphabet :: string where
  "url_alphabet = ''ABCDEFGHIJKLMNOPQRSTUVWXYZabcdefghijklmnopqrstuvwxyz0123456789-_''"

definition b64_digit :: "string \<Rightarrow> char \<Rightarrow> nat option" where
  "b64_digit al c = find (\<lambda>i. al ! i = c) [0..<64]"

definition b64_byte :: "nat \<Rightarrow> byte" where
  "b64_byte n = word_of_nat (n mod 256)"

fun b64_encode :: "string \<Rightarrow> bool \<Rightarrow> bytes \<Rightarrow> string" where
  "b64_encode al pad [] = []"
| "b64_encode al pad [a] =
     [al ! (unat a div 4), al ! (unat a mod 4 * 16)] @ (if pad then ''=='' else [])"
| "b64_encode al pad [a, b] =
     [al ! (unat a div 4), al ! (unat a mod 4 * 16 + unat b div 16), al ! (unat b mod 16 * 4)] @
     (if pad then ''='' else [])"
| "b64_encode al pad (a # b # c # rest) =
     [al ! (unat a div 4), al ! (unat a mod 4 * 16 + unat b div 16),
      al ! (unat b mod 16 * 4 + unat c div 64), al ! (unat c mod 64)] @ b64_encode al pad rest"

definition b64_two :: "string \<Rightarrow> char \<Rightarrow> char \<Rightarrow> bytes option" where
  "b64_two al a b =
     (case (b64_digit al a, b64_digit al b) of
        (Some x, Some y) \<Rightarrow> Some [b64_byte (x * 4 + y div 16)] | _ \<Rightarrow> None)"

definition b64_three :: "string \<Rightarrow> char \<Rightarrow> char \<Rightarrow> char \<Rightarrow> bytes option" where
  "b64_three al a b c =
     (case (b64_digit al a, b64_digit al b, b64_digit al c) of
        (Some x, Some y, Some z) \<Rightarrow>
          Some [b64_byte (x * 4 + y div 16), b64_byte (y mod 16 * 16 + z div 4)]
      | _ \<Rightarrow> None)"

definition b64_four :: "string \<Rightarrow> char \<Rightarrow> char \<Rightarrow> char \<Rightarrow> char \<Rightarrow> bytes option" where
  "b64_four al a b c d =
     (case (b64_digit al a, b64_digit al b, b64_digit al c, b64_digit al d) of
        (Some x, Some y, Some z, Some w) \<Rightarrow>
          Some [b64_byte (x * 4 + y div 16), b64_byte (y mod 16 * 16 + z div 4),
                b64_byte (z mod 4 * 64 + w)]
      | _ \<Rightarrow> None)"

fun b64_quads :: "string \<Rightarrow> bool \<Rightarrow> string \<Rightarrow> bytes option" where
  "b64_quads al pad [] = Some []"
| "b64_quads al pad [a] = None"
| "b64_quads al pad [a, b] = (if pad then None else b64_two al a b)"
| "b64_quads al pad [a, b, c] = (if pad then None else b64_three al a b c)"
| "b64_quads al pad (a # b # c # d # rest) =
     (if pad \<and> rest = [] \<and> d = CHR ''='' then
        (if c = CHR ''='' then b64_two al a b else b64_three al a b c)
      else case (b64_four al a b c d, b64_quads al pad rest) of
             (Some bs, Some more) \<Rightarrow> Some (bs @ more) | _ \<Rightarrow> None)"

definition b64_decode :: "string \<Rightarrow> bool \<Rightarrow> string \<Rightarrow> bytes option" where
  "b64_decode al pad s = b64_quads al pad (filter (\<lambda>c. c \<noteq> CHR 0x0A \<and> c \<noteq> CHR 0x0D) s)"

abbreviation std_decode :: "string \<Rightarrow> bytes option" where
  "std_decode \<equiv> b64_decode std_alphabet True"

abbreviation std_encode :: "bytes \<Rightarrow> string" where
  "std_encode \<equiv> b64_encode std_alphabet True"

subsection \<open>Round trip\<close>

text \<open>What the proofs need of an alphabet.\<close>

definition alphabet_ok :: "string \<Rightarrow> bool" where
  "alphabet_ok al \<longleftrightarrow>
     length al = 64 \<and> distinct al \<and>
     list_all (\<lambda>c. c \<noteq> CHR ''='' \<and> c \<noteq> CHR 0x0A \<and> c \<noteq> CHR 0x0D) al"

lemma std_alphabet_ok: "alphabet_ok std_alphabet"
  by (simp add: alphabet_ok_def std_alphabet_def)

lemma url_alphabet_ok: "alphabet_ok url_alphabet"
  by (simp add: alphabet_ok_def url_alphabet_def)

lemma find_self: "i \<in> set xs \<Longrightarrow> find (\<lambda>j. j = i) xs = Some i"
  by (induction xs) auto

lemma b64_digit_nth:
  assumes "alphabet_ok al" and "i < 64"
  shows "b64_digit al (al ! i) = Some i"
proof -
  have "(\<lambda>j. al ! j = al ! i) j \<longleftrightarrow> j = i" if "j \<in> set [0..<64]" for j
    using that assms by (auto simp: alphabet_ok_def nth_eq_iff_index_eq)
  then have "find (\<lambda>j. al ! j = al ! i) [0..<64] = find (\<lambda>j. j = i) [0..<64]"
    by (intro find_cong) auto
  also have "\<dots> = Some i"
    using assms(2) by (intro find_self) simp
  finally show ?thesis by (simp add: b64_digit_def)
qed

lemma nth_plain:
  "alphabet_ok al \<Longrightarrow> i < 64 \<Longrightarrow>
   al ! i \<noteq> CHR ''='' \<and> al ! i \<noteq> CHR 0x0A \<and> al ! i \<noteq> CHR 0x0D"
  by (auto simp: alphabet_ok_def list_all_iff)

lemma unat_byte_less: "unat (b :: byte) < 256"
  using unsigned_less [of b, where ?'a = nat] by simp

lemma b64_byte_unat [simp]: "b64_byte (unat b) = b"
  using unat_byte_less [of b] by (simp add: b64_byte_def)

lemma sixbits:
  "x mod 4 * 16 < (64 :: nat)" "x mod 16 * 4 < (64 :: nat)" "x mod 64 < (64 :: nat)"
  "x < 256 \<Longrightarrow> x div 4 < (64 :: nat)"
  "y < 256 \<Longrightarrow> x mod 4 * 16 + y div 16 < (64 :: nat)"
  "y < 256 \<Longrightarrow> x mod 16 * 4 + y div 64 < (64 :: nat)"
  by simp_all

lemma regroup:
  "y < 256 \<Longrightarrow> (k * 16 + y div 16) div 16 = (k :: nat)"
  "y < 256 \<Longrightarrow> (k * 16 + y div 16) mod 16 = (y :: nat) div 16"
  "y < 256 \<Longrightarrow> (k * 4 + y div 64) div 4 = (k :: nat)"
  "y < 256 \<Longrightarrow> (k * 4 + y div 64) mod 4 = (y :: nat) div 64"
  "y < 256 \<Longrightarrow> (y :: nat) div 16 div 16 = 0" "y < 256 \<Longrightarrow> (y :: nat) div 16 mod 16 = y div 16"
  "y < 256 \<Longrightarrow> (y :: nat) div 64 div 4 = 0" "y < 256 \<Longrightarrow> (y :: nat) div 64 mod 4 = y div 64"
  by (simp_all add: div_mult2_eq [symmetric] mod_mult_self3)

lemma b64_encode_plain:
  "alphabet_ok al \<Longrightarrow> c \<in> set (b64_encode al pad bs) \<Longrightarrow> c \<noteq> CHR 0x0A \<and> c \<noteq> CHR 0x0D"
  by (induction al pad bs rule: b64_encode.induct) (auto simp: nth_plain sixbits unat_byte_less split: if_splits)

lemmas b64_digits = b64_digit_nth sixbits regroup unat_byte_less div_mult_mod_eq

lemma b64_quads_encode: "alphabet_ok al \<Longrightarrow> b64_quads al pad (b64_encode al pad bs) = Some bs"
proof (induction al pad bs rule: b64_encode.induct)
  case (2 al pad a)
  then show ?case by (simp add: b64_two_def b64_digits)
next
  case (3 al pad a b)
  then show ?case
    using nth_plain [OF 3 sixbits(2) [of "unat b"]] by (simp add: b64_three_def b64_digits)
next
  case (4 al pad a b c rest)
  then show ?case
    using nth_plain [OF 4(2) sixbits(3) [of "unat c"]] by (simp add: b64_four_def b64_digits)
qed simp

lemma b64_round_trip: "alphabet_ok al \<Longrightarrow> b64_decode al pad (b64_encode al pad bs) = Some bs"
  by (simp add: b64_decode_def b64_quads_encode filter_id_conv b64_encode_plain)

end
