(* ===== verification/CtrSystem.thy ===== *)
theory CtrSystem
  imports CtrSync Base64
begin

text \<open>
  Searches as they arrive (\<open>parseCTRSearch\<close>) and the matchmaker as a state machine: a
  connection issues a search (the id is taken then, and the reply to the request is sent),
  the search is enqueued later, after the reply, and any operation of any connection may come
  in between. All operations hold \<open>m.mu\<close>, so an execution is a sequence of whole operations.
\<close>

subsection \<open>parseCTRSearch\<close>

text \<open>
  The two documents after \<open>json.Unmarshal\<close>. \<open>sd_filter\<close> is the filter object with its raw
  values, and \<open>marshal\<close> stands for \<open>json.Marshal\<close> on it.
\<close>

record searchDoc =
  sd_members :: "u64 list"
  sd_min :: int
  sd_max :: int
  sd_filter :: "(string \<times> string) list"

record playerInfo =
  pi_address :: string
  pi_id :: string
  pi_key :: string

text \<open>The loop over the members: \<open>None\<close> on a zero or repeated id, else whether the leader is there.\<close>

fun member_scan :: "u64 \<Rightarrow> u64 list \<Rightarrow> u64 set \<Rightarrow> bool \<Rightarrow> bool option" where
  "member_scan me [] seen leader = Some leader"
| "member_scan me (p # ps) seen leader =
     (if p = 0 \<or> p \<in> seen then None
      else member_scan me ps (insert p seen) (leader \<or> p = me))"

text \<open>
  The loop ranges over the map \<open>{address: 67, id: 8, key: 16}\<close>, keyed by the encoded string: of
  two equal strings the later entry stays.
\<close>

definition endpoint_sizes :: "playerInfo \<Rightarrow> string \<Rightarrow> nat option" where
  "endpoint_sizes p = [pi_address p \<mapsto> 67, pi_id p \<mapsto> 8, pi_key p \<mapsto> 16]"

definition endpoint_ok :: "playerInfo \<Rightarrow> bool" where
  "endpoint_ok p \<longleftrightarrow>
     list_all (\<lambda>e. case std_decode e of
                     None \<Rightarrow> False | Some b \<Rightarrow> endpoint_sizes p e = Some (length b))
       [pi_address p, pi_id p, pi_key p]"

definition parse_search ::
    "((string \<times> string) list \<Rightarrow> string) \<Rightarrow> conn \<Rightarrow> u64 \<Rightarrow> searchDoc option \<Rightarrow>
     playerInfo option \<Rightarrow> nat \<Rightarrow> ctrSearch option" where
  "parse_search marshal c pid doc info next =
     (case doc of
        None \<Rightarrow> None
      | Some d \<Rightarrow>
          if pid = 0 \<or> length (sd_members d) < 1 \<or> length (sd_members d) > 8 \<or> sd_min d < 1 \<or>
             sd_max d < sd_min d \<or> sd_max d > 8 \<or> sd_filter d = []
          then None
          else
            (case member_scan pid (sd_members d) {} False of
               None \<Rightarrow> None
             | Some leader \<Rightarrow>
                 if \<not> leader \<or> int (length (sd_members d)) > sd_max d then None
                 else
                   (case info of
                      None \<Rightarrow> None
                    | Some p \<Rightarrow>
                        if \<not> endpoint_ok p then None
                        else Some
                          \<lparr>sr_conn = c, sr_id = next + 1, sr_pid = pid,
                           sr_members = sd_members d, sr_min = nat (sd_min d),
                           sr_max = nat (sd_max d), sr_rules = sd_filter d,
                           sr_address = pi_address p, sr_secid = pi_id p,
                           sr_seckey = pi_key p, sr_filter = marshal (sd_filter d),
                           sr_seats = length (sd_members d)\<rparr>)))"

lemma member_scan_spec:
  "member_scan me ps seen leader =
     (if 0 \<in> set ps \<or> \<not> distinct ps \<or> set ps \<inter> seen \<noteq> {} then None
      else Some (leader \<or> me \<in> set ps))"
  by (induction ps arbitrary: seen leader) auto

text \<open>What an accepted search satisfies.\<close>

definition search_valid :: "ctrSearch \<Rightarrow> bool" where
  "search_valid s \<longleftrightarrow>
     leader_ok s \<and> distinct (sr_members s) \<and> 0 \<notin> set (sr_members s) \<and> sr_pid s \<noteq> 0 \<and>
     1 \<le> sr_min s \<and> sr_min s \<le> sr_max s \<and> sr_max s \<le> 8 \<and> sr_seats s \<le> sr_max s"

lemma parse_search_valid:
  assumes "parse_search marshal c pid doc info next = Some s"
  shows "search_valid s" and "sr_id s = next + 1" and "sr_conn s = c" and "sr_pid s = pid"
  using assms
  by (auto simp: parse_search_def search_valid_def leader_ok_def search_ok_def member_scan_spec
      split: option.splits if_splits)

subsection \<open>The matchmaker as a state machine\<close>

record ctrWorld =
  cw_mm :: ctrMatchmaker
  cw_pending :: "ctrSearch list"

definition ctr_init :: "ctrWorld \<Rightarrow> bool" where
  "ctr_init w \<longleftrightarrow> w = \<lparr>cw_mm = empty_mm, cw_pending = []\<rparr>"

text \<open>
  \<open>ctrIDs.Add\<close> happens when the search is parsed; \<open>l.afterReply\<close> enqueues it once the reply was
  sent. Connections interleave freely in between.
\<close>

inductive ctr_step ::
    "((string \<times> string) list \<Rightarrow> string) \<Rightarrow> ctrWorld \<Rightarrow> ctrWorld \<Rightarrow> bool"
  for marshal :: "(string \<times> string) list \<Rightarrow> string" where
  issue: "parse_search marshal c pid doc info (mm_next (cw_mm w)) = Some s \<Longrightarrow>
    ctr_step marshal w
      (w\<lparr>cw_mm := (cw_mm w)\<lparr>mm_next := sr_id s\<rparr>, cw_pending := cw_pending w @ [s]\<rparr>)"
| enq: "s \<in> set (cw_pending w) \<Longrightarrow>
    ctr_step marshal w
      (w\<lparr>cw_mm := fst (enqueue now s (cw_mm w)), cw_pending := remove1 s (cw_pending w)\<rparr>)"
| cancel: "ctr_step marshal w (w\<lparr>cw_mm := fst (cancel c i (cw_mm w))\<rparr>)"
| leave: "ctr_step marshal w (w\<lparr>cw_mm := leave c i (cw_mm w)\<rparr>)"
| sync: "ctr_step marshal w (w\<lparr>cw_mm := fst (syncDoc now c i version doc (cw_mm w))\<rparr>)"

definition world_ids :: "ctrWorld \<Rightarrow> nat multiset" where
  "world_ids w = search_keys sr_id (cw_mm w) + image_mset sr_id (mset (cw_pending w))"

definition ctr_world_inv :: "ctrWorld \<Rightarrow> bool" where
  "ctr_world_inv w \<longleftrightarrow>
     mm_inv (cw_mm w) \<and> list_all search_valid (cw_pending w) \<and> single (world_ids w) \<and>
     (\<forall>k. k \<in># world_ids w \<longrightarrow> k \<le> mm_next (cw_mm w))"

lemma next_upd [simp]:
  "search_keys f (m\<lparr>mm_next := n\<rparr>) = search_keys f m"
  "the_room (m\<lparr>mm_next := n\<rparr>) i = the_room m i"
  "merge_ok (m\<lparr>mm_next := n\<rparr>) r = merge_ok m r"
  by (simp_all add: search_keys_def the_room_def merge_ok_def)

lemma next_upd_inv: "mm_inv m \<Longrightarrow> mm_next m \<le> n \<Longrightarrow> mm_inv (m\<lparr>mm_next := n\<rparr>)"
  by (auto simp: mm_inv_but_def heap_ids_def intro: order_trans)

text \<open>An operation that only loses searches keeps the invariant of the world.\<close>

lemma world_inv_shrink:
  assumes "ctr_world_inv w" and "mm_inv m'" and "mm_next (cw_mm w) \<le> mm_next m'"
    and "search_keys sr_id m' \<subseteq># search_keys sr_id (cw_mm w)"
  shows "ctr_world_inv (w\<lparr>cw_mm := m'\<rparr>)"
proof -
  have sub: "world_ids (w\<lparr>cw_mm := m'\<rparr>) \<subseteq># world_ids w"
    using assms(4) by (simp add: world_ids_def)
  then have "single (world_ids (w\<lparr>cw_mm := m'\<rparr>))"
    using assms(1) single_mono by (auto simp: ctr_world_inv_def)
  moreover have "k \<le> mm_next m'" if "k \<in># world_ids (w\<lparr>cw_mm := m'\<rparr>)" for k
    using mset_subset_eqD [OF sub that] assms(1,3) by (force simp: ctr_world_inv_def)
  ultimately show ?thesis
    using assms(1,2) by (simp add: ctr_world_inv_def)
qed

lemma world_inv_mm_shrink:
  assumes w: "ctr_world_inv w" and sh: "mm_shrink (cw_mm w) m'"
  shows "ctr_world_inv (w\<lparr>cw_mm := m'\<rparr>)"
proof -
  have m: "mm_inv (cw_mm w)" using w by (simp add: ctr_world_inv_def)
  have "mm_next m' = mm_next (cw_mm w)" using sh by (simp add: mm_shrink_def)
  then show ?thesis
    by (intro world_inv_shrink [OF w mm_shrink_inv [OF sh m]]
        mm_shrink_keys [OF sh mm_inv_heap [OF m]]) simp
qed

lemma single_union_disjoint: "single (M + N) \<Longrightarrow> k \<in># N \<Longrightarrow> k \<notin># M"
proof -
  assume "single (M + N)" and "k \<in># N"
  then have "count M k + count N k \<le> 1" and "1 \<le> count N k"
    by (simp_all add: single_def Suc_le_eq)
  then have "count M k = 0" by linarith
  then show ?thesis by (simp add: count_eq_zero_iff)
qed

lemma enqueue_next: "mm_next m \<le> mm_next (fst (enqueue now s m))"
proof (cases rule: enqueue_cases [of now s m])
  case (joined m1 out)
  then show ?thesis using enq_scan_frame [OF joined(1)] by (simp add: enq_evict_def)
next
  case (queued m1)
  have "mm_next m1 \<le> mm_next (fst (enq_group now s m1))"
    by (auto simp: enq_group_def Let_def split: prod.splits)
  then show ?thesis using queued enq_scan_frame [OF queued(1)] by (simp add: enq_evict_def)
qed

lemma pending_arriving:
  assumes inv: "ctr_world_inv w" and s: "s \<in> set (cw_pending w)"
  shows "arriving s (cw_mm w)"
proof -
  have "sr_id s \<notin># search_keys sr_id (cw_mm w)"
    using inv s by (intro single_union_disjoint [of _ "image_mset sr_id (mset (cw_pending w))"])
      (auto simp: ctr_world_inv_def world_ids_def)
  moreover have "search_valid s" using inv s by (auto simp: ctr_world_inv_def list_all_iff)
  ultimately show ?thesis by (simp add: arriving_def search_valid_def)
qed

lemma enqueue_world_inv:
  assumes inv: "ctr_world_inv w" and s: "s \<in> set (cw_pending w)"
  shows "ctr_world_inv (w\<lparr>cw_mm := fst (enqueue now s (cw_mm w)), cw_pending := remove1 s (cw_pending w)\<rparr>)"
    (is "ctr_world_inv ?w'")
proof -
  let ?m = "cw_mm w" and ?rest = "image_mset sr_id (mset (remove1 s (cw_pending w)))"
  have ids: "image_mset sr_id (mset (cw_pending w)) = add_mset (sr_id s) ?rest"
    using s by (simp flip: image_mset_add_mset)
  have arr: "arriving s ?m" by (rule pending_arriving [OF inv s])
  have minv: "mm_inv ?m" using inv by (simp add: ctr_world_inv_def)
  have "search_keys sr_id (enq_evict s ?m) \<subseteq># search_keys sr_id ?m"
    using mm_shrink_keys [OF enq_evict_shrink] mm_inv_heap [OF minv] by blast
  then have sub: "world_ids ?w' \<subseteq># world_ids w"
    by (simp add: world_ids_def enqueue_search_keys [OF minv arr] ids)
  have "single (world_ids ?w')"
    using inv single_mono [OF sub] by (simp add: ctr_world_inv_def)
  moreover have "k \<le> mm_next (cw_mm ?w')" if "k \<in># world_ids ?w'" for k
    using mset_subset_eqD [OF sub that] inv enqueue_next [of ?m now s]
    by (force simp: ctr_world_inv_def)
  moreover have "list_all search_valid (cw_pending ?w')"
    using inv by (auto simp: ctr_world_inv_def list_all_iff dest: notin_set_remove1)
  ultimately show ?thesis
    using enqueue_keeps_inv [OF minv arr] by (simp add: ctr_world_inv_def)
qed

lemma ctr_init_inv: "ctr_init w \<Longrightarrow> ctr_world_inv w"
  by (simp add: ctr_init_def ctr_world_inv_def world_ids_def empty_mm_def mm_inv_but_def
      heap_ids_def search_keys_def single_def)

lemma issue_world_inv:
  assumes inv: "ctr_world_inv w" and p: "parse_search marshal c pid doc info (mm_next (cw_mm w)) = Some s"
  shows "ctr_world_inv (w\<lparr>cw_mm := (cw_mm w)\<lparr>mm_next := sr_id s\<rparr>, cw_pending := cw_pending w @ [s]\<rparr>)"
    (is "ctr_world_inv ?w'")
proof -
  note v = parse_search_valid [OF p]
  have ids: "world_ids ?w' = add_mset (sr_id s) (world_ids w)" by (simp add: world_ids_def)
  have "sr_id s \<notin># world_ids w" using inv v(2) by (auto simp: ctr_world_inv_def)
  then show ?thesis
    using inv v next_upd_inv [of "cw_mm w" "sr_id s"] unfolding ctr_world_inv_def ids
    by (auto simp: single_add intro: order_trans)
qed

lemma ctr_step_inv: "ctr_world_inv w \<Longrightarrow> ctr_step marshal w w' \<Longrightarrow> ctr_world_inv w'"
proof (erule ctr_step.cases, goal_cases)
  case (1 c pid doc info w s)
  then show ?case using issue_world_inv by simp
next
  case (2 s w now)
  then show ?case using enqueue_world_inv by simp
next
  case (3 w c i)
  then show ?case using world_inv_mm_shrink [OF _ cancel_shrink] by simp
next
  case (4 w c i)
  then have "heap_ids (cw_mm w)" by (auto simp: ctr_world_inv_def dest: mm_inv_heap)
  with 4 show ?case using world_inv_mm_shrink [OF _ leave_shrink] by simp
next
  case (5 w now c i version doc)
  then have m: "mm_inv (cw_mm w)" by (simp add: ctr_world_inv_def)
  show ?case
    using 5 world_inv_shrink [of w] syncDoc_keeps_inv [OF m] syncDoc_keys [OF m, of sr_id] by simp
qed

interpretation ctr: invariant_system ctr_init "ctr_step marshal" ctr_world_inv
  for marshal :: "(string \<times> string) list \<Rightarrow> string"
  by unfold_locales (rule ctr_init_inv, assumption, rule ctr_step_inv)

inductive_cases ctr_step_cases: "ctr_step marshal w w'"

end
