(* ===== verification/CtrProps.thy ===== *)
theory CtrProps
  imports CtrSystem
begin

text \<open>
  What the matchmaker guarantees: in every reachable state rooms are not overfilled, a leader is
  in one place, the recursion of \<open>occupancy\<close> is bounded; and what each operation does.
\<close>

subsection \<open>Helper lemmas\<close>

lemma reach_mm_inv: "reach ctr_init (ctr_step marshal) w \<Longrightarrow> mm_inv (cw_mm w)"
  using ctr.reach_inv [of marshal w] by (simp add: ctr_world_inv_def)

lemma live_roomD:
  "live_room m i = Some r \<Longrightarrow> i \<in> set (mm_live m) \<and> mm_heap m i = Some r \<and> the_room m i = r"
  by (auto simp: live_room_def the_room_def split: if_splits)

lemma live_room_the: "mm_inv m \<Longrightarrow> i \<in> set (mm_live m) \<Longrightarrow> live_room m i = Some (the_room m i)"
  using mm_inv_live [of None m i] by (simp add: live_room_def)

text \<open>A source has no source, so occupancy is the two rooms' seats.\<close>

lemma occ_live:
  assumes inv: "mm_inv m" and i: "live_room m i = Some r"
  shows "occ_fuel (Suc (Suc n)) (mm_heap m) r =
    (case rm_mergeSource r of None \<Rightarrow> seats r | Some s \<Rightarrow> seats r + seats (the_room m s))"
proof -
  note lv = live_roomD [OF i]
  have r: "room_inv r" using mm_inv_room [OF inv] lv by fastforce
  show ?thesis
  proof (cases "rm_mergeSource r")
    case None
    then show ?thesis using r by (simp add: own_people_no_failed room_inv_def)
  next
    case (Some s)
    obtain src where src: "mm_heap m s = Some src" "rm_mergeSource src = None"
      using merge_okD [OF mm_inv_merge [OF inv, of i] , of s] lv Some by metis
    have "room_inv src" using mm_inv_room [OF inv src(1)] by simp
    then show ?thesis
      using r Some src by (simp add: own_people_no_failed room_inv_def the_room_def)
  qed
qed

lemma occ_capacity:
  assumes inv: "mm_inv m" and i: "live_room m i = Some r"
  shows "occupancy (mm_heap m) r \<le> rm_capacity r" and "rm_capacity r \<le> 8"
proof -
  note lv = live_roomD [OF i]
  have r: "room_inv r" using mm_inv_room [OF inv] lv by fastforce
  then show "rm_capacity r \<le> 8" by (simp add: room_inv_def room_base_def)
  show "occupancy (mm_heap m) r \<le> rm_capacity r"
  proof (cases "rm_mergeSource r")
    case None
    then show ?thesis using r room_inv_occupancy [OF r None] by (simp add: room_inv_def room_base_def)
  next
    case (Some s)
    obtain src where "mm_heap m s = Some src" "seats r + seats src \<le> rm_capacity r"
      using merge_okD [OF mm_inv_merge [OF inv, of i], of s] lv Some by metis
    then show ?thesis
      using occ_live [OF inv i, of 0] Some by (simp add: occupancy_def numeral_2_eq_2 the_room_def)
  qed
qed

lemma count_sum_le:
  "finite A \<Longrightarrow> i \<in> A \<Longrightarrow> j \<in> A \<Longrightarrow> i \<noteq> j \<Longrightarrow> count (g i) k + count (g j) k \<le> count (sum g A) k"
proof -
  assume A: "finite A" "i \<in> A" "j \<in> A" "i \<noteq> j"
  have "sum g A = g i + (g j + sum g (A - {i} - {j}))"
    using A by (simp add: sum.remove [of A i] sum.remove [of "A - {i}" j])
  then show ?thesis by simp
qed

lemma key_once:
  assumes one: "single (search_keys f m)" and i: "i \<in> set (mm_live m)"
    and p: "p \<in> set (rm_players (the_room m i))"
  shows "\<forall>q \<in> set (mm_waiting m). f q \<noteq> f p"
    and "j \<in> set (mm_live m) \<Longrightarrow> q \<in> set (rm_players (the_room m j)) \<Longrightarrow> f q = f p \<Longrightarrow> j = i \<and> q = p"
proof -
  let ?g = "\<lambda>i. image_mset f (mset (rm_players (the_room m i)))"
  have cnt: "count (image_mset f (mset (mm_waiting m))) (f p) +
      count (\<Sum>i \<in> set (mm_live m). ?g i) (f p) \<le> 1"
    using one [unfolded single_def, rule_format, of "f p"] by (simp add: search_keys_def)
  have pi: "f p \<in># ?g i" using p by auto
  then have "1 \<le> count (?g i) (f p)" by (simp only: Suc_le_eq count_greater_zero_iff One_nat_def)
  moreover have "count (?g i) (f p) \<le> count (\<Sum>i \<in> set (mm_live m). ?g i) (f p)"
    using i by (simp add: sum.remove [of "set (mm_live m)" i])
  ultimately have w: "count (image_mset f (mset (mm_waiting m))) (f p) = 0" using cnt by linarith
  then show "\<forall>q \<in> set (mm_waiting m). f q \<noteq> f p"
    by (auto simp: count_eq_zero_iff image_iff)
  assume j: "j \<in> set (mm_live m)" and q: "q \<in> set (rm_players (the_room m j))" and eq: "f q = f p"
  have "1 \<le> count (?g j) (f p)"
    using q eq by (metis Suc_le_eq One_nat_def count_greater_zero_iff image_eqI set_image_mset set_mset_mset)
  have ij: "j = i"
  proof (rule ccontr)
    assume "j \<noteq> i"
    then have "count (?g i) (f p) + count (?g j) (f p) \<le> count (\<Sum>i \<in> set (mm_live m). ?g i) (f p)"
      using i j by (intro count_sum_le) auto
    then show False
      using \<open>1 \<le> count (?g i) (f p)\<close> \<open>1 \<le> count (?g j) (f p)\<close> cnt by linarith
  qed
  have "distinct (map f (rm_players (the_room m i)))" by (rule single_room_distinct [OF one i])
  then show "j = i \<and> q = p" using q p eq ij by (auto simp: distinct_map inj_on_def)
qed

subsection \<open>A run\<close>

text \<open>Two players search with the same filter; the second search makes a lobby of both.\<close>

definition ex_info :: "byte \<Rightarrow> playerInfo" where
  "ex_info b = \<lparr>pi_address = std_encode (replicate 67 b), pi_id = std_encode (replicate 8 b),
               pi_key = std_encode (replicate 16 b)\<rparr>"

definition ex_doc :: "u64 \<Rightarrow> searchDoc" where
  "ex_doc pid = \<lparr>sd_members = [pid], sd_min = 2, sd_max = 8, sd_filter = [(''mode'', ''1'')]\<rparr>"

definition ex_search :: "conn \<Rightarrow> u64 \<Rightarrow> nat \<Rightarrow> ctrSearch" where
  "ex_search c pid k =
     \<lparr>sr_conn = c, sr_id = k, sr_pid = pid, sr_members = [pid], sr_min = 2, sr_max = 8,
      sr_rules = [(''mode'', ''1'')], sr_address = pi_address (ex_info 7),
      sr_secid = pi_id (ex_info 7), sr_seckey = pi_key (ex_info 7), sr_filter = ''mode'',
      sr_seats = 1\<rparr>"

definition ex_marshal :: "(string \<times> string) list \<Rightarrow> string" where
  "ex_marshal kv = concat (map fst kv)"

lemma ex_info_ok: "endpoint_ok (ex_info 7)"
  by code_simp

lemma ex_parse:
  assumes "pid \<noteq> 0"
  shows "parse_search ex_marshal c pid (Some (ex_doc pid)) (Some (ex_info 7)) k =
    Some (ex_search c pid (k + 1))"
  using assms
  by (simp add: parse_search_def ex_doc_def ex_search_def ex_info_ok ex_marshal_def)

definition ex_mm1 :: ctrMatchmaker where
  "ex_mm1 = empty_mm\<lparr>mm_next := 2\<rparr>"

definition ex_mm2 :: ctrMatchmaker where
  "ex_mm2 = fst (enqueue 0 (ex_search 1 11 1) ex_mm1)"

definition ex_mm3 :: ctrMatchmaker where
  "ex_mm3 = fst (enqueue 0 (ex_search 2 22 2) ex_mm2)"

lemma ex_run:
  "reach ctr_init (ctr_step ex_marshal)
     \<lparr>cw_mm = ex_mm1, cw_pending = [ex_search 1 11 1, ex_search 2 22 2]\<rparr>" (is ?A)
  "reach ctr_init (ctr_step ex_marshal) \<lparr>cw_mm = ex_mm2, cw_pending = [ex_search 2 22 2]\<rparr>" (is ?B)
  "reach ctr_init (ctr_step ex_marshal) \<lparr>cw_mm = ex_mm3, cw_pending = []\<rparr>" (is ?C)
proof -
  let ?w0 = "\<lparr>cw_mm = empty_mm, cw_pending = []\<rparr>"
  let ?w1 = "\<lparr>cw_mm = empty_mm\<lparr>mm_next := 1\<rparr>, cw_pending = [ex_search 1 11 1]\<rparr>"
  have r0: "reach ctr_init (ctr_step ex_marshal) ?w0"
    by (rule reach_init) (simp add: ctr_init_def)
  have "ctr_step ex_marshal ?w0 ?w1"
    using issue [OF ex_parse [of 11 1 "mm_next (cw_mm ?w0)"]]
    by (simp add: empty_mm_def ex_search_def)
  with r0 have r1: "reach ctr_init (ctr_step ex_marshal) ?w1" by (rule reach_step)
  have p2: "parse_search ex_marshal 2 22 (Some (ex_doc 22)) (Some (ex_info 7)) (mm_next (cw_mm ?w1)) =
      Some (ex_search 2 22 2)"
    using ex_parse [of 22 2 1] by (simp only: one_add_one) simp
  have "ctr_step ex_marshal ?w1
      \<lparr>cw_mm = ex_mm1, cw_pending = [ex_search 1 11 1, ex_search 2 22 2]\<rparr>"
    using issue [OF p2] by (simp add: empty_mm_def ex_search_def ex_mm1_def)
  with r1 show a: ?A by (rule reach_step)
  have "ctr_step ex_marshal \<lparr>cw_mm = ex_mm1, cw_pending = [ex_search 1 11 1, ex_search 2 22 2]\<rparr>
      \<lparr>cw_mm = ex_mm2, cw_pending = [ex_search 2 22 2]\<rparr>"
    using enq [of "ex_search 1 11 1"
        "\<lparr>cw_mm = ex_mm1, cw_pending = [ex_search 1 11 1, ex_search 2 22 2]\<rparr>" ex_marshal 0]
    by (simp add: ex_mm2_def)
  with a show b: ?B by (rule reach_step)
  have "ctr_step ex_marshal \<lparr>cw_mm = ex_mm2, cw_pending = [ex_search 2 22 2]\<rparr>
      \<lparr>cw_mm = ex_mm3, cw_pending = []\<rparr>"
    using enq [of "ex_search 2 22 2" "\<lparr>cw_mm = ex_mm2, cw_pending = [ex_search 2 22 2]\<rparr>" ex_marshal 0]
    by (simp add: ex_mm3_def)
  with b show ?C by (rule reach_step)
qed

lemma ex_room:
  "live_room ex_mm3 3 =
     Some (new_room 3 0 [ex_search 1 11 1, ex_search 2 22 2] 8)"
  by (simp add: ex_mm3_def ex_mm2_def ex_mm1_def empty_mm_def enqueue_def enq_evict_def rank_rooms_def
      enq_group_def live_room_def put_room_def ex_search_def Let_def)

subsection \<open>Reachable states\<close>

text \<open>C1: In every reachable state of the matchmaker, whatever the interleaving of searches,
  cancellations, departures and host syncs, the people of a lobby together with those reserved
  for a pending merge fit the lobby's capacity, and no capacity exceeds the eight seats of the
  game.\<close>

theorem ctr_rooms_never_overfilled:
  assumes "reach ctr_init (ctr_step marshal) w" and "live_room (cw_mm w) i = Some r"
  shows "occupancy (mm_heap (cw_mm w)) r \<le> rm_capacity r \<and> rm_capacity r \<le> 8"
  using occ_capacity [OF reach_mm_inv [OF assms(1)] assms(2)] by simp

lemma ctr_rooms_never_overfilled_witness:
  "occupancy (mm_heap ex_mm3) (new_room 3 0 [ex_search 1 11 1, ex_search 2 22 2] 8) \<le> 8"
  using ctr_rooms_never_overfilled [OF ex_run(3), of 3] ex_room by simp

text \<open>C2: In every reachable state a leader who is in a lobby is in that lobby only, once, and
  not in the waiting list.\<close>

theorem ctr_leader_in_one_place:
  assumes "reach ctr_init (ctr_step marshal) w" and "live_room (cw_mm w) i = Some r"
    and "p \<in> set (rm_players r)"
  shows "(\<forall>q \<in> set (mm_waiting (cw_mm w)). sr_pid q \<noteq> sr_pid p) \<and>
    (\<forall>j r' q. live_room (cw_mm w) j = Some r' \<longrightarrow> q \<in> set (rm_players r') \<longrightarrow>
       sr_pid q = sr_pid p \<longrightarrow> j = i \<and> q = p)"
  using key_once [OF mm_inv_single(2) [OF reach_mm_inv [OF assms(1)]]] live_roomD assms(2,3)
  by metis

lemma ctr_leader_in_one_place_witness:
  "11 \<notin> sr_pid ` set (mm_waiting ex_mm3)"
proof -
  have l: "live_room (cw_mm \<lparr>cw_mm = ex_mm3, cw_pending = []\<rparr>) 3 =
      Some (new_room 3 0 [ex_search 1 11 1, ex_search 2 22 2] 8)"
    by (simp add: ex_room)
  show ?thesis
    using ctr_leader_in_one_place [OF ex_run(3) l, of "ex_search 1 11 1"]
    by (auto simp: ex_search_def)
qed

text \<open>C3: In every reachable state the recursion of \<open>occupancy\<close> along \<open>mergeSource\<close> ends after
  two rooms: more fuel gives the same result.\<close>

theorem ctr_occupancy_terminates:
  assumes "reach ctr_init (ctr_step marshal) w" and "live_room (cw_mm w) i = Some r"
  shows "occ_fuel (2 + n) (mm_heap (cw_mm w)) r = occupancy (mm_heap (cw_mm w)) r"
  using occ_live [OF reach_mm_inv [OF assms(1)] assms(2)]
  by (simp add: occupancy_def numeral_2_eq_2)

lemma ctr_occupancy_terminates_witness:
  "occ_fuel 7 (mm_heap ex_mm3) (new_room 3 0 [ex_search 1 11 1, ex_search 2 22 2] 8) =
   occupancy (mm_heap ex_mm3) (new_room 3 0 [ex_search 1 11 1, ex_search 2 22 2] 8)"
  using ctr_occupancy_terminates [OF ex_run(3), of 3 _ 5] ex_room by simp

subsection \<open>enqueue\<close>

text \<open>
  When a lobby has room for a search, said without the code's function: it takes no part in a
  merge, its host keeps it open, it was made for the same filter, and with the people of the
  search it exceeds neither its own capacity nor what the search allows.
\<close>

definition has_room_for :: "(nat \<Rightarrow> ctrRoom option) \<Rightarrow> ctrSearch \<Rightarrow> ctrRoom \<Rightarrow> bool" where
  "has_room_for h s r \<longleftrightarrow>
     rm_mergeTarget r = 0 \<and> rm_mergeSource r = None \<and> lobby_open (rm_hostDoc r) \<and>
     sr_filter (rm_host r) = sr_filter s \<and>
     occupancy h r + sr_seats s \<le> min (rm_capacity r) (sr_max s)"

lemma candidate_has_room:
  "candidate_reason m s r = Selected \<longleftrightarrow> has_room_for (mm_heap m) s r"
  by (auto simp: candidate_reason_def has_room_for_def Let_def)

lemma occupancy_no_source: "rm_mergeSource r = None \<Longrightarrow> occupancy h r = occupancy h' r"
  by (simp add: occupancy_def numeral_2_eq_2)

lemma has_room_for_heap: "has_room_for h s r \<longleftrightarrow> has_room_for h' s r"
  using occupancy_no_source [of r h h'] by (auto simp: has_room_for_def)

lemma lobby_open_clear [simp]: "lobby_open (clear_states pids d) = lobby_open d"
  by (auto simp: lobby_open_def clear_states_def split: option.splits goval.splits)

text \<open>The lobby that took a search.\<close>

definition seated_in :: "ctrMatchmaker \<Rightarrow> ctrSearch \<Rightarrow> ctrRoom \<Rightarrow> bool" where
  "seated_in m s r \<longleftrightarrow>
     s \<in> set (rm_players r) \<and> rm_mergeTarget r = 0 \<and> rm_mergeSource r = None \<and>
     lobby_open (rm_hostDoc r) \<and> sr_filter (rm_host r) = sr_filter s \<and>
     occupancy (mm_heap m) r \<le> min (rm_capacity r) (sr_max s)"

lemma join_seated_in:
  fixes now :: int
  assumes inv: "mm_inv m" and i: "i \<in> set (mm_live m)" and new: "fresh_search s m"
    and room: "has_room_for (mm_heap m) s (the_room m i)"
  defines "r' \<equiv> join_room now s (the_room m i)"
  shows "live_room (put_room r' m) i = Some r' \<and> seated_in (put_room r' m) s r'"
proof -
  let ?r = "the_room m i"
  have live: "mm_heap m i = Some ?r" "rm_id ?r = i" using mm_inv_live [OF inv i] by auto
  have sel: "candidate_reason m s ?r = Selected" using room by (simp add: candidate_has_room)
  have inv': "mm_inv (put_room r' m)" unfolding r'_def by (rule join_inv [OF inv i new sel])
  have lr: "live_room (put_room r' m) i = Some r'"
    using i live by (simp add: live_room_def put_room_def r'_def join_room_def)
  have none: "rm_mergeSource ?r = None" using room by (simp add: has_room_for_def)
  have "room_inv ?r" using mm_inv_room [OF inv live(1)] by simp
  then have occ: "occupancy (mm_heap m) ?r = seats ?r" using none by (rule room_inv_occupancy)
  have ok: "search_ok s" using new by (simp add: fresh_search_def leader_ok_def)
  have "seats r' = seats ?r + sr_seats s"
    using ok by (simp add: r'_def join_room_def seats_def room_people_def search_ok_def)
  moreover have "occupancy (mm_heap (put_room r' m)) r' = seats r'"
    using occ_live [OF inv' lr, of 0] none
    by (simp add: occupancy_def numeral_2_eq_2 r'_def join_room_def)
  ultimately show ?thesis
    using room lr occ by (auto simp: seated_in_def has_room_for_def r'_def join_room_def)
qed

lemma enq_scan_joined:
  "enq_scan now s is m = (m', Some out) \<Longrightarrow> mm_inv m \<Longrightarrow> set is \<subseteq> set (mm_live m) \<Longrightarrow>
   fresh_search s m \<Longrightarrow> \<exists>i r. live_room m' i = Some r \<and> seated_in m' s r"
proof (induction "is" arbitrary: m)
  case (Cons i "is")
  let ?m = "reset_target i m"
  have i: "i \<in> set (mm_live m)" using Cons.prems by simp
  have inv: "mm_inv ?m" by (rule reset_target_inv [OF Cons.prems(2) i])
  have new: "fresh_search s ?m" using fresh_reset [OF Cons.prems(2) i] Cons.prems by simp
  show ?case
  proof (cases "candidate_reason ?m s (the_room ?m i) = Selected")
    case True
    then show ?thesis
      using Cons.prems(1) join_seated_in [OF inv _ new, of i now] i
      by (auto simp: Let_def candidate_has_room)
  next
    case False
    then show ?thesis
      using Cons.IH [OF _ inv _ new] Cons.prems by (auto simp: Let_def)
  qed
qed simp

text \<open>A scan that seats the search nowhere has left no lobby with room for it.\<close>

lemma enq_scan_rejected:
  "enq_scan now s is m = (m', None) \<Longrightarrow> mm_inv m \<Longrightarrow> set is \<subseteq> set (mm_live m) \<Longrightarrow> distinct is \<Longrightarrow>
   (\<forall>i \<in> set is. \<not> has_room_for (mm_heap m') s (the_room m' i)) \<and>
   (\<forall>j. j \<notin> set is \<longrightarrow> the_room m' j = the_room m j)"
proof (induction "is" arbitrary: m)
  case (Cons i "is")
  let ?m = "reset_target i m"
  have i: "i \<in> set (mm_live m)" using Cons.prems by simp
  have inv: "mm_inv ?m" by (rule reset_target_inv [OF Cons.prems(2) i])
  have no: "\<not> has_room_for (mm_heap ?m) s (the_room ?m i)" and rest: "enq_scan now s is ?m = (m', None)"
    using Cons.prems(1) by (auto simp: Let_def candidate_has_room split: if_splits)
  have ih: "\<forall>i \<in> set is. \<not> has_room_for (mm_heap m') s (the_room m' i)"
      "\<And>j. j \<notin> set is \<Longrightarrow> the_room m' j = the_room ?m j"
    using Cons.IH [OF rest inv] Cons.prems by auto
  have "\<not> has_room_for (mm_heap m') s (the_room m' i)"
    using no ih(2) [of i] Cons.prems(4) has_room_for_heap [of "mm_heap m'" s _ "mm_heap ?m"] by auto
  moreover have "the_room m' j = the_room m j" if "j \<notin> set (i # is)" for j
    using that ih(2) [of j] reset_target_room [OF mm_inv_heap [OF Cons.prems(2)] i, of j] by auto
  ultimately show ?case using ih(1) by simp
qed simp

lemma new_room_open: "lobby_open (rm_hostDoc (new_room rid now grp mx))"
  by (simp add: lobby_open_def new_room_def new_hostDoc_def Let_def)

text \<open>
  The lobby \<open>enq_group\<close> makes: its searches come from the waiting list and the new search, are
  of one filter, and its people lie within the limits of each of them.
\<close>

definition lobby_fits_all :: "ctrSearch \<Rightarrow> ctrMatchmaker \<Rightarrow> ctrRoom \<Rightarrow> bool" where
  "lobby_fits_all s m r \<longleftrightarrow>
     (let n = sum_list (map sr_seats (rm_players r)) in
      2 \<le> n \<and> n \<le> 8 \<and> rm_host r \<in> set (rm_players r) \<and>
      set (rm_players r) \<subseteq> insert s (set (mm_waiting m)) \<and>
      (\<forall>p \<in> set (rm_players r). sr_filter p = sr_filter s \<and> sr_min p \<le> n \<and> n \<le> sr_max p))"

lemma enq_group_lobby:
  assumes inv: "mm_inv m" and new: "fresh_search s m"
  shows "fst (enq_group now s m) = m\<lparr>mm_waiting := mm_waiting m @ [s]\<rparr> \<or>
    (\<exists>r. fst (enq_group now s m) =
        (put_room r m)\<lparr>mm_live := mm_live m @ [mm_next m + 1], mm_next := mm_next m + 1,
           mm_waiting := filter (\<lambda>p. sr_id p \<notin> sr_id ` set (rm_players r)) (mm_waiting m @ [s])\<rparr> \<and>
      rm_id r = mm_next m + 1 \<and> room_inv r \<and> lobby_fits_all s m r \<and>
      lobby_open (rm_hostDoc r) \<and> rm_mergeTarget r = 0 \<and> rm_mergeSource r = None \<and>
      sum_list (map sr_seats (rm_players r)) = occupancy (mm_heap m) r)"
proof -
  obtain grp n mn mx where
    g: "group_loop (sr_filter s) (mm_waiting m @ [s]) ([], 0, 2, 8) = (grp, n, mn, mx)"
    by (metis prod_cases4)
  show ?thesis
  proof (cases "n < mn")
    case True
    then show ?thesis by (simp add: enq_group_wait [OF g])
  next
    case False
    let ?r = "new_room (mm_next m + 1) now grp mx"
    note facts = enq_group_facts [OF g waiting_distinct [OF inv new]]
    have "list_all leader_ok (mm_waiting m @ [s])"
      using inv new by (simp add: mm_inv_but_def fresh_search_def)
    then have ld: "list_all leader_ok grp" using facts(2) by (auto simp: list_all_iff)
    have ne: "grp \<noteq> []" using facts(1) False by auto
    have ri: "room_inv ?r" using new_room_inv [OF facts(1) _ ld] False by simp
    have "list_all search_ok grp" using ld by (auto simp: list_all_iff leader_ok_def)
    then have "sum_list (map sr_seats grp) = occupancy (mm_heap m) ?r"
      using room_inv_occupancy [OF ri, of "mm_heap m"] seats_sum [of grp]
      by (simp add: seats_def room_people_def)
    moreover have "lobby_fits_all s m ?r"
      using facts(1,2) False ne by (auto simp: lobby_fits_all_def list_all_iff Let_def)
    ultimately show ?thesis
      using enq_group_room [OF g, of now] False ri new_room_open [of "mm_next m + 1" now grp mx]
      by (intro disjI2 exI [of _ ?r]) simp
  qed
qed


text \<open>What a whole \<open>enqueue\<close> does: it joins a lobby, or no lobby had room.\<close>

lemma enqueue_outcome:
  assumes m: "mm_inv m" and arr: "arriving s m"
  obtains (seated) i r where "live_room (fst (enqueue now s m)) i = Some r"
      "seated_in (fst (enqueue now s m)) s r"
      "set (mm_live (fst (enqueue now s m))) \<subseteq> set (mm_live m)"
  | (queued) m1 where "mm_inv m1" "fresh_search s m1" "mm_live m1 = mm_live (enq_evict s m)"
      "mm_waiting m1 = mm_waiting (enq_evict s m)" "mm_next m1 = mm_next m"
      "fst (enqueue now s m) = fst (enq_group now s m1)"
      "\<forall>i \<in> set (mm_live m1). \<not> has_room_for (mm_heap m1) s (the_room m1 i)"
proof -
  note ev = enq_evict_fresh [OF m arr]
  have sub: "set (rank_rooms (enq_evict s m)) \<subseteq> set (mm_live (enq_evict s m))"
    by (simp add: set_rank_rooms)
  have dis: "distinct (rank_rooms (enq_evict s m))"
    using mm_inv_heap [OF ev(1)] by (simp add: rank_rooms_def heap_ids_def)
  show thesis
  proof (cases rule: enqueue_cases [of now s m])
    case (joined m1 out)
    have "mm_live m1 = mm_live (enq_evict s m)" using enq_scan_frame [OF joined(1)] by simp
    then have "set (mm_live m1) \<subseteq> set (mm_live m)" by (auto simp: enq_evict_def)
    then show thesis
      using enq_scan_joined [OF joined(1) ev(1) sub ev(2)] joined(2) seated by auto
  next
    case (queued m1)
    have "\<forall>i \<in> set (mm_live m1). \<not> has_room_for (mm_heap m1) s (the_room m1 i)"
      using enq_scan_rejected [OF queued(1) ev(1) sub dis] enq_scan_frame [OF queued(1)]
      by (simp add: set_rank_rooms)
    then show thesis
      using that(2) [of m1] enq_scan_inv [OF queued(1) ev(1) sub ev(2)]
        enq_scan_fresh [OF queued(1) ev(1) sub ev(2)] enq_scan_frame [OF queued(1)] queued(2)
      by (simp add: enq_evict_def)
  qed
qed

lemma live_room_new:
  fixes k :: nat and w :: "ctrSearch list"
  assumes "mm_inv m" and "rm_id r = mm_next m + 1"
  defines "m' \<equiv> (put_room r m)\<lparr>mm_live := mm_live m @ [mm_next m + 1], mm_next := k, mm_waiting := w\<rparr>"
  shows "live_room m' (mm_next m + 1) = Some r"
    and "i \<in> set (mm_live m) \<Longrightarrow> live_room m' i = Some (the_room m i)"
    and "set (mm_live m') = insert (mm_next m + 1) (set (mm_live m))"
proof -
  have "i \<noteq> mm_next m + 1" if "i \<in> set (mm_live m)"
    using that next_fresh [OF mm_inv_heap [OF assms(1)]] by auto
  then show "i \<in> set (mm_live m) \<Longrightarrow> live_room m' i = Some (the_room m i)"
    using live_room_the [OF assms(1), of i] assms(2)
    by (simp add: live_room_def put_room_def m'_def the_room_def)
  show "live_room m' (mm_next m + 1) = Some r" "set (mm_live m') = insert (mm_next m + 1) (set (mm_live m))"
    using assms(2) by (auto simp: live_room_def put_room_def m'_def)
qed

text \<open>The same, read off the state after \<open>enqueue\<close>.\<close>

lemma enqueue_result:
  assumes m: "mm_inv m" and arr: "arriving s m" and m'_def: "m' = fst (enqueue now s m)"
  obtains (seated) i r where "live_room m' i = Some r" "seated_in m' s r"
      "set (mm_live m') \<subseteq> set (mm_live m)"
  | (waits) "s \<in> set (mm_waiting m')" "set (mm_live m') \<subseteq> set (mm_live m)"
      "\<forall>i r. live_room m' i = Some r \<longrightarrow> \<not> has_room_for (mm_heap m') s r"
  | (made) r where "live_room m' (mm_next m + 1) = Some r" "mm_next m + 1 \<notin> set (mm_live m)"
      "set (mm_live m') \<subseteq> insert (mm_next m + 1) (set (mm_live m))" "lobby_fits_all s m r"
      "s \<in> set (rm_players r) \<and> seated_in m' s r \<or> s \<in> set (mm_waiting m')"
      "set (rm_players r) \<inter> set (mm_waiting m') = {}"
      "sum_list (map sr_seats (rm_players r)) = occupancy (mm_heap m') r"
      "\<forall>i r. i \<noteq> mm_next m + 1 \<longrightarrow> live_room m' i = Some r \<longrightarrow> \<not> has_room_for (mm_heap m') s r"
using m arr proof (cases rule: enqueue_outcome [where now = now])
  case (seated i r)
  then show thesis using that(1) unfolding m'_def by blast
next
  case (queued m1)
  note nxt = next_fresh [OF mm_inv_heap [OF m]]
  have m'_eq: "m' = fst (enq_group now s m1)" by (simp add: m'_def queued(6))
  have inv': "mm_inv m'" unfolding m'_def by (rule enqueue_keeps_inv [OF m arr])
  have sub: "set (mm_live m1) \<subseteq> set (mm_live m)" "set (mm_waiting m1) \<subseteq> set (mm_waiting m)"
    using queued(3,4) by (auto simp: enq_evict_def)
  from enq_group_lobby [OF queued(1,2), of now] show thesis
  proof (elim disjE exE conjE)
    assume "fst (enq_group now s m1) = m1\<lparr>mm_waiting := mm_waiting m1 @ [s]\<rparr>"
    then have eq: "m' = m1\<lparr>mm_waiting := mm_waiting m1 @ [s]\<rparr>" by (simp add: m'_eq)
    have "\<not> has_room_for (mm_heap m') s r" if "live_room m' i = Some r" for i r
      using that queued(7) live_roomD [OF that] by (auto simp: eq)
    then show thesis using that(2) sub by (simp add: eq)
  next
    fix r
    assume eq: "fst (enq_group now s m1) =
        (put_room r m1)\<lparr>mm_live := mm_live m1 @ [mm_next m1 + 1], mm_next := mm_next m1 + 1,
           mm_waiting := filter (\<lambda>p. sr_id p \<notin> sr_id ` set (rm_players r)) (mm_waiting m1 @ [s])\<rparr>"
      and r: "rm_id r = mm_next m1 + 1" "lobby_fits_all s m1 r" "lobby_open (rm_hostDoc r)"
        "rm_mergeTarget r = 0" "rm_mergeSource r = None"
        "sum_list (map sr_seats (rm_players r)) = occupancy (mm_heap m1) r"
    note new = live_room_new [OF queued(1) r(1), where k = "mm_next m1 + 1" and
        w = "filter (\<lambda>p. sr_id p \<notin> sr_id ` set (rm_players r)) (mm_waiting m1 @ [s])",
        folded eq, folded m'_eq, unfolded queued(5)]
    have wait: "mm_waiting m' = filter (\<lambda>p. sr_id p \<notin> sr_id ` set (rm_players r)) (mm_waiting m1 @ [s])"
      by (simp add: m'_eq eq)
    have n: "sum_list (map sr_seats (rm_players r)) = occupancy (mm_heap m') r"
      using r(6) occupancy_no_source [OF r(5), of "mm_heap m1" "mm_heap m'"] by simp
    have fits: "lobby_fits_all s m r" using r(2) sub(2) by (auto simp: lobby_fits_all_def Let_def)
    have "occupancy (mm_heap m') r \<le> rm_capacity r" by (rule occ_capacity(1) [OF inv' new(1)])
    moreover have "sr_filter (rm_host r) = sr_filter s" "occupancy (mm_heap m') r \<le> sr_max s"
      if "s \<in> set (rm_players r)"
      using that fits unfolding lobby_fits_all_def Let_def n by blast+
    ultimately have in_r: "seated_in m' s r" if "s \<in> set (rm_players r)"
      using that r(3-5) by (simp add: seated_in_def)
    have out: "s \<in> set (mm_waiting m')" if "s \<notin> set (rm_players r)"
    proof -
      have "(\<lambda>p. p) s \<in># search_keys (\<lambda>p. p) m'"
        by (simp add: m'_def enqueue_search_keys [OF m arr])
      moreover have "s \<notin> set (rm_players (the_room m' i))" if "i \<in> set (mm_live m1)" for i
        using that new(2) [OF that] queued(2) live_roomD [OF new(2) [OF that]]
        by (auto simp: in_search_keys fresh_search_def)
      ultimately show ?thesis
        using that new(3) live_roomD [OF new(1)] by (auto simp: in_search_keys)
    qed
    have "\<not> has_room_for (mm_heap m') s q" if "i \<noteq> mm_next m + 1" "live_room m' i = Some q" for i q
    proof -
      have i: "i \<in> set (mm_live m1)" using that new(3) live_roomD [OF that(2)] by simp
      then have "q = the_room m1 i" using new(2) that(2) by simp
      then show ?thesis using queued(7) i has_room_for_heap by blast
    qed
    moreover have "mm_next m + 1 \<notin> set (mm_live m)" "set (mm_live m') \<subseteq> insert (mm_next m + 1) (set (mm_live m))"
      using nxt sub(1) new(3) by auto
    moreover have "set (rm_players r) \<inter> set (mm_waiting m') = {}" by (auto simp: wait)
    moreover have "s \<in> set (rm_players r) \<and> seated_in m' s r \<or> s \<in> set (mm_waiting m')"
      using in_r out by blast
    ultimately show thesis using that(3) [OF new(1)] fits n by blast
  qed
qed

text \<open>C4: An accepted search that is enqueued is never lost. Afterwards it is seated in a lobby
  that its host keeps open, that takes no part in a merge, that was made for the same filter, and
  whose people are no more than its capacity and than the search allows; or it is in the waiting
  list, and then none of the lobbies there were before has room for it.\<close>

theorem ctr_enqueue_places_search:
  fixes now :: int
  assumes "reach ctr_init (ctr_step marshal) w" and "s \<in> set (cw_pending w)"
  defines "m' \<equiv> fst (enqueue now s (cw_mm w))"
  shows "(\<exists>i r. live_room m' i = Some r \<and> seated_in m' s r) \<or>
    s \<in> set (mm_waiting m') \<and>
    (\<forall>i r. i \<in> set (mm_live (cw_mm w)) \<and> live_room m' i = Some r \<longrightarrow>
       \<not> has_room_for (mm_heap m') s r)"
proof -
  have w: "ctr_world_inv w" by (rule ctr.reach_inv [OF assms(1)])
  then have m: "mm_inv (cw_mm w)" by (simp add: ctr_world_inv_def)
  show ?thesis
    using m pending_arriving [OF w assms(2)] meta_eq_to_obj_eq [OF m'_def]
  proof (cases rule: enqueue_result)
    case (made r)
    have "i \<noteq> mm_next (cw_mm w) + 1" if "i \<in> set (mm_live (cw_mm w))" for i
      using that made(2) by blast
    then show ?thesis using made(1,5,8) by metis
  qed blast+
qed

lemma ctr_enqueue_places_search_witness:
  "(\<exists>i r. live_room ex_mm3 i = Some r \<and> seated_in ex_mm3 (ex_search 2 22 2) r) \<or>
   ex_search 2 22 2 \<in> set (mm_waiting ex_mm3)"
  using ctr_enqueue_places_search [OF ex_run(2), of "ex_search 2 22 2" 0] by (auto simp: ex_mm3_def)

text \<open>C5: Every lobby that \<open>enqueue\<close> newly makes holds between two and eight people, counted as
  the seats of its searches; they are the new search and searches that were waiting, which wait no
  longer; all have the new search's filter, and the number of people lies within the slot limits
  that every one of them asked for.\<close>

theorem ctr_group_respects_every_search:
  fixes now :: int
  assumes "reach ctr_init (ctr_step marshal) w" and "s \<in> set (cw_pending w)"
  defines "m' \<equiv> fst (enqueue now s (cw_mm w))"
  assumes "live_room m' i = Some r" and "i \<notin> set (mm_live (cw_mm w))"
  shows "2 \<le> occupancy (mm_heap m') r \<and> occupancy (mm_heap m') r \<le> 8 \<and>
    occupancy (mm_heap m') r = sum_list (map sr_seats (rm_players r)) \<and>
    rm_host r \<in> set (rm_players r) \<and>
    set (rm_players r) \<subseteq> insert s (set (mm_waiting (cw_mm w))) \<and>
    set (rm_players r) \<inter> set (mm_waiting m') = {} \<and>
    (\<forall>p \<in> set (rm_players r). sr_filter p = sr_filter s \<and>
       sr_min p \<le> occupancy (mm_heap m') r \<and> occupancy (mm_heap m') r \<le> sr_max p)"
proof -
  have w: "ctr_world_inv w" by (rule ctr.reach_inv [OF assms(1)])
  then have m: "mm_inv (cw_mm w)" by (simp add: ctr_world_inv_def)
  have i: "i \<in> set (mm_live m')" using live_roomD [OF assms(4)] by simp
  show ?thesis
    using m pending_arriving [OF w assms(2)] meta_eq_to_obj_eq [OF m'_def]
  proof (cases rule: enqueue_result)
    case (made q)
    then have "q = r" using i assms(4,5) by auto
    with made(4,6,7) show ?thesis by (auto simp: lobby_fits_all_def Let_def)
  qed (use i assms(5) in auto)
qed

lemma ctr_group_respects_every_search_witness:
  "occupancy (mm_heap ex_mm3) (new_room 3 0 [ex_search 1 11 1, ex_search 2 22 2] 8) = 2 \<and>
   set (mm_waiting ex_mm3) \<inter> {ex_search 1 11 1, ex_search 2 22 2} = {}"
proof -
  have "3 \<notin> set (mm_live ex_mm2)"
    by (simp add: ex_mm2_def ex_mm1_def empty_mm_def enqueue_def enq_evict_def rank_rooms_def
        enq_group_def put_room_def ex_search_def Let_def)
  then show ?thesis
    using ctr_group_respects_every_search [OF ex_run(2), of "ex_search 2 22 2" 0 3]
      ex_room [unfolded ex_mm3_def] by (auto simp: ex_mm3_def ex_search_def)
qed

end
