(* ===== verification/Relay.thy ===== *)
theory Relay
  imports Decimal Transition
begin

text \<open>
  The UDP relay (\<open>ctr_relay.go\<close>): the address slots of a \<open>bdCommonAddr\<close>, who gets a relay
  address, the table of (host, joiner) pairs with its port allocation, the forwarding of packets
  and the removal of quiet pairs. Opening a socket is the argument \<open>listen\<close> (whether the
  operating system binds that port now); time is in nanoseconds and an argument.
\<close>

subsection \<open>Address slots\<close>

record udpAddr =
  ua_ip :: "byte \<times> byte \<times> byte \<times> byte"
  ua_port :: u16

definition relayAddrLen :: nat where "relayAddrLen = 6"
definition relaySlotLow :: nat where "relaySlotLow = 1"
definition relaySlotHigh :: nat where "relaySlotHigh = 9"
definition commonAddrLen :: nat where "commonAddrLen = 67"

definition emptySlot :: bytes where "emptySlot = [0, 255, 0, 255]"

definition parseAddrSlot :: "bytes \<Rightarrow> udpAddr option" where
  "parseAddrSlot b =
     (if length b < relayAddrLen then None
      else if take 4 b = emptySlot then None
      else
        let port = le_word (take 2 (drop 4 b)) :: u16 in
        if port = 0 then None
        else Some \<lparr>ua_ip = (b ! 0, b ! 1, b ! 2, b ! 3), ua_port = port\<rparr>)"

definition addr_bytes :: "udpAddr \<Rightarrow> bytes" where
  "addr_bytes a = (case ua_ip a of (i, j, k, l) \<Rightarrow> [i, j, k, l] @ le16 (ua_port a))"

text \<open>\<open>writeAddrSlot\<close> on the slot of \<open>b\<close> at \<open>off\<close>.\<close>

definition writeAddrSlot :: "nat \<Rightarrow> udpAddr \<Rightarrow> bytes \<Rightarrow> bytes" where
  "writeAddrSlot off a b = overwrite off (addr_bytes a) b"

definition slot_at :: "bytes \<Rightarrow> nat \<Rightarrow> bytes" where
  "slot_at b slot = subslice (slot * relayAddrLen) (slot * relayAddrLen + relayAddrLen) b"

definition hostPublicAddr :: "bytes \<Rightarrow> udpAddr option" where
  "hostPublicAddr hostAddr =
     (if length hostAddr < commonAddrLen then None else parseAddrSlot (subslice 60 66 hostAddr))"

subsection \<open>Who gets a relay\<close>

definition is_space :: "char \<Rightarrow> bool" where
  "is_space c \<longleftrightarrow> c \<in> {CHR '' '', CHR 0x09, CHR 0x0A, CHR 0x0B, CHR 0x0C, CHR 0x0D}"

definition trim_space :: "string \<Rightarrow> string" where
  "trim_space s = rev (dropWhile is_space (rev (dropWhile is_space s)))"

fun split_on :: "char \<Rightarrow> string \<Rightarrow> string list" where
  "split_on c [] = [[]]"
| "split_on c (x # xs) =
     (if x = c then [] # split_on c xs
      else case split_on c xs of [] \<Rightarrow> [[x]] | w # ws \<Rightarrow> (x # w) # ws)"

text \<open>\<open>env\<close> is the value of \<open>CTR_RELAY_PIDS\<close>.\<close>

definition relayFor :: "string \<Rightarrow> u64 \<Rightarrow> bool" where
  "relayFor env joinerPID =
     (let l = trim_space env in
      if l = '''' then False
      else if l = ''*'' then True
      else list_ex (\<lambda>f. parse_uint 64 (trim_space f) = Some (unat joinerPID)) (split_on (CHR '','') l))"

subsection \<open>The table\<close>

text \<open>\<open>byPort\<close> holds pointers to the pairs of \<open>pairs\<close>; the model holds the pair's key.\<close>

record relayPair =
  rp_port :: int
  rp_host :: udpAddr
  rp_joiner :: "udpAddr option"
  rp_last :: int

record relayTable =
  rt_pairs :: "bytes \<Rightarrow> relayPair option"
  rt_byPort :: "int \<Rightarrow> bytes option"
  rt_low :: int
  rt_high :: int
  rt_next :: int
  rt_ip :: "byte \<times> byte \<times> byte \<times> byte"

definition relayEnabled :: "relayTable \<Rightarrow> bool" where
  "relayEnabled t \<longleftrightarrow> rt_high t \<ge> rt_low t \<and> rt_low t > 0"

text \<open>\<open>ip\<close> is \<open>net.ParseIP(host).To4()\<close>.\<close>

definition startCTRRelay ::
    "int \<Rightarrow> int \<Rightarrow> (byte \<times> byte \<times> byte \<times> byte) option \<Rightarrow> relayTable \<Rightarrow> relayTable" where
  "startCTRRelay low high ip t =
     (case ip of
        None \<Rightarrow> t
      | Some i \<Rightarrow>
          if low \<le> 0 \<or> high < low then t
          else t\<lparr>rt_low := low, rt_high := high, rt_next := low, rt_ip := i\<rparr>)"

definition pairKey :: "u64 \<Rightarrow> u64 \<Rightarrow> bytes" where
  "pairKey hostPID joinerPID = le64 hostPID @ le64 joinerPID"

fun port_scan :: "nat \<Rightarrow> (int \<Rightarrow> bool) \<Rightarrow> relayTable \<Rightarrow> int option \<times> relayTable" where
  "port_scan 0 listen t = (None, t)"
| "port_scan (Suc n) listen t =
     (let port = rt_next t;
          t = t\<lparr>rt_next := (if port + 1 > rt_high t then rt_low t else port + 1)\<rparr> in
      if rt_byPort t port \<noteq> None then port_scan n listen t
      else if \<not> listen port then port_scan n listen t
      else (Some port, t))"

definition pairFor ::
    "(int \<Rightarrow> bool) \<Rightarrow> int \<Rightarrow> u64 \<Rightarrow> u64 \<Rightarrow> udpAddr \<Rightarrow> relayTable \<Rightarrow> relayPair option \<times> relayTable" where
  "pairFor listen now hostPID joinerPID host t =
     (let key = pairKey hostPID joinerPID in
      case rt_pairs t key of
        Some p \<Rightarrow>
          let p = p\<lparr>rp_host := host, rp_last := now\<rparr> in
          (Some p, t\<lparr>rt_pairs := (rt_pairs t)(key \<mapsto> p)\<rparr>)
      | None \<Rightarrow>
          (case port_scan (nat (rt_high t - rt_low t + 1)) listen t of
             (None, t) \<Rightarrow> (None, t)
           | (Some port, t) \<Rightarrow>
               let p = \<lparr>rp_port = port, rp_host = host, rp_joiner = None, rp_last = now\<rparr> in
               (Some p, t\<lparr>rt_pairs := (rt_pairs t)(key \<mapsto> p),
                         rt_byPort := (rt_byPort t)(port \<mapsto> key)\<rparr>)))"

subsection \<open>Offering a relay address\<close>

text \<open>The first free relay slot, from \<open>slot\<close> on.\<close>

fun offer_slot :: "nat \<Rightarrow> nat \<Rightarrow> udpAddr \<Rightarrow> bytes \<Rightarrow> bytes option" where
  "offer_slot 0 slot a out = None"
| "offer_slot (Suc n) slot a out =
     (if parseAddrSlot (slot_at out slot) \<noteq> None then offer_slot n (slot + 1) a out
      else Some (writeAddrSlot (slot * relayAddrLen) a out))"

definition withRelay ::
    "string \<Rightarrow> (int \<Rightarrow> bool) \<Rightarrow> int \<Rightarrow> bytes \<Rightarrow> u64 \<Rightarrow> u64 \<Rightarrow> relayTable \<Rightarrow> bytes \<times> relayTable" where
  "withRelay env listen now hostAddr hostPID joinerPID t =
     (if \<not> relayEnabled t \<or> length hostAddr < commonAddrLen \<or> hostPID = 0 \<or> joinerPID = 0 \<or>
         hostPID = joinerPID then (hostAddr, t)
      else if \<not> relayFor env joinerPID then (hostAddr, t)
      else
        (case hostPublicAddr hostAddr of
           None \<Rightarrow> (hostAddr, t)
         | Some dst \<Rightarrow>
             (case pairFor listen now hostPID joinerPID dst t of
                (None, t) \<Rightarrow> (hostAddr, t)
              | (Some p, t) \<Rightarrow>
                  (case offer_slot (relaySlotHigh - relaySlotLow + 1) relaySlotLow
                          \<lparr>ua_ip = rt_ip t, ua_port = word_of_int (rp_port p)\<rparr> hostAddr of
                     Some out \<Rightarrow> (out, t)
                   | None \<Rightarrow> (hostAddr, t)))))"

subsection \<open>Forwarding and removal\<close>

text \<open>One packet of \<open>serve\<close>: the pair afterwards, and where the packet goes.\<close>

definition relay_packet :: "int \<Rightarrow> udpAddr \<Rightarrow> relayPair \<Rightarrow> relayPair \<times> udpAddr option" where
  "relay_packet now src p =
     (let fromHost = (src = rp_host p);
          joiner = (if \<not> fromHost \<and> rp_joiner p \<noteq> Some src then Some src else rp_joiner p);
          p' = p\<lparr>rp_joiner := joiner, rp_last := now\<rparr>
      in (p', if fromHost then joiner else Some (rp_host p)))"

definition serve_packet :: "int \<Rightarrow> bytes \<Rightarrow> udpAddr \<Rightarrow> relayTable \<Rightarrow> relayTable \<times> udpAddr option" where
  "serve_packet now key src t =
     (case rt_pairs t key of
        None \<Rightarrow> (t, None)
      | Some p \<Rightarrow>
          (case relay_packet now src p of
             (p', to) \<Rightarrow> (t\<lparr>rt_pairs := (rt_pairs t)(key \<mapsto> p')\<rparr>, to)))"

definition reap_cutoff :: "int \<Rightarrow> int" where
  "reap_cutoff now = now - 2 * 60 * 1000000000"

definition relay_reap :: "int \<Rightarrow> relayTable \<Rightarrow> relayTable" where
  "relay_reap now t =
     (let quiet = (\<lambda>p. \<not> rp_last p > reap_cutoff now) in
      t\<lparr>rt_pairs := (\<lambda>k. case rt_pairs t k of
                          Some p \<Rightarrow> if quiet p then None else Some p | None \<Rightarrow> None),
        rt_byPort := (\<lambda>port. case rt_byPort t port of
                               None \<Rightarrow> None
                             | Some k \<Rightarrow>
                                 (case rt_pairs t k of
                                    None \<Rightarrow> Some k
                                  | Some p \<Rightarrow> if rp_port p = port \<and> quiet p then None else Some k))\<rparr>)"

subsection \<open>Slots\<close>

lemma length_addr_bytes [simp]: "length (addr_bytes a) = 6"
  by (simp add: addr_bytes_def split: prod.splits)

lemma parse_addr_bytes:
  "ua_port a \<noteq> 0 \<Longrightarrow> take 4 (addr_bytes a) \<noteq> emptySlot \<Longrightarrow> parseAddrSlot (addr_bytes a) = Some a"
  by (cases a) (auto simp: parseAddrSlot_def addr_bytes_def relayAddrLen_def Let_def
      le_word_le_bytes eval_nat_numeral split: prod.splits)

lemma slot_written:
  assumes "slot * relayAddrLen + relayAddrLen \<le> length b"
  shows "slot_at (writeAddrSlot (slot * relayAddrLen) a b) slot = addr_bytes a"
    and "length (writeAddrSlot (slot * relayAddrLen) a b) = length b"
    and "hi \<le> slot * relayAddrLen \<or> slot * relayAddrLen + relayAddrLen \<le> lo \<Longrightarrow>
      subslice lo hi (writeAddrSlot (slot * relayAddrLen) a b) = subslice lo hi b"
  using assms subslice_overwrite_same [of "slot * relayAddrLen" "addr_bytes a" b]
    subslice_overwrite_other [of "slot * relayAddrLen" "addr_bytes a" b hi lo]
  by (simp_all add: slot_at_def writeAddrSlot_def relayAddrLen_def)

lemma offer_slot_found:
  "offer_slot n slot a b = Some out \<Longrightarrow>
   \<exists>k. slot \<le> k \<and> k < slot + n \<and> parseAddrSlot (slot_at b k) = None \<and>
     (\<forall>j. slot \<le> j \<and> j < k \<longrightarrow> parseAddrSlot (slot_at b j) \<noteq> None) \<and>
     out = writeAddrSlot (k * relayAddrLen) a b"
proof (induction n arbitrary: slot)
  case (Suc n)
  show ?case
  proof (cases "parseAddrSlot (slot_at b slot) = None")
    case True
    then show ?thesis using Suc.prems by (auto intro!: exI [of _ slot])
  next
    case False
    then have "offer_slot n (slot + 1) a b = Some out" using Suc.prems by simp
    from Suc.IH [OF this] obtain k where k: "slot + 1 \<le> k" "k < slot + 1 + n"
      "parseAddrSlot (slot_at b k) = None"
      "\<forall>j. slot + 1 \<le> j \<and> j < k \<longrightarrow> parseAddrSlot (slot_at b j) \<noteq> None"
      "out = writeAddrSlot (k * relayAddrLen) a b" by blast
    moreover have "parseAddrSlot (slot_at b j) \<noteq> None" if "slot \<le> j" "j < k" for j
      using k(4) that False by (cases "j = slot") auto
    ultimately show ?thesis by (intro exI [of _ k]) auto
  qed
qed simp

subsection \<open>The invariant of the table\<close>

definition relay_inv :: "relayTable \<Rightarrow> bool" where
  "relay_inv t \<longleftrightarrow>
     0 < rt_low t \<and> rt_low t \<le> rt_next t \<and> rt_next t \<le> rt_high t \<and>
     (\<forall>k p. rt_pairs t k = Some p \<longrightarrow>
        rt_byPort t (rp_port p) = Some k \<and> rt_low t \<le> rp_port p \<and> rp_port p \<le> rt_high t) \<and>
     (\<forall>port k. rt_byPort t port = Some k \<longrightarrow>
        (\<exists>p. rt_pairs t k = Some p \<and> rp_port p = port))"

lemma port_scan_frame:
  "port_scan n listen t = (res, t') \<Longrightarrow>
   rt_pairs t' = rt_pairs t \<and> rt_byPort t' = rt_byPort t \<and> rt_low t' = rt_low t \<and>
   rt_high t' = rt_high t \<and> rt_ip t' = rt_ip t"
  by (induction n listen t rule: port_scan.induct) (auto simp: Let_def split: if_splits)

lemma port_scan_next:
  "port_scan n listen t = (res, t') \<Longrightarrow> rt_low t \<le> rt_next t \<Longrightarrow> rt_next t \<le> rt_high t \<Longrightarrow>
   rt_low t' \<le> rt_next t' \<and> rt_next t' \<le> rt_high t' \<and>
   (case res of None \<Rightarrow> True
    | Some port \<Rightarrow> rt_low t \<le> port \<and> port \<le> rt_high t \<and> rt_byPort t port = None \<and> listen port)"
proof (induction n arbitrary: t)
  case (Suc n)
  let ?t = "t\<lparr>rt_next := (if rt_next t + 1 > rt_high t then rt_low t else rt_next t + 1)\<rparr>"
  have nx: "rt_low ?t \<le> rt_next ?t" "rt_next ?t \<le> rt_high ?t" using Suc.prems(2,3) by auto
  show ?case
  proof (cases "rt_byPort t (rt_next t) = None \<and> listen (rt_next t)")
    case True
    then show ?thesis using Suc.prems nx by (auto simp: Let_def)
  next
    case False
    then have "port_scan n listen ?t = (res, t')"
      using Suc.prems(1) by (simp add: Let_def split: if_splits)
    from Suc.IH [OF this nx] show ?thesis by (cases res) simp_all
  qed
qed simp

text \<open>The \<open>j\<close>-th port the scan tries.\<close>

definition port_at :: "relayTable \<Rightarrow> nat \<Rightarrow> int" where
  "port_at t j = rt_low t + (rt_next t - rt_low t + int j) mod (rt_high t - rt_low t + 1)"

lemma port_scan_none:
  "port_scan n listen t = (None, t') \<Longrightarrow> rt_low t \<le> rt_next t \<Longrightarrow> rt_next t \<le> rt_high t \<Longrightarrow>
   j < n \<Longrightarrow> rt_byPort t (port_at t j) \<noteq> None \<or> \<not> listen (port_at t j)"
proof (induction n arbitrary: t j)
  case (Suc n)
  let ?t = "t\<lparr>rt_next := (if rt_next t + 1 > rt_high t then rt_low t else rt_next t + 1)\<rparr>"
  let ?N = "rt_high t - rt_low t + 1"
  have nx: "rt_low ?t \<le> rt_next ?t" "rt_next ?t \<le> rt_high ?t" using Suc.prems(2,3) by auto
  have at0: "port_at t 0 = rt_next t" using Suc.prems(2,3) by (simp add: port_at_def)
  have busy: "rt_byPort t (rt_next t) \<noteq> None \<or> \<not> listen (rt_next t)"
    and rest: "port_scan n listen ?t = (None, t')"
    using Suc.prems(1) by (auto simp: Let_def split: if_splits)
  show ?case
  proof (cases j)
    case 0
    then show ?thesis using busy at0 by simp
  next
    case j: (Suc i)
    have "port_at ?t i = port_at t (Suc i)"
    proof (cases "rt_next t + 1 > rt_high t")
      case True
      then have e: "rt_next t - rt_low t + int (Suc i) = int i + ?N" using Suc.prems(3) by simp
      have "port_at t (Suc i) = rt_low t + int i mod ?N"
        unfolding port_at_def e by (simp only: mod_add_self2)
      then show ?thesis using True by (simp add: port_at_def)
    next
      case False
      then show ?thesis by (simp add: port_at_def algebra_simps)
    qed
    then show ?thesis
      using Suc.IH [OF rest nx, of i] Suc.prems(4) j by simp
  qed
qed simp

lemma port_at_covers:
  assumes "rt_low t \<le> rt_next t" and "rt_next t \<le> rt_high t" and "rt_low t \<le> q" and "q \<le> rt_high t"
  shows "\<exists>j < nat (rt_high t - rt_low t + 1). port_at t j = q"
proof -
  let ?N = "rt_high t - rt_low t + 1"
  let ?j = "(q - rt_next t) mod ?N"
  have N: "0 < ?N" using assms by linarith
  then have j: "0 \<le> ?j" "?j < ?N" by (rule pos_mod_sign, rule pos_mod_bound)
  have "(rt_next t - rt_low t + ?j) mod ?N = (rt_next t - rt_low t + (q - rt_next t)) mod ?N"
    by (simp only: mod_add_right_eq)
  also have "\<dots> = q - rt_low t" using assms by simp
  finally have "port_at t (nat ?j) = q" using j by (simp add: port_at_def)
  then show ?thesis using j by (intro exI [of _ "nat ?j"]) auto
qed

lemma relay_invD:
  assumes "relay_inv t"
  shows "rt_pairs t k = Some p \<Longrightarrow> rt_byPort t (rp_port p) = Some k"
    and "rt_pairs t k = Some p \<Longrightarrow> rt_low t \<le> rp_port p \<and> rp_port p \<le> rt_high t"
    and "rt_byPort t port = Some k \<Longrightarrow> \<exists>p. rt_pairs t k = Some p \<and> rp_port p = port"
  using assms by (auto simp: relay_inv_def)

lemma relay_inv_update:
  assumes inv: "relay_inv t" and p: "rt_pairs t k = Some p" and port: "rp_port p' = rp_port p"
  shows "relay_inv (t\<lparr>rt_pairs := (rt_pairs t)(k \<mapsto> p')\<rparr>)"
proof -
  have "rt_byPort t (rp_port q) = Some j \<and> rt_low t \<le> rp_port q \<and> rp_port q \<le> rt_high t"
    if "((rt_pairs t)(k \<mapsto> p')) j = Some q" for j q
    using that p port relay_invD(1,2) [OF inv, of j] by (auto split: if_splits)
  moreover have "\<exists>q. ((rt_pairs t)(k \<mapsto> p')) j = Some q \<and> rp_port q = x" if "rt_byPort t x = Some j" for x j
    using relay_invD(3) [OF inv that] p port by (cases "j = k") auto
  ultimately show ?thesis using inv by (simp add: relay_inv_def)
qed

lemma pairFor_inv:
  assumes inv: "relay_inv t" and step: "pairFor listen now h j host t = (res, t')"
  shows "relay_inv t'"
proof (cases "rt_pairs t (pairKey h j)")
  case (Some p)
  then show ?thesis
    using step relay_inv_update [OF inv Some] by (auto simp: pairFor_def Let_def)
next
  case None
  let ?n = "nat (rt_high t - rt_low t + 1)"
  obtain r t1 where scan: "port_scan ?n listen t = (r, t1)" by fastforce
  note fr = port_scan_frame [OF scan]
  have nx: "rt_low t1 \<le> rt_next t1 \<and> rt_next t1 \<le> rt_high t1 \<and>
    (case r of None \<Rightarrow> True
     | Some port \<Rightarrow> rt_low t \<le> port \<and> port \<le> rt_high t \<and> rt_byPort t port = None \<and> listen port)"
    by (rule port_scan_next [OF scan]) (use inv in \<open>auto simp: relay_inv_def\<close>)
  show ?thesis
  proof (cases r)
    case None
    then show ?thesis
      using step scan \<open>rt_pairs t (pairKey h j) = None\<close> inv fr nx
      by (simp add: pairFor_def Let_def relay_inv_def)
  next
    case (Some port)
    then have t': "t' = t1\<lparr>rt_pairs := (rt_pairs t)(pairKey h j \<mapsto>
          \<lparr>rp_port = port, rp_host = host, rp_joiner = None, rp_last = now\<rparr>),
        rt_byPort := (rt_byPort t)(port \<mapsto> pairKey h j)\<rparr>"
      using step scan None fr by (auto simp: pairFor_def Let_def)
    have free: "rt_byPort t port = None" using nx Some by simp
    have old: "rp_port p \<noteq> port" if "rt_pairs t k = Some p" for k p
      using relay_invD(1) [OF inv that] free by auto
    have "rt_byPort t' (rp_port q) = Some k \<and> rt_low t \<le> rp_port q \<and> rp_port q \<le> rt_high t"
      if "rt_pairs t' k = Some q" for k q
      using that relay_invD(1,2) [OF inv, of k q] old [of k q] nx Some
      unfolding t' by (auto split: if_splits)
    moreover have "\<exists>q. rt_pairs t' k = Some q \<and> rp_port q = x" if "rt_byPort t' x = Some k" for x k
      using that relay_invD(3) [OF inv, of x k] None unfolding t' by (auto split: if_splits)
    moreover have "0 < rt_low t" using inv by (simp add: relay_inv_def)
    ultimately show ?thesis
      using nx fr by (simp add: relay_inv_def t')
  qed
qed

lemma serve_packet_inv:
  "relay_inv t \<Longrightarrow> relay_inv (fst (serve_packet now key src t))"
  by (cases "rt_pairs t key")
     (auto simp: serve_packet_def relay_packet_def Let_def intro: relay_inv_update)

lemma relay_reap_inv:
  assumes inv: "relay_inv t"
  shows "relay_inv (relay_reap now t)"
proof -
  have pairs: "rt_byPort t (rp_port p) = Some k \<and> rt_low t \<le> rp_port p \<and> rp_port p \<le> rt_high t"
    if "rt_pairs t k = Some p" for k p
    using inv that by (auto simp: relay_inv_def)
  have ports: "\<exists>p. rt_pairs t k = Some p \<and> rp_port p = port" if "rt_byPort t port = Some k" for port k
    using inv that by (auto simp: relay_inv_def)
  have 1: "rt_byPort (relay_reap now t) (rp_port p) = Some k \<and> rt_low t \<le> rp_port p \<and>
      rp_port p \<le> rt_high t" if "rt_pairs (relay_reap now t) k = Some p" for k p
    using that pairs [of k p] by (auto simp: relay_reap_def Let_def split: option.splits if_splits)
  have 2: "\<exists>p. rt_pairs (relay_reap now t) k = Some p \<and> rp_port p = port"
    if "rt_byPort (relay_reap now t) port = Some k" for port k
  proof -
    have k: "rt_byPort t port = Some k"
      using that by (auto simp: relay_reap_def Let_def split: option.splits if_splits)
    obtain p where "rt_pairs t k = Some p" "rp_port p = port" using ports [OF k] by blast
    then show ?thesis using that k by (auto simp: relay_reap_def Let_def split: if_splits)
  qed
  show ?thesis
    using inv 1 2 by (simp add: relay_inv_def relay_reap_def Let_def)
qed

subsection \<open>The relay as a state machine\<close>

text \<open>
  An enabled table, then any sequence of requests for a pair, packets and sweeps. Which ports
  the operating system can bind differs from call to call.
\<close>

definition relay_init :: "relayTable \<Rightarrow> bool" where
  "relay_init t \<longleftrightarrow>
     rt_pairs t = (\<lambda>_. None) \<and> rt_byPort t = (\<lambda>_. None) \<and> 0 < rt_low t \<and>
     rt_low t \<le> rt_high t \<and> rt_next t = rt_low t"

inductive relay_step :: "relayTable \<Rightarrow> relayTable \<Rightarrow> bool" where
  pair: "relay_step t (snd (pairFor listen now h j host t))"
| packet: "relay_step t (fst (serve_packet now key src t))"
| sweep: "relay_step t (relay_reap now t)"

lemma relay_step_inv: "relay_inv t \<Longrightarrow> relay_step t t' \<Longrightarrow> relay_inv t'"
  by (erule relay_step.cases)
     (auto intro: pairFor_inv [OF _ prod.collapse [symmetric]] serve_packet_inv relay_reap_inv)

lemma relay_init_inv: "relay_init t \<Longrightarrow> relay_inv t"
  by (simp add: relay_init_def relay_inv_def)

interpretation relay_sys: invariant_system relay_init relay_step relay_inv
  by unfold_locales (erule relay_init_inv, erule (1) relay_step_inv)

text \<open>C19: In every reachable state of the relay two different pairs never share a port, and every
  allocated port lies in the configured range.\<close>

theorem relay_ports_unique:
  assumes "reach relay_init relay_step t" and "rt_pairs t k = Some p" and "rt_pairs t k' = Some p'"
    and "rp_port p = rp_port p'"
  shows "k = k' \<and> rt_low t \<le> rp_port p \<and> rp_port p \<le> rt_high t"
  using relay_invD [OF relay_sys.reach_inv [OF assms(1)]] assms(2-4) by (metis option.inject)

lemma relay_ports_unique_witness:
  "\<exists>t p p'. reach relay_init relay_step t \<and> rt_pairs t (pairKey 1 2) = Some p \<and>
     rt_pairs t (pairKey 1 3) = Some p' \<and> rp_port p \<noteq> rp_port p'"
proof -
  define t0 where "t0 = \<lparr>rt_pairs = (\<lambda>_. None), rt_byPort = (\<lambda>_. None), rt_low = 40000,
    rt_high = 40009, rt_next = 40000, rt_ip = (1, 2, 3, 4)\<rparr>"
  define h where "h = \<lparr>ua_ip = (9, 9, 9, 9), ua_port = 5000\<rparr>"
  define t1 where "t1 = snd (pairFor (\<lambda>_. True) 0 1 2 h t0)"
  define t2 where "t2 = snd (pairFor (\<lambda>_. True) 0 1 3 h t1)"
  have "reach relay_init relay_step t0"
    by (rule reach_init) (simp add: relay_init_def t0_def)
  then have "reach relay_init relay_step t1"
    unfolding t1_def by (rule reach_step) (rule relay_step.pair)
  then have r: "reach relay_init relay_step t2"
    unfolding t2_def by (rule reach_step) (rule relay_step.pair)
  have ne: "pairKey 1 2 \<noteq> pairKey 1 3" by code_simp
  have t1: "t1 = t0\<lparr>rt_next := 40001, rt_pairs := [pairKey 1 2 \<mapsto>
      \<lparr>rp_port = 40000, rp_host = h, rp_joiner = None, rp_last = 0\<rparr>], rt_byPort := [40000 \<mapsto> pairKey 1 2]\<rparr>"
    by (simp add: t1_def t0_def pairFor_def Let_def eval_nat_numeral)
  have "\<exists>p p'. rt_pairs t2 (pairKey 1 2) = Some p \<and> rt_pairs t2 (pairKey 1 3) = Some p'"
    using ne by (simp add: t2_def t1 t0_def pairFor_def Let_def eval_nat_numeral)
  then obtain p p' where p: "rt_pairs t2 (pairKey 1 2) = Some p" "rt_pairs t2 (pairKey 1 3) = Some p'"
    by blast
  have "rp_port p \<noteq> rp_port p'" using relay_ports_unique [OF r p] ne by blast
  with r p show ?thesis by blast
qed

text \<open>When some port of the range is not in use and can be bound, a request for a new pair
  succeeds: the scan from \<open>next\<close> tries every port of the range.\<close>

theorem relay_finds_free_port:
  assumes "reach relay_init relay_step t"
    and "rt_low t \<le> q" and "q \<le> rt_high t" and "rt_byPort t q = None" and "listen q"
  shows "fst (pairFor listen now h j host t) \<noteq> None"
proof (cases "rt_pairs t (pairKey h j)")
  case Some
  then show ?thesis by (simp add: pairFor_def Let_def)
next
  case None
  let ?n = "nat (rt_high t - rt_low t + 1)"
  have nx: "rt_low t \<le> rt_next t" "rt_next t \<le> rt_high t"
    using relay_sys.reach_inv [OF assms(1)] by (simp_all add: relay_inv_def)
  obtain r t1 where scan: "port_scan ?n listen t = (r, t1)" by fastforce
  obtain i where "i < ?n" "port_at t i = q" using port_at_covers [OF nx assms(2,3)] by blast
  then have "r \<noteq> None" using port_scan_none [of ?n listen t t1 i] scan nx assms(4,5) by auto
  then show ?thesis using None scan by (auto simp: pairFor_def Let_def)
qed

lemma relay_finds_free_port_witness:
  "fst (pairFor (\<lambda>port. port = 40003) 0 1 2 \<lparr>ua_ip = (9, 9, 9, 9), ua_port = 5000\<rparr>
     \<lparr>rt_pairs = (\<lambda>_. None), rt_byPort = (\<lambda>_. None), rt_low = 40000, rt_high = 40009,
      rt_next = 40000, rt_ip = (1, 2, 3, 4)\<rparr>) \<noteq> None"
  by (rule relay_finds_free_port [where q = 40003])
     (auto intro!: reach_init simp: relay_init_def)

text \<open>Writing a relay address into a host's address keeps its length, its local address, its
  public address and its NAT type; it changes at most one relay slot, which was free.\<close>

theorem withRelay_keeps_host_address:
  assumes "withRelay env listen now hostAddr h j t = (out, t')"
  shows "length out = length hostAddr \<and> take 6 out = take 6 hostAddr \<and>
    drop 60 out = drop 60 hostAddr \<and>
    (out = hostAddr \<or>
     (\<exists>slot. 1 \<le> slot \<and> slot \<le> 9 \<and> parseAddrSlot (slot_at hostAddr slot) = None \<and>
        (\<exists>a. slot_at out slot = addr_bytes a) \<and>
        (\<forall>i. 1 \<le> i \<and> i \<le> 9 \<and> i \<noteq> slot \<longrightarrow> slot_at out i = slot_at hostAddr i)))"
proof (cases "out = hostAddr")
  case False
  then obtain a where big: "\<not> length hostAddr < commonAddrLen"
    and off: "offer_slot 9 1 a hostAddr = Some out"
    using assms
    by (auto simp: withRelay_def relaySlotHigh_def relaySlotLow_def split: if_splits option.splits prod.splits)
  obtain k where k: "1 \<le> k" "k < 10" "parseAddrSlot (slot_at hostAddr k) = None"
    "out = writeAddrSlot (k * relayAddrLen) a hostAddr"
    using offer_slot_found [OF off] by auto
  have fit: "k * relayAddrLen + relayAddrLen \<le> length hostAddr"
    using big k(2) by (simp add: commonAddrLen_def relayAddrLen_def)
  note w = slot_written [OF fit]
  have len: "length out = length hostAddr" using w(2) k(4) by simp
  have "take 6 out = take 6 hostAddr"
    using w(3) [of 6 0 a] k(1,4) by (simp add: subslice_def relayAddrLen_def)
  moreover have "drop 60 out = drop 60 hostAddr"
    using w(3) [of "length hostAddr" 60 a] k(2,4) len by (simp add: subslice_def relayAddrLen_def)
  moreover have "slot_at out i = slot_at hostAddr i" if "i \<noteq> k" for i
    using w(3) [of "i * relayAddrLen + relayAddrLen" "i * relayAddrLen" a] that k(4)
    by (cases i k rule: linorder_cases) (auto simp: slot_at_def relayAddrLen_def)
  moreover have "slot_at out k = addr_bytes a" using w(1) k(4) by simp
  ultimately show ?thesis using len k(1-3) by (intro conjI disjI2) (auto intro!: exI [of _ k])
qed simp

lemma withRelay_keeps_host_address_witness:
  "length (fst (withRelay ''*'' (\<lambda>_. True) 0 
     (replicate 6 1 @ concat (replicate 9 [0, 255, 0, 255, 0, 0]) @ [9, 9, 9, 9, 136, 19, 1]) 5 6
     \<lparr>rt_pairs = (\<lambda>_. None), rt_byPort = (\<lambda>_. None), rt_low = 40000, rt_high = 40009,
      rt_next = 40000, rt_ip = (1, 2, 3, 4)\<rparr>)) = 67"
proof -
  obtain out t' where w: "withRelay ''*'' (\<lambda>_. True) 0 
     (replicate 6 1 @ concat (replicate 9 [0, 255, 0, 255, 0, 0]) @ [9, 9, 9, 9, 136, 19, 1]) 5 6
     \<lparr>rt_pairs = (\<lambda>_. None), rt_byPort = (\<lambda>_. None), rt_low = 40000, rt_high = 40009,
      rt_next = 40000, rt_ip = (1, 2, 3, 4)\<rparr> = (out, t')" by fastforce
  then show ?thesis using withRelay_keeps_host_address [OF w] by (simp add: length_concat sum_list_replicate)
qed

text \<open>Packets of one pair, in order, each with its arrival time.\<close>

fun relay_run :: "(int \<times> udpAddr) list \<Rightarrow> relayPair \<Rightarrow> relayPair" where
  "relay_run [] p = p"
| "relay_run ((now, src) # rest) p = relay_run rest (fst (relay_packet now src p))"

lemma relay_packet_host: "rp_host (fst (relay_packet now src p)) = rp_host p"
  by (simp add: relay_packet_def Let_def)

lemma relay_packet_joiner:
  "rp_joiner (fst (relay_packet now src p)) = (if src = rp_host p then rp_joiner p else Some src)"
  by (auto simp: relay_packet_def Let_def)

lemma relay_run_joiner:
  "rp_host (relay_run ps p) = rp_host p \<and>
   rp_joiner (relay_run ps p) =
     (case filter (\<lambda>src. src \<noteq> rp_host p) (map snd ps) of
        [] \<Rightarrow> rp_joiner p | xs \<Rightarrow> Some (last xs))"
  by (induction ps p rule: relay_run.induct)
     (auto simp: relay_packet_host relay_packet_joiner split: list.splits)

text \<open>C20: After any sequence of packets on the port of a pair, a packet from the host goes to the
  latest other sender, and a packet from anyone else goes to the host. In particular a third
  party that sends to the port takes the place of the joiner.\<close>

theorem relay_forwards_between_the_pair:
  "snd (relay_packet now src (relay_run ps p)) =
     (if src = rp_host p then
        (case filter (\<lambda>s. s \<noteq> rp_host p) (map snd ps) of
           [] \<Rightarrow> rp_joiner p | xs \<Rightarrow> Some (last xs))
      else Some (rp_host p))"
  using relay_run_joiner [of ps p] by (simp add: relay_packet_def Let_def)

end
