(* ===== verification/MatchMaking.thy ===== *)
theory MatchMaking
  imports Replies Relay
begin

text \<open>
  bdMatchMaking (\<open>matchmaking.go\<close>): the table of public games shared by all connections, under
  \<open>sessionsMu\<close>. Strings and identifiers are byte strings. Go iterates over the table in an
  unspecified order: the loops that only delete are written entry by entry, and the loop of
  \<open>findSessions\<close> takes the order as an argument. The random identifier, the time and the
  transaction number are arguments too.
\<close>

subsection \<open>Connections\<close>

record playerID =
  pl_username :: string
  pl_pid :: u64
  pl_sub :: string
  pl_kind :: string
  pl_title :: u32

text \<open>The part of \<open>lobbyConn\<close> the services use: the connection number and the player, if known.\<close>

record lobbyUser =
  lu_n :: u64
  lu_player :: "playerID option"

definition pid :: "lobbyUser \<Rightarrow> u64" where
  "pid l = (case lu_player l of None \<Rightarrow> 0 | Some p \<Rightarrow> pl_pid p)"

subsection \<open>Sessions\<close>

record mmSession =
  ms_context :: bytes
  ms_id :: bytes
  ms_owner :: u64
  ms_ownerPID :: u64
  ms_orphaned :: int
  ms_hostAddr :: bytes
  ms_gameType :: u32
  ms_maxPlayers :: u32
  ms_numPlayers :: u32
  ms_attrs :: bytes
  ms_updated :: int
  ms_reserved :: bool

type_synonym sessions = "bytes \<Rightarrow> mmSession option"

definition orphanGrace :: int where "orphanGrace = 2 * 60 * 1000000000"

definition owns :: "lobbyUser \<Rightarrow> mmSession \<Rightarrow> bool" where
  "owns l s \<longleftrightarrow> ms_owner s = lu_n l \<or> (pid l \<noteq> 0 \<and> ms_ownerPID s = pid l)"

definition remove_if :: "(mmSession \<Rightarrow> bool) \<Rightarrow> sessions \<Rightarrow> sessions" where
  "remove_if P m = (\<lambda>i. case m i of None \<Rightarrow> None | Some s \<Rightarrow> if P s then None else Some s)"

definition reapSessionsOnce :: "int \<Rightarrow> sessions \<Rightarrow> sessions" where
  "reapSessionsOnce now = remove_if (\<lambda>s. ms_owner s = 0 \<and> now - ms_orphaned s > orphanGrace)"

definition dropSessionsOf :: "int \<Rightarrow> u64 \<Rightarrow> sessions \<Rightarrow> sessions" where
  "dropSessionsOf now conn m =
     (\<lambda>i. case m i of
            None \<Rightarrow> None
          | Some s \<Rightarrow>
              if ms_owner s \<noteq> conn then Some s
              else if ms_ownerPID s = 0 then None
              else Some (s\<lparr>ms_owner := 0, ms_orphaned := now\<rparr>))"

subsection \<open>Game information\<close>

record mmInfo =
  mi_host :: bytes
  mi_gameType :: u32
  mi_maxPlayers :: u32
  mi_attrs :: bytes

definition readInfo :: "mmInfo reader" where
  "readInfo r =
     (case rd_blob r of (Inl e, r) \<Rightarrow> (Inl e, r) | (Inr host, r) \<Rightarrow>
     (case rd_u32 r of (Inl e, r) \<Rightarrow> (Inl e, r) | (Inr gt, r) \<Rightarrow>
     (case rd_u32 r of (Inl e, r) \<Rightarrow> (Inl e, r) | (Inr mx, r) \<Rightarrow>
        (Inr \<lparr>mi_host = host, mi_gameType = gt, mi_maxPlayers = mx, mi_attrs = rd_rest r\<rparr>, r))))"

definition ctr_context :: "bytes \<Rightarrow> bool" where
  "ctr_context c \<longleftrightarrow> take 4 c = lit ''ctr:''"

definition readContextInfo :: "bytes \<Rightarrow> mmInfo reader" where
  "readContextInfo c r =
     (if \<not> ctr_context c then readInfo r
      else
        (case rd_blob r of (Inl e, r) \<Rightarrow> (Inl e, r) | (Inr host, r) \<Rightarrow>
        (case rd_u32 r of (Inl e, r) \<Rightarrow> (Inl e, r) | (Inr gt, r) \<Rightarrow>
        (case rd_u32 r of (Inl e, r) \<Rightarrow> (Inl e, r) | (Inr mx, r) \<Rightarrow>
           if roff r < length (rbuf r) then
             (case rd_blob r of (Inl e, r) \<Rightarrow> (Inl e, r) | (Inr a, r) \<Rightarrow>
                (Inr \<lparr>mi_host = host, mi_gameType = gt, mi_maxPlayers = mx, mi_attrs = a\<rparr>, r))
           else (Inr \<lparr>mi_host = host, mi_gameType = gt, mi_maxPlayers = mx, mi_attrs = []\<rparr>, r)))))"

definition publish :: "int \<Rightarrow> lobbyUser \<Rightarrow> mmInfo \<Rightarrow> mmSession \<Rightarrow> mmSession" where
  "publish now l info s =
     s\<lparr>ms_owner := lu_n l, ms_ownerPID := pid l, ms_hostAddr := mi_host info,
       ms_gameType := mi_gameType info, ms_maxPlayers := mi_maxPlayers info,
       ms_attrs := mi_attrs info, ms_updated := now\<rparr>"

subsection \<open>Tasks\<close>

definition mmCreateSession :: byte where "mmCreateSession = 1"
definition mmUpdateSession :: byte where "mmUpdateSession = 2"
definition mmDeleteSession :: byte where "mmDeleteSession = 3"
definition mmFindSessions :: byte where "mmFindSessions = 5"
definition mmUpdatePlayers :: byte where "mmUpdatePlayers = 12"
definition mmRequestSessionID :: byte where "mmRequestSessionID = 19"
definition mmInitializeSession :: byte where "mmInitializeSession = 20"

text \<open>\<open>rand.Read\<close> gives \<open>rid\<close>; reserving fails without it, creating ignores the error.\<close>

definition reserveSession ::
    "int \<Rightarrow> bytes option \<Rightarrow> lobbyUser \<Rightarrow> bytes \<Rightarrow> u64 \<Rightarrow> byte \<Rightarrow> sessions \<Rightarrow> bytes \<times> sessions" where
  "reserveSession now rid l c txn task m =
     (case rid of
        None \<Rightarrow> (taskReply txn task errUnhandled None, m)
      | Some i \<Rightarrow>
          let s = \<lparr>ms_context = c, ms_id = i, ms_owner = lu_n l, ms_ownerPID = pid l,
                   ms_orphaned = 0, ms_hostAddr = [], ms_gameType = 0, ms_maxPlayers = 0,
                   ms_numPlayers = 0, ms_attrs = [], ms_updated = now, ms_reserved = True\<rparr>;
              m = remove_if (\<lambda>old. ms_reserved old \<and> ms_context old = c \<and> owns l old) m
          in (taskReply txn task 0 (Some (w_blobv i, 1)), m(i \<mapsto> s)))"

definition createSession ::
    "int \<Rightarrow> bytes \<Rightarrow> lobbyUser \<Rightarrow> bytes \<Rightarrow> u64 \<Rightarrow> byte \<Rightarrow> bdReader \<Rightarrow> sessions \<Rightarrow> bytes \<times> sessions" where
  "createSession now i l c txn task r m =
     (case readContextInfo c r of
        (Inl _, _) \<Rightarrow> (taskReply txn task errUnhandled None, m)
      | (Inr info, _) \<Rightarrow>
          let s = publish now l info
                    \<lparr>ms_context = c, ms_id = i, ms_owner = 0, ms_ownerPID = 0, ms_orphaned = 0,
                     ms_hostAddr = [], ms_gameType = 0, ms_maxPlayers = 0, ms_numPlayers = 1,
                     ms_attrs = [], ms_updated = 0, ms_reserved = False\<rparr>;
              m = (if pid l \<noteq> 0
                   then remove_if (\<lambda>prev. ms_ownerPID prev = pid l \<and> ms_context prev = c) m
                   else m)
          in (taskReply txn task 0 (Some (w_blobv i, 1)), m(i \<mapsto> s)))"

definition updateSession ::
    "int \<Rightarrow> lobbyUser \<Rightarrow> bytes \<Rightarrow> u64 \<Rightarrow> byte \<Rightarrow> bdReader \<Rightarrow> sessions \<Rightarrow> bytes \<times> sessions" where
  "updateSession now l c txn task r m =
     (case rd_blob r of
        (Inl _, _) \<Rightarrow> (taskReply txn task 0 None, m)
      | (Inr i, r) \<Rightarrow>
          if length i \<noteq> 8 then (taskReply txn task 0 None, m)
          else
            (case readContextInfo c r of
               (Inl _, _) \<Rightarrow> (taskReply txn task 0 None, m)
             | (Inr info, _) \<Rightarrow>
                 (case m i of
                    Some s \<Rightarrow>
                      if ms_context s = c \<and> owns l s then
                        let s = publish now l info s;
                            s = (if task = mmInitializeSession
                                 then s\<lparr>ms_reserved := False, ms_numPlayers := 1\<rparr> else s)
                        in (taskReply txn task 0 None, m(i \<mapsto> s))
                      else (taskReply txn task errUnhandled None, m)
                  | None \<Rightarrow> (taskReply txn task errUnhandled None, m))))"

definition updatePlayers ::
    "int \<Rightarrow> lobbyUser \<Rightarrow> bytes \<Rightarrow> u64 \<Rightarrow> byte \<Rightarrow> bdReader \<Rightarrow> sessions \<Rightarrow> bytes \<times> sessions" where
  "updatePlayers now l c txn task r m =
     (case rd_blob r of
        (Inl _, _) \<Rightarrow> (taskReply txn task 0 None, m)
      | (Inr i, r) \<Rightarrow>
          if length i \<noteq> 8 then (taskReply txn task 0 None, m)
          else
            (case rd_u32 r of (n, r) \<Rightarrow>
              let players = (case n of Inl _ \<Rightarrow> 0 | Inr v \<Rightarrow> v) in
              (case (m i, readContextInfo c r) of
                 (Some s, (info, _)) \<Rightarrow>
                   if ms_context s = c \<and> owns l s then
                     let s = (case info of Inl _ \<Rightarrow> s | Inr x \<Rightarrow> publish now l x s);
                         s = s\<lparr>ms_owner := lu_n l, ms_ownerPID := pid l,
                               ms_numPlayers := players, ms_updated := now\<rparr>
                     in (taskReply txn task 0 None, m(i \<mapsto> s))
                   else (taskReply txn task 0 None, m)
               | (None, _) \<Rightarrow> (taskReply txn task 0 None, m))))"

definition deleteSession ::
    "lobbyUser \<Rightarrow> bytes \<Rightarrow> u64 \<Rightarrow> byte \<Rightarrow> bdReader \<Rightarrow> sessions \<Rightarrow> bytes \<times> sessions" where
  "deleteSession l c txn task r m =
     (case rd_blob r of
        (Inl _, _) \<Rightarrow> (taskReply txn task 0 None, m)
      | (Inr i, _) \<Rightarrow>
          if length i \<noteq> 8 then (taskReply txn task 0 None, m)
          else
            (case m i of
               Some s \<Rightarrow>
                 if ms_context s = c \<and> owns l s then (taskReply txn task 0 None, m(i := None))
                 else (taskReply txn task 0 None, m)
             | None \<Rightarrow> (taskReply txn task 0 None, m)))"

subsection \<open>Finding games\<close>

text \<open>One result: the host's address (with a relay slot, perhaps), the identifier and the information.\<close>

definition session_result ::
    "(bytes \<Rightarrow> u64 \<Rightarrow> u64 \<Rightarrow> relayTable \<Rightarrow> bytes \<times> relayTable) \<Rightarrow> lobbyUser \<Rightarrow> mmSession \<Rightarrow>
     relayTable \<Rightarrow> bytes \<times> relayTable" where
  "session_result rel l s t =
     (case rel (ms_hostAddr s) (ms_ownerPID s) (pid l) t of
        (addr, t) \<Rightarrow>
          (w_blobv addr @ w_blobv (ms_id s) @ w_u32 (ms_gameType s) @ w_u32 (ms_maxPlayers s) @
           w_u32 (ms_numPlayers s) @ ms_attrs s, t))"

fun session_results ::
    "(bytes \<Rightarrow> u64 \<Rightarrow> u64 \<Rightarrow> relayTable \<Rightarrow> bytes \<times> relayTable) \<Rightarrow> lobbyUser \<Rightarrow> mmSession list \<Rightarrow>
     relayTable \<Rightarrow> bytes \<times> relayTable" where
  "session_results rel l [] t = ([], t)"
| "session_results rel l (s # ss) t =
     (case session_result rel l s t of
        (b, t) \<Rightarrow> (case session_results rel l ss t of (bs, t) \<Rightarrow> (b @ bs, t)))"

definition rd_u32_or0 :: "bdReader \<Rightarrow> u32 \<times> bdReader" where
  "rd_u32_or0 r = (case rd_u32 r of (Inl _, r) \<Rightarrow> (0, r) | (Inr v, r) \<Rightarrow> (v, r))"

definition visible :: "lobbyUser \<Rightarrow> bytes \<Rightarrow> mmSession \<Rightarrow> bool" where
  "visible l c s \<longleftrightarrow> \<not> owns l s \<and> ms_context s = c \<and> \<not> ms_reserved s"

text \<open>The sessions found, for the order in which the table was walked.\<close>

definition found_sessions ::
    "bytes list \<Rightarrow> lobbyUser \<Rightarrow> bytes \<Rightarrow> u32 \<Rightarrow> u32 \<Rightarrow> sessions \<Rightarrow> mmSession list" where
  "found_sessions order l c start mx m =
     (let found = filter (visible l c) (List.map_filter m order);
          found = (if unat start < length found then drop (unat start) found else [])
      in if length found > unat mx then take (unat mx) found else found)"

definition findSessions ::
    "(bytes \<Rightarrow> u64 \<Rightarrow> u64 \<Rightarrow> relayTable \<Rightarrow> bytes \<times> relayTable) \<Rightarrow> bytes list \<Rightarrow> lobbyUser \<Rightarrow>
     bytes \<Rightarrow> u64 \<Rightarrow> byte \<Rightarrow> bdReader \<Rightarrow> sessions \<Rightarrow> relayTable \<Rightarrow> bytes \<times> relayTable" where
  "findSessions rel order l c txn task r m t =
     (case rd_u32_or0 r of (query, r) \<Rightarrow>
      case rd_u32_or0 r of (start, r) \<Rightarrow>
      case rd_u32_or0 r of (maxr, r) \<Rightarrow>
        let maxr = (if maxr = 0 \<or> maxr > 50 then 50 else maxr);
            found = found_sessions order l c start maxr m
        in case session_results rel l found t of
             (body, t) \<Rightarrow> (taskReply txn task 0 (Some (body, of_nat (length found))), t))"

text \<open>The whole handler: \<open>None\<close> is Go's nil, for a task the service does not handle.\<close>

definition onMatchMakingContext ::
    "(bytes \<Rightarrow> u64 \<Rightarrow> u64 \<Rightarrow> relayTable \<Rightarrow> bytes \<times> relayTable) \<Rightarrow> bytes list \<Rightarrow> int \<Rightarrow> bytes option \<Rightarrow>
     u64 \<Rightarrow> lobbyUser \<Rightarrow> bytes \<Rightarrow> byte \<Rightarrow> bdReader \<Rightarrow> sessions \<Rightarrow> relayTable \<Rightarrow>
     bytes option \<times> sessions \<times> relayTable" where
  "onMatchMakingContext rel order now rid txn l c task r m t =
     (if task = mmRequestSessionID then
        (case reserveSession now rid l c txn task m of (b, m) \<Rightarrow> (Some b, m, t))
      else if task = mmCreateSession then
        (case createSession now (case rid of None \<Rightarrow> replicate 8 0 | Some i \<Rightarrow> i) l c txn task r m of
           (b, m) \<Rightarrow> (Some b, m, t))
      else if task = mmUpdateSession \<or> task = mmInitializeSession then
        (case updateSession now l c txn task r m of (b, m) \<Rightarrow> (Some b, m, t))
      else if task = mmUpdatePlayers then
        (case updatePlayers now l c txn task r m of (b, m) \<Rightarrow> (Some b, m, t))
      else if task = mmDeleteSession then
        (case deleteSession l c txn task r m of (b, m) \<Rightarrow> (Some b, m, t))
      else if task = mmFindSessions then
        (case findSessions rel order l c txn task r m t of (b, t) \<Rightarrow> (Some b, m, t))
      else (None, m, t))"

definition onMatchMaking where
  "onMatchMaking rel order now rid txn l = onMatchMakingContext rel order now rid txn l (lit ''d3'')"

subsection \<open>Games of friends\<close>

fun friend_scan :: "u64 \<Rightarrow> bytes \<Rightarrow> mmSession list \<Rightarrow> bytes set \<Rightarrow> mmSession list \<times> bytes set" where
  "friend_scan p c [] seen = ([], seen)"
| "friend_scan p c (s # ss) seen =
     (if ms_ownerPID s = p \<and> ms_context s = c \<and> \<not> ms_reserved s \<and> ms_id s \<notin> seen
      then case friend_scan p c ss (insert (ms_id s) seen) of (hits, seen) \<Rightarrow> (s # hits, seen)
      else friend_scan p c ss seen)"

text \<open>\<open>pidOnline\<close> resolves an identifier to the PID of a connected player, or 0.\<close>

fun friend_loop ::
    "(u64 \<Rightarrow> u64) \<Rightarrow> u64 \<Rightarrow> bytes \<Rightarrow> mmSession list \<Rightarrow> u64 list \<Rightarrow> bytes set \<Rightarrow> mmSession list" where
  "friend_loop pidOnline me c ss [] seen = []"
| "friend_loop pidOnline me c ss (i # is) seen =
     (let p = pidOnline i; p = (if p = 0 then i else p) in
      if p = me then friend_loop pidOnline me c ss is seen
      else case friend_scan p c ss seen of
             (hits, seen) \<Rightarrow> hits @ friend_loop pidOnline me c ss is seen)"

definition onFriendSessions ::
    "(bytes \<Rightarrow> u64 \<Rightarrow> u64 \<Rightarrow> relayTable \<Rightarrow> bytes \<times> relayTable) \<Rightarrow> bytes list \<Rightarrow> (u64 \<Rightarrow> u64) \<Rightarrow> u64 \<Rightarrow>
     lobbyUser \<Rightarrow> bytes \<Rightarrow> byte \<Rightarrow> bdReader \<Rightarrow> sessions \<Rightarrow> relayTable \<Rightarrow> bytes \<times> relayTable" where
  "onFriendSessions rel order pidOnline txn l c task r m t =
     (let found = friend_loop pidOnline (pid l) c (List.map_filter m order) (rd_u64s r) {} in
      case session_results rel l found t of
        (body, t) \<Rightarrow> (taskReply txn task 0 (Some (body, of_nat (length found))), t))"

end
