(* ===== verification/MatchProps.thy ===== *)
theory MatchProps
  imports MatchMaking
begin

text \<open>
  What bdMatchMaking guarantees: a game is changed by its host only, a search returns exactly the
  games it should, a host has one game per title, and a game survives its host's reconnection.
\<close>

lemma remove_if_keep: "m i = Some s \<Longrightarrow> \<not> P s \<Longrightarrow> remove_if P m i = Some s"
  by (simp add: remove_if_def)

lemma remove_if_Some: "remove_if P m i = Some s \<longleftrightarrow> m i = Some s \<and> \<not> P s"
  by (auto simp: remove_if_def split: option.splits)

lemmas mm_task_defs = mmCreateSession_def mmUpdateSession_def mmDeleteSession_def
  mmFindSessions_def mmUpdatePlayers_def mmRequestSessionID_def mmInitializeSession_def

text \<open>A session that is not the caller's, or not of the caller's context, is left alone by each task.\<close>

definition foreign :: "lobbyUser \<Rightarrow> bytes \<Rightarrow> mmSession \<Rightarrow> bool" where
  "foreign l c s \<longleftrightarrow> \<not> owns l s \<or> ms_context s \<noteq> c"

lemma foreign_reserve:
  "m i = Some s \<Longrightarrow> foreign l c s \<Longrightarrow> rid \<noteq> Some i \<Longrightarrow> snd (reserveSession now rid l c txn task m) i = Some s"
  by (auto simp: reserveSession_def Let_def foreign_def remove_if_Some split: option.splits)

lemma foreign_create:
  "m i = Some s \<Longrightarrow> foreign l c s \<Longrightarrow> j \<noteq> i \<Longrightarrow> snd (createSession now j l c txn task r m) i = Some s"
  by (auto simp: createSession_def Let_def foreign_def owns_def remove_if_Some
      split: option.splits sum.splits prod.splits)

lemma foreign_update:
  "m i = Some s \<Longrightarrow> foreign l c s \<Longrightarrow> snd (updateSession now l c txn task r m) i = Some s"
  by (auto simp: updateSession_def Let_def foreign_def split: option.splits sum.splits prod.splits)

lemma foreign_players:
  "m i = Some s \<Longrightarrow> foreign l c s \<Longrightarrow> snd (updatePlayers now l c txn task r m) i = Some s"
  by (auto simp: updatePlayers_def Let_def foreign_def split: option.splits sum.splits prod.splits)

lemma foreign_delete:
  "m i = Some s \<Longrightarrow> foreign l c s \<Longrightarrow> snd (deleteSession l c txn task r m) i = Some s"
  by (auto simp: deleteSession_def foreign_def split: option.splits sum.splits prod.splits)

text \<open>C17: No task of a connection changes or removes a game that the connection does not own, or
  that belongs to another title or context: it stays in the table exactly as it was (the new
  random identifier differing from the game's).\<close>

theorem mm_only_the_host_changes_a_game:
  assumes "m i = Some s" and "\<not> owns l s \<or> ms_context s \<noteq> c" and "rid \<noteq> Some i" and "i \<noteq> replicate 8 0"
  shows "fst (snd (onMatchMakingContext rel order now rid txn l c task r m t)) i = Some s"
proof -
  have f: "foreign l c s" using assms(2) by (simp add: foreign_def)
  have j: "(case rid of None \<Rightarrow> replicate 8 0 | Some j \<Rightarrow> j) \<noteq> i"
    using assms(3,4) by (auto split: option.splits)
  show ?thesis
    unfolding onMatchMakingContext_def
    by (simp add: case_prod_beta foreign_reserve foreign_create foreign_update foreign_players
        foreign_delete f j assms(1,3))
qed

definition ex_host :: lobbyUser where
  "ex_host = \<lparr>lu_n = 1, lu_player = Some \<lparr>pl_username = ''a'', pl_pid = 11, pl_sub = '''',
                pl_kind = '''', pl_title = 5745\<rparr>\<rparr>"

definition ex_guest :: lobbyUser where
  "ex_guest = \<lparr>lu_n = 2, lu_player = Some \<lparr>pl_username = ''b'', pl_pid = 22, pl_sub = '''',
                pl_kind = '''', pl_title = 5745\<rparr>\<rparr>"

definition ex_game :: mmSession where
  "ex_game = \<lparr>ms_context = lit ''d3'', ms_id = replicate 8 7, ms_owner = 1, ms_ownerPID = 11,
              ms_orphaned = 0, ms_hostAddr = [1, 2], ms_gameType = 3, ms_maxPlayers = 4,
              ms_numPlayers = 1, ms_attrs = [9], ms_updated = 0, ms_reserved = False\<rparr>"

lemma ex_not_owner: "\<not> owns ex_guest ex_game"
  by (simp add: owns_def ex_guest_def ex_game_def pid_def)

lemma mm_only_the_host_changes_a_game_witness:
  "fst (snd (onMatchMakingContext (\<lambda>a _ _ t. (a, t)) [] 0 None 0 ex_guest (lit ''d3'') mmDeleteSession
     \<lparr>rbuf = w_blobv (replicate 8 7), roff = 0\<rparr> [replicate 8 7 \<mapsto> ex_game]
     \<lparr>rt_pairs = (\<lambda>_. None), rt_byPort = (\<lambda>_. None), rt_low = 0, rt_high = 0, rt_next = 0,
      rt_ip = (0, 0, 0, 0)\<rparr>)) (replicate 8 7) = Some ex_game"
  using ex_not_owner by (intro mm_only_the_host_changes_a_game) simp_all

text \<open>The identifiers of the games a searcher may be shown, in the order of the walk, and how many
  the code hands out for the number asked for.\<close>

definition shown_ids :: "bytes list \<Rightarrow> lobbyUser \<Rightarrow> bytes \<Rightarrow> sessions \<Rightarrow> bytes list" where
  "shown_ids order l c m =
     filter (\<lambda>i. case m i of None \<Rightarrow> False
        | Some s \<Rightarrow> \<not> owns l s \<and> ms_context s = c \<and> \<not> ms_reserved s) order"

definition page_size :: "u32 \<Rightarrow> nat" where
  "page_size mx = (if mx = 0 \<or> unat mx > 50 then 50 else unat mx)"

lemma shown_games:
  "filter (visible l c) (List.map_filter m order) = map (\<lambda>i. the (m i)) (shown_ids order l c m)"
  by (induction order) (auto simp: shown_ids_def List.map_filter_simps visible_def split: option.splits)

lemma found_sessions_page:
  "found_sessions order l c start mx m =
   map (\<lambda>i. the (m i)) (take (unat mx) (drop (unat start) (shown_ids order l c m)))"
  by (auto simp: found_sessions_def shown_games Let_def drop_map take_map)

lemma rd_u32_or0_get:
  "remaining r = w_u32 v @ rest \<Longrightarrow> rd_u32_or0 r = (v, advance (length (w_u32 v)) r)"
  using u32.get_put [OF TrueI] by (simp add: rd_u32_or0_def)

text \<open>C18: A search names a place to start and a number of games. The games it may show are those of
  the table that the searcher does not own, that are of the context and that are published, each
  once, in the order in which the table was walked. The reply lists exactly those from the asked
  place on, as many as asked for (50, when nothing or more than 50 was asked for) or as there are,
  and its count is their number. The table stays as it is.\<close>

theorem mm_find_sound_and_complete:
  fixes l c
  assumes "remaining r = w_u32 query @ w_u32 start @ w_u32 mx @ filters"
    and "distinct order" and "set order = dom m"
  defines "games \<equiv> map (\<lambda>i. the (m i)) (take (page_size mx) (drop (unat start) (shown_ids order l c m)))"
  shows "distinct (shown_ids order l c m) \<and>
    set (shown_ids order l c m) = {i. \<exists>s. m i = Some s \<and> \<not> owns l s \<and> ms_context s = c \<and> \<not> ms_reserved s} \<and>
    length games = min (page_size mx) (length (shown_ids order l c m) - unat start) \<and>
    onMatchMakingContext rel order now rid txn l c mmFindSessions r m t =
      (Some (taskReply txn mmFindSessions 0
         (Some (fst (session_results rel l games t), of_nat (length games)))), m,
       snd (session_results rel l games t))"
proof -
  note 1 = remaining_advance [OF assms(1)]
  note 2 = remaining_advance [OF 1]
  have mx: "unat (if mx = 0 \<or> mx > 50 then 50 else mx) = page_size mx"
    by (auto simp: page_size_def word_less_nat_alt)
  have "onMatchMakingContext rel order now rid txn l c mmFindSessions r m t =
      (case findSessions rel order l c txn mmFindSessions r m t of (b, t) \<Rightarrow> (Some b, m, t))"
    by (simp add: onMatchMakingContext_def mm_task_defs)
  also have "findSessions rel order l c txn mmFindSessions r m t =
      (case session_results rel l games t of
         (body, t) \<Rightarrow> (taskReply txn mmFindSessions 0 (Some (body, of_nat (length games))), t))"
    unfolding findSessions_def rd_u32_or0_get [OF assms(1)] rd_u32_or0_get [OF 1] rd_u32_or0_get [OF 2]
      found_sessions_page Let_def prod.case mx games_def ..
  finally show ?thesis
    using assms(2,3) by (auto simp: shown_ids_def games_def split: option.splits prod.splits)
qed

lemma mm_find_sound_and_complete_witness:
  "\<exists>body t'. onMatchMakingContext (\<lambda>a _ _ t. (a, t)) [replicate 8 7] 0 None 9 ex_guest (lit ''d3'')
     mmFindSessions \<lparr>rbuf = w_u32 0 @ w_u32 0 @ w_u32 50 @ [], roff = 0\<rparr> [replicate 8 7 \<mapsto> ex_game]
     \<lparr>rt_pairs = (\<lambda>_. None), rt_byPort = (\<lambda>_. None), rt_low = 0, rt_high = 0, rt_next = 0,
      rt_ip = (0, 0, 0, 0)\<rparr> =
     (Some (taskReply 9 mmFindSessions 0 (Some (body, 1))), [replicate 8 7 \<mapsto> ex_game], t')"
proof -
  have ids: "shown_ids [replicate 8 7] ex_guest (lit ''d3'') [replicate 8 7 \<mapsto> ex_game] = [replicate 8 7]"
    using ex_not_owner by (simp add: shown_ids_def) (simp add: ex_game_def)
  show ?thesis
    using mm_find_sound_and_complete [of "\<lparr>rbuf = w_u32 0 @ w_u32 0 @ w_u32 50 @ [], roff = 0\<rparr>" 0 0 50 "[]"
        "[replicate 8 7]" "[replicate 8 7 \<mapsto> ex_game]" ex_guest "lit ''d3''"]
    by (simp add: ids page_size_def) blast
qed

text \<open>After a host with an account creates a game, that game is the only one of its account in
  this context, and it carries the address, type, size and attributes that the host sent, byte for
  byte.\<close>

theorem mm_create_replaces_and_publishes:
  assumes "pid l \<noteq> 0" and "\<not> ctr_context c" and "length host < 2 ^ 32"
    and "remaining r = w_blobv host @ w_u32 gt @ w_u32 mx @ attrs @ [0]"
    and m'_def: "m' = snd (createSession now i l c txn task r m)"
  shows "(\<exists>s. m' i = Some s \<and> ms_hostAddr s = host \<and> ms_gameType s = gt \<and> ms_maxPlayers s = mx \<and>
      ms_attrs s = attrs \<and> ms_numPlayers s = 1 \<and> ms_owner s = lu_n l \<and> ms_ownerPID s = pid l \<and>
      \<not> ms_reserved s \<and> ms_context s = c) \<and>
    (\<forall>j s. m' j = Some s \<longrightarrow> ms_ownerPID s = pid l \<longrightarrow> ms_context s = c \<longrightarrow> j = i)"
proof -
  note 1 = remaining_advance [OF assms(4)]
  note 2 = remaining_advance [OF 1]
  note 3 = remaining_advance [OF 2]
  have b: "rd_blob r = (Inr host, advance (length (w_blobv host)) r)"
    by (rule blob.get_put [OF assms(3,4)])
  note g1 = u32.get_put [OF TrueI 1] and g2 = u32.get_put [OF TrueI 2]
  have "rd_rest (advance (length (w_u32 mx)) (advance (length (w_u32 gt))
      (advance (length (w_blobv host)) r))) = attrs"
    unfolding rd_rest_def 3 by (simp add: Let_def butlast_append)
  then have info: "\<exists>r'. readContextInfo c r =
      (Inr \<lparr>mi_host = host, mi_gameType = gt, mi_maxPlayers = mx, mi_attrs = attrs\<rparr>, r')"
    using b g1 g2 assms(2) by (simp add: readContextInfo_def readInfo_def)
  then obtain r' where info: "readContextInfo c r =
      (Inr \<lparr>mi_host = host, mi_gameType = gt, mi_maxPlayers = mx, mi_attrs = attrs\<rparr>, r')" by blast
  show ?thesis
    using info assms(1)
    by (auto simp: m'_def createSession_def Let_def publish_def remove_if_Some split: if_splits)
qed

lemma mm_create_replaces_and_publishes_witness:
  "\<exists>s. snd (createSession 0 (replicate 8 1) ex_host (lit ''d3'') 0 mmCreateSession
      \<lparr>rbuf = w_blobv [5, 6] @ w_u32 1 @ w_u32 4 @ [8, 8] @ [0], roff = 0\<rparr>
      [replicate 8 7 \<mapsto> ex_game]) (replicate 8 1) = Some s \<and> ms_attrs s = [8, 8]"
  using mm_create_replaces_and_publishes [where l = ex_host and c = "lit ''d3''" and
      host = "[5, 6]" and gt = 1 and mx = 4 and attrs = "[8, 8]" and
      r = "\<lparr>rbuf = w_blobv [5, 6] @ w_u32 1 @ w_u32 4 @ [8, 8] @ [0], roff = 0\<rparr>" and
      now = 0 and i = "replicate 8 1" and txn = 0 and task = mmCreateSession and
      m = "[replicate 8 7 \<mapsto> ex_game]", OF _ _ _ _ refl]
  by (auto simp: ex_host_def pid_def ctr_context_def lit_def)

text \<open>When the connection of a host with an account closes, its game stays and, for two minutes,
  no sweep removes it; a new connection of the same account owns it, so its updates are accepted. A sweep after the two minutes removes it.\<close>

theorem mm_game_survives_reconnection:
  assumes "m i = Some s" and "ms_owner s = conn" and "conn \<noteq> 0" and "ms_ownerPID s \<noteq> 0"
    and "pid l' = ms_ownerPID s"
    and m1_def: "m1 = dropSessionsOf t0 conn m"
  shows "(\<exists>s1. m1 i = Some s1 \<and> ms_owner s1 = 0 \<and> owns l' s1 \<and>
      (\<forall>now. now - t0 \<le> orphanGrace \<longrightarrow> reapSessionsOnce now m1 i = Some s1) \<and>
      (\<forall>now. now - t0 > orphanGrace \<longrightarrow> reapSessionsOnce now m1 i = None))"
  using assms
  by (auto simp: m1_def dropSessionsOf_def owns_def reapSessionsOnce_def remove_if_def)

lemma mm_game_survives_reconnection_witness:
  "\<exists>s1. dropSessionsOf 5 1 [replicate 8 7 \<mapsto> ex_game] (replicate 8 7) = Some s1 \<and>
     reapSessionsOnce 100 (dropSessionsOf 5 1 [replicate 8 7 \<mapsto> ex_game]) (replicate 8 7) = Some s1"
  using mm_game_survives_reconnection [where m = "[replicate 8 7 \<mapsto> ex_game]" and
      i = "replicate 8 7" and s = ex_game and conn = 1 and l' = ex_host and ?t0.0 = 5, OF _ _ _ _ _ refl]
  by (auto simp: ex_game_def ex_host_def pid_def orphanGrace_def)

end
