(* ===== verification/Aes.thy ===== *)
theory Aes
  imports Prelude
begin

text \<open>
  AES as Go's \<open>crypto/aes\<close> computes it (FIPS 197), for keys of 16, 24 and 32 bytes, on a state of
  16 bytes in column order, and the proof that decryption inverts encryption. The two cancel
  step by step: the S-box tables are inverse to each other, the row shifts are inverse
  permutations, and the column mixes cancel by linearity of \<open>xtime\<close> alone, since the product of the
  two polynomial matrices is the identity before any reduction.
\<close>

definition sbox :: bytes where
  "sbox =
    [0x63, 0x7C, 0x77, 0x7B, 0xF2, 0x6B, 0x6F, 0xC5, 0x30, 0x01, 0x67, 0x2B,
     0xFE, 0xD7, 0xAB, 0x76, 0xCA, 0x82, 0xC9, 0x7D, 0xFA, 0x59, 0x47, 0xF0,
     0xAD, 0xD4, 0xA2, 0xAF, 0x9C, 0xA4, 0x72, 0xC0, 0xB7, 0xFD, 0x93, 0x26,
     0x36, 0x3F, 0xF7, 0xCC, 0x34, 0xA5, 0xE5, 0xF1, 0x71, 0xD8, 0x31, 0x15,
     0x04, 0xC7, 0x23, 0xC3, 0x18, 0x96, 0x05, 0x9A, 0x07, 0x12, 0x80, 0xE2,
     0xEB, 0x27, 0xB2, 0x75, 0x09, 0x83, 0x2C, 0x1A, 0x1B, 0x6E, 0x5A, 0xA0,
     0x52, 0x3B, 0xD6, 0xB3, 0x29, 0xE3, 0x2F, 0x84, 0x53, 0xD1, 0x00, 0xED,
     0x20, 0xFC, 0xB1, 0x5B, 0x6A, 0xCB, 0xBE, 0x39, 0x4A, 0x4C, 0x58, 0xCF,
     0xD0, 0xEF, 0xAA, 0xFB, 0x43, 0x4D, 0x33, 0x85, 0x45, 0xF9, 0x02, 0x7F,
     0x50, 0x3C, 0x9F, 0xA8, 0x51, 0xA3, 0x40, 0x8F, 0x92, 0x9D, 0x38, 0xF5,
     0xBC, 0xB6, 0xDA, 0x21, 0x10, 0xFF, 0xF3, 0xD2, 0xCD, 0x0C, 0x13, 0xEC,
     0x5F, 0x97, 0x44, 0x17, 0xC4, 0xA7, 0x7E, 0x3D, 0x64, 0x5D, 0x19, 0x73,
     0x60, 0x81, 0x4F, 0xDC, 0x22, 0x2A, 0x90, 0x88, 0x46, 0xEE, 0xB8, 0x14,
     0xDE, 0x5E, 0x0B, 0xDB, 0xE0, 0x32, 0x3A, 0x0A, 0x49, 0x06, 0x24, 0x5C,
     0xC2, 0xD3, 0xAC, 0x62, 0x91, 0x95, 0xE4, 0x79, 0xE7, 0xC8, 0x37, 0x6D,
     0x8D, 0xD5, 0x4E, 0xA9, 0x6C, 0x56, 0xF4, 0xEA, 0x65, 0x7A, 0xAE, 0x08,
     0xBA, 0x78, 0x25, 0x2E, 0x1C, 0xA6, 0xB4, 0xC6, 0xE8, 0xDD, 0x74, 0x1F,
     0x4B, 0xBD, 0x8B, 0x8A, 0x70, 0x3E, 0xB5, 0x66, 0x48, 0x03, 0xF6, 0x0E,
     0x61, 0x35, 0x57, 0xB9, 0x86, 0xC1, 0x1D, 0x9E, 0xE1, 0xF8, 0x98, 0x11,
     0x69, 0xD9, 0x8E, 0x94, 0x9B, 0x1E, 0x87, 0xE9, 0xCE, 0x55, 0x28, 0xDF,
     0x8C, 0xA1, 0x89, 0x0D, 0xBF, 0xE6, 0x42, 0x68, 0x41, 0x99, 0x2D, 0x0F,
     0xB0, 0x54, 0xBB, 0x16]"

definition inv_sbox :: bytes where
  "inv_sbox =
    [0x52, 0x09, 0x6A, 0xD5, 0x30, 0x36, 0xA5, 0x38, 0xBF, 0x40, 0xA3, 0x9E,
     0x81, 0xF3, 0xD7, 0xFB, 0x7C, 0xE3, 0x39, 0x82, 0x9B, 0x2F, 0xFF, 0x87,
     0x34, 0x8E, 0x43, 0x44, 0xC4, 0xDE, 0xE9, 0xCB, 0x54, 0x7B, 0x94, 0x32,
     0xA6, 0xC2, 0x23, 0x3D, 0xEE, 0x4C, 0x95, 0x0B, 0x42, 0xFA, 0xC3, 0x4E,
     0x08, 0x2E, 0xA1, 0x66, 0x28, 0xD9, 0x24, 0xB2, 0x76, 0x5B, 0xA2, 0x49,
     0x6D, 0x8B, 0xD1, 0x25, 0x72, 0xF8, 0xF6, 0x64, 0x86, 0x68, 0x98, 0x16,
     0xD4, 0xA4, 0x5C, 0xCC, 0x5D, 0x65, 0xB6, 0x92, 0x6C, 0x70, 0x48, 0x50,
     0xFD, 0xED, 0xB9, 0xDA, 0x5E, 0x15, 0x46, 0x57, 0xA7, 0x8D, 0x9D, 0x84,
     0x90, 0xD8, 0xAB, 0x00, 0x8C, 0xBC, 0xD3, 0x0A, 0xF7, 0xE4, 0x58, 0x05,
     0xB8, 0xB3, 0x45, 0x06, 0xD0, 0x2C, 0x1E, 0x8F, 0xCA, 0x3F, 0x0F, 0x02,
     0xC1, 0xAF, 0xBD, 0x03, 0x01, 0x13, 0x8A, 0x6B, 0x3A, 0x91, 0x11, 0x41,
     0x4F, 0x67, 0xDC, 0xEA, 0x97, 0xF2, 0xCF, 0xCE, 0xF0, 0xB4, 0xE6, 0x73,
     0x96, 0xAC, 0x74, 0x22, 0xE7, 0xAD, 0x35, 0x85, 0xE2, 0xF9, 0x37, 0xE8,
     0x1C, 0x75, 0xDF, 0x6E, 0x47, 0xF1, 0x1A, 0x71, 0x1D, 0x29, 0xC5, 0x89,
     0x6F, 0xB7, 0x62, 0x0E, 0xAA, 0x18, 0xBE, 0x1B, 0xFC, 0x56, 0x3E, 0x4B,
     0xC6, 0xD2, 0x79, 0x20, 0x9A, 0xDB, 0xC0, 0xFE, 0x78, 0xCD, 0x5A, 0xF4,
     0x1F, 0xDD, 0xA8, 0x33, 0x88, 0x07, 0xC7, 0x31, 0xB1, 0x12, 0x10, 0x59,
     0x27, 0x80, 0xEC, 0x5F, 0x60, 0x51, 0x7F, 0xA9, 0x19, 0xB5, 0x4A, 0x0D,
     0x2D, 0xE5, 0x7A, 0x9F, 0x93, 0xC9, 0x9C, 0xEF, 0xA0, 0xE0, 0x3B, 0x4D,
     0xAE, 0x2A, 0xF5, 0xB0, 0xC8, 0xEB, 0xBB, 0x3C, 0x83, 0x53, 0x99, 0x61,
     0x17, 0x2B, 0x04, 0x7E, 0xBA, 0x77, 0xD6, 0x26, 0xE1, 0x69, 0x14, 0x63,
     0x55, 0x21, 0x0C, 0x7D]"

definition sub_byte :: "byte \<Rightarrow> byte" where "sub_byte b = sbox ! unat b"
definition inv_sub_byte :: "byte \<Rightarrow> byte" where "inv_sub_byte b = inv_sbox ! unat b"

subsection \<open>The rounds\<close>

definition xtime :: "byte \<Rightarrow> byte" where
  "xtime b = push_bit 1 b XOR (if bit b 7 then 0x1B else 0)"

text \<open>A column of the state.\<close>

type_synonym col = "byte \<times> byte \<times> byte \<times> byte"

definition mix_col :: "col \<Rightarrow> col" where
  "mix_col c = (case c of (a, b, c, d) \<Rightarrow>
     (xtime a XOR (xtime b XOR b) XOR c XOR d,
      a XOR xtime b XOR (xtime c XOR c) XOR d,
      a XOR b XOR xtime c XOR (xtime d XOR d),
      (xtime a XOR a) XOR b XOR c XOR xtime d))"

definition mul9 :: "byte \<Rightarrow> byte" where "mul9 b = xtime (xtime (xtime b)) XOR b"
definition mul11 :: "byte \<Rightarrow> byte" where "mul11 b = xtime (xtime (xtime b)) XOR xtime b XOR b"
definition mul13 :: "byte \<Rightarrow> byte" where
  "mul13 b = xtime (xtime (xtime b)) XOR xtime (xtime b) XOR b"
definition mul14 :: "byte \<Rightarrow> byte" where
  "mul14 b = xtime (xtime (xtime b)) XOR xtime (xtime b) XOR xtime b"

definition inv_mix_col :: "col \<Rightarrow> col" where
  "inv_mix_col c = (case c of (a, b, c, d) \<Rightarrow>
     (mul14 a XOR mul11 b XOR mul13 c XOR mul9 d,
      mul9 a XOR mul14 b XOR mul11 c XOR mul13 d,
      mul13 a XOR mul9 b XOR mul14 c XOR mul11 d,
      mul11 a XOR mul13 b XOR mul9 c XOR mul14 d))"

text \<open>The state: four columns. \<open>shift_rows\<close> moves row \<open>i\<close> by \<open>i\<close> columns.\<close>

type_synonym aes_state = "col \<times> col \<times> col \<times> col"

definition map_state :: "(byte \<Rightarrow> byte) \<Rightarrow> aes_state \<Rightarrow> aes_state" where
  "map_state f s = (case s of ((a0, a1, a2, a3), (b0, b1, b2, b3), (c0, c1, c2, c3), (d0, d1, d2, d3)) \<Rightarrow>
     ((f a0, f a1, f a2, f a3), (f b0, f b1, f b2, f b3), (f c0, f c1, f c2, f c3),
      (f d0, f d1, f d2, f d3)))"

definition shift_rows :: "aes_state \<Rightarrow> aes_state" where
  "shift_rows s = (case s of ((a0, a1, a2, a3), (b0, b1, b2, b3), (c0, c1, c2, c3), (d0, d1, d2, d3)) \<Rightarrow>
     ((a0, b1, c2, d3), (b0, c1, d2, a3), (c0, d1, a2, b3), (d0, a1, b2, c3)))"

definition inv_shift_rows :: "aes_state \<Rightarrow> aes_state" where
  "inv_shift_rows s = (case s of ((a0, a1, a2, a3), (b0, b1, b2, b3), (c0, c1, c2, c3), (d0, d1, d2, d3)) \<Rightarrow>
     ((a0, d1, c2, b3), (b0, a1, d2, c3), (c0, b1, a2, d3), (d0, c1, b2, a3)))"

definition mix_columns :: "aes_state \<Rightarrow> aes_state" where
  "mix_columns s = (case s of (a, b, c, d) \<Rightarrow> (mix_col a, mix_col b, mix_col c, mix_col d))"

definition inv_mix_columns :: "aes_state \<Rightarrow> aes_state" where
  "inv_mix_columns s =
     (case s of (a, b, c, d) \<Rightarrow> (inv_mix_col a, inv_mix_col b, inv_mix_col c, inv_mix_col d))"

definition xor_col :: "col \<Rightarrow> col \<Rightarrow> col" where
  "xor_col x y = (case (x, y) of ((a, b, c, d), (a', b', c', d')) \<Rightarrow>
     (a XOR a', b XOR b', c XOR c', d XOR d'))"

definition add_round_key :: "aes_state \<Rightarrow> aes_state \<Rightarrow> aes_state" where
  "add_round_key k s = (case (k, s) of ((a, b, c, d), (a', b', c', d')) \<Rightarrow>
     (xor_col a' a, xor_col b' b, xor_col c' c, xor_col d' d))"

subsection \<open>The key schedule\<close>

definition sub_col :: "col \<Rightarrow> col" where
  "sub_col w = (case w of (a, b, c, d) \<Rightarrow> (sub_byte a, sub_byte b, sub_byte c, sub_byte d))"

definition rot_col :: "col \<Rightarrow> col" where
  "rot_col w = (case w of (a, b, c, d) \<Rightarrow> (b, c, d, a))"

fun key_cols :: "bytes \<Rightarrow> col list" where
  "key_cols (a # b # c # d # rest) = (a, b, c, d) # key_cols rest"
| "key_cols _ = []"

text \<open>
  The expansion of \<open>nk\<close> key columns: column \<open>i\<close> from columns \<open>i - 1\<close> and \<open>i - nk\<close>, kept in
  reverse order. \<open>rc\<close> is the next round constant.
\<close>

fun expand_key :: "nat \<Rightarrow> nat \<Rightarrow> nat \<Rightarrow> byte \<Rightarrow> col list \<Rightarrow> col list" where
  "expand_key nk i 0 rc ws = ws"
| "expand_key nk i (Suc n) rc ws =
     (let t = hd ws;
          t = (if i mod nk = 0 then xor_col (sub_col (rot_col t)) (rc, 0, 0, 0)
               else if nk > 6 \<and> i mod nk = 4 then sub_col t else t);
          rc = (if i mod nk = 0 then xtime rc else rc)
      in expand_key nk (i + 1) n rc (xor_col (ws ! (nk - 1)) t # ws))"

fun group_cols :: "col list \<Rightarrow> aes_state list" where
  "group_cols (a # b # c # d # rest) = (a, b, c, d) # group_cols rest"
| "group_cols _ = []"

definition round_keys :: "bytes \<Rightarrow> aes_state list" where
  "round_keys key =
     (let nk = length key div 4 in
      group_cols (rev (expand_key nk nk (4 * (nk + 7) - nk) 1 (rev (key_cols key)))))"

subsection \<open>The cipher\<close>

definition aes_round :: "aes_state \<Rightarrow> aes_state \<Rightarrow> aes_state" where
  "aes_round k s = add_round_key k (mix_columns (shift_rows (map_state sub_byte s)))"

definition aes_last_round :: "aes_state \<Rightarrow> aes_state \<Rightarrow> aes_state" where
  "aes_last_round k s = add_round_key k (shift_rows (map_state sub_byte s))"

definition inv_aes_round :: "aes_state \<Rightarrow> aes_state \<Rightarrow> aes_state" where
  "inv_aes_round k s = map_state inv_sub_byte (inv_shift_rows (inv_mix_columns (add_round_key k s)))"

definition inv_aes_last_round :: "aes_state \<Rightarrow> aes_state \<Rightarrow> aes_state" where
  "inv_aes_last_round k s = map_state inv_sub_byte (inv_shift_rows (add_round_key k s))"

definition aes_encrypt :: "aes_state list \<Rightarrow> aes_state \<Rightarrow> aes_state" where
  "aes_encrypt ks s = aes_last_round (last ks) (fold aes_round (butlast (tl ks)) (add_round_key (hd ks) s))"

definition aes_decrypt :: "aes_state list \<Rightarrow> aes_state \<Rightarrow> aes_state" where
  "aes_decrypt ks s =
     add_round_key (hd ks) (fold inv_aes_round (rev (butlast (tl ks))) (inv_aes_last_round (last ks) s))"

subsection \<open>Decryption inverts encryption\<close>

lemma sbox_table: "map (\<lambda>v. inv_sbox ! unat v) sbox = map word_of_nat [0..<256]"
  by code_simp

lemma inv_sub_byte_sub_byte: "inv_sub_byte (sub_byte b) = b"
proof -
  have l: "unat b < 256" using unsigned_less [of b, where ?'a = nat] by simp
  moreover have "length sbox = 256" by (simp add: sbox_def)
  ultimately have "inv_sub_byte (sub_byte b) = map (\<lambda>v. inv_sbox ! unat v) sbox ! unat b"
    by (simp add: inv_sub_byte_def sub_byte_def)
  also have "\<dots> = word_of_nat (unat b)"
    unfolding sbox_table using l by (simp del: upt_rec_numeral)
  finally show ?thesis by simp
qed

lemma map_state_inverse: "map_state inv_sub_byte (map_state sub_byte s) = s"
  by (simp add: map_state_def inv_sub_byte_sub_byte split: prod.splits)

lemma inv_shift_rows_shift_rows: "inv_shift_rows (shift_rows s) = s"
  by (simp add: shift_rows_def inv_shift_rows_def split: prod.splits)

lemma xtime_xor: "xtime (a XOR b) = xtime a XOR xtime b"
  by (simp add: xtime_def bit_xor_iff push_bit_xor ac_simps)

lemma inv_mix_col_mix_col: "inv_mix_col (mix_col x) = x"
  by (simp add: mix_col_def inv_mix_col_def mul9_def mul11_def mul13_def mul14_def xtime_xor
      ac_simps split: prod.splits)

lemma inv_mix_columns_mix_columns: "inv_mix_columns (mix_columns s) = s"
  by (cases s rule: prod_cases4) (simp add: mix_columns_def inv_mix_columns_def inv_mix_col_mix_col)

lemma add_round_key_twice: "add_round_key k (add_round_key k s) = s"
  by (simp add: add_round_key_def xor_col_def ac_simps split: prod.splits)

lemma inv_aes_round_aes_round: "inv_aes_round k (aes_round k s) = s"
  by (simp add: inv_aes_round_def aes_round_def add_round_key_twice inv_mix_columns_mix_columns
      inv_shift_rows_shift_rows map_state_inverse)

lemma inv_aes_last_round_aes_last_round: "inv_aes_last_round k (aes_last_round k s) = s"
  by (simp add: inv_aes_last_round_def aes_last_round_def add_round_key_twice
      inv_shift_rows_shift_rows map_state_inverse)

lemma fold_rounds_inverse: "fold inv_aes_round (rev ks) (fold aes_round ks s) = s"
  by (induction ks arbitrary: s) (simp_all add: inv_aes_round_aes_round)

lemma aes_decrypt_encrypt: "aes_decrypt ks (aes_encrypt ks s) = s"
  by (simp add: aes_decrypt_def aes_encrypt_def inv_aes_last_round_aes_last_round fold_rounds_inverse
      add_round_key_twice)

end
