(* ===== verification/Crypto.thy ===== *)
theory Crypto
  imports Aes Wire
begin

text \<open>
  The lobby's cryptography (\<open>bdcrypto.go\<close>, \<open>pubkey.go\<close>): HMAC-SHA1, the expansion step of HKDF,
  the session keys and AES in CBC mode, with the parts of Go's standard library they rest on
  (\<open>crypto/sha1\<close>, \<open>crypto/hmac\<close>, \<open>crypto/aes\<close>, \<open>crypto/cipher\<close>).
\<close>

subsection \<open>SHA-1 and HMAC\<close>

definition be_bytes :: "nat \<Rightarrow> 'a::len word \<Rightarrow> bytes" where
  "be_bytes n w = rev (le_bytes n w)"

fun be_words :: "bytes \<Rightarrow> u32 list" where
  "be_words (a # b # c # d # rest) = le_word [d, c, b, a] # be_words rest"
| "be_words _ = []"

definition sha1_pad :: "bytes \<Rightarrow> bytes" where
  "sha1_pad m =
     m @ [0x80] @ replicate ((119 - length m mod 64) mod 64) 0 @
     be_bytes 8 (of_nat (8 * length m) :: u64)"

text \<open>The message schedule, latest word first.\<close>

fun sha1_extend :: "nat \<Rightarrow> u32 list \<Rightarrow> u32 list" where
  "sha1_extend 0 ws = ws"
| "sha1_extend (Suc n) ws =
     sha1_extend n (word_rotl 1 (ws ! 2 XOR ws ! 7 XOR ws ! 13 XOR ws ! 15) # ws)"

type_synonym sha1_state = "u32 \<times> u32 \<times> u32 \<times> u32 \<times> u32"

definition sha1_f :: "nat \<Rightarrow> u32 \<Rightarrow> u32 \<Rightarrow> u32 \<Rightarrow> u32" where
  "sha1_f t b c d =
     (if t < 20 then (b AND c) OR (NOT b AND d)
      else if t < 40 then b XOR c XOR d
      else if t < 60 then (b AND c) OR (b AND d) OR (c AND d)
      else b XOR c XOR d)"

definition sha1_k :: "nat \<Rightarrow> u32" where
  "sha1_k t = (if t < 20 then 0x5A827999 else if t < 40 then 0x6ED9EBA1
               else if t < 60 then 0x8F1BBCDC else 0xCA62C1D6)"

fun sha1_rounds :: "nat \<Rightarrow> u32 list \<Rightarrow> sha1_state \<Rightarrow> sha1_state" where
  "sha1_rounds t [] s = s"
| "sha1_rounds t (w # ws) (a, b, c, d, e) =
     sha1_rounds (t + 1) ws
       (word_rotl 5 a + sha1_f t b c d + e + sha1_k t + w, a, word_rotl 30 b, c, d)"

definition sha1_block :: "bytes \<Rightarrow> sha1_state \<Rightarrow> sha1_state" where
  "sha1_block blk s =
     (case (s, sha1_rounds 0 (rev (sha1_extend 64 (rev (be_words blk)))) s) of
        ((a, b, c, d, e), (a', b', c', d', e')) \<Rightarrow> (a + a', b + b', c + c', d + d', e + e'))"

function sha1_blocks :: "bytes \<Rightarrow> sha1_state \<Rightarrow> sha1_state" where
  "sha1_blocks m s = (if length m < 64 then s else sha1_blocks (drop 64 m) (sha1_block (take 64 m) s))"
  by pat_completeness auto
termination by (relation "measure (\<lambda>(m, _). length m)") auto

declare sha1_blocks.simps [simp del]

definition sha1 :: "bytes \<Rightarrow> bytes" where
  "sha1 m =
     (case sha1_blocks (sha1_pad m) (0x67452301, 0xEFCDAB89, 0x98BADCFE, 0x10325476, 0xC3D2E1F0) of
        (a, b, c, d, e) \<Rightarrow> be_bytes 4 a @ be_bytes 4 b @ be_bytes 4 c @ be_bytes 4 d @ be_bytes 4 e)"

definition hmacSHA1 :: "bytes \<Rightarrow> bytes \<Rightarrow> bytes" where
  "hmacSHA1 key m =
     (let k = (if length key > 64 then sha1 key else key);
          k = k @ replicate (64 - length k) 0
      in sha1 (map (\<lambda>b. b XOR 0x5C) k @ sha1 (map (\<lambda>b. b XOR 0x36) k @ m)))"

lemma length_sha1 [simp]: "length (sha1 m) = 20"
  by (simp add: sha1_def be_bytes_def split: prod.splits)

lemma length_hmacSHA1 [simp]: "length (hmacSHA1 k m) = 20"
  by (simp add: hmacSHA1_def Let_def)

subsection \<open>HKDF\<close>

text \<open>
  The loop of \<open>hkdfExpandSHA1\<close>. The counter is a byte and wraps; each round adds 20 bytes, so the
  loop ends.
\<close>

function hkdf_loop :: "bytes \<Rightarrow> bytes \<Rightarrow> nat \<Rightarrow> byte \<Rightarrow> bytes \<Rightarrow> bytes \<Rightarrow> bytes" where
  "hkdf_loop key label n i prev out =
     (if length out < n then
        let prev = hmacSHA1 key (prev @ label @ [i]) in
        hkdf_loop key label n (i + 1) prev (out @ prev)
      else out)"
  by pat_completeness auto
termination by (relation "measure (\<lambda>(_, _, n, _, _, out). n - length out)") auto

declare hkdf_loop.simps [simp del]

definition hkdfExpandSHA1 :: "bytes \<Rightarrow> bytes \<Rightarrow> nat \<Rightarrow> bytes" where
  "hkdfExpandSHA1 key label n = take n (hkdf_loop key label n 1 [] [])"

lemma hkdf_loop_length: "n \<le> length (hkdf_loop key label n i prev out)"
proof (induction key label n i prev out rule: hkdf_loop.induct)
  case (1 key label n i prev out)
  show ?case
  proof (cases "length out < n")
    case True
    then show ?thesis using 1 by (subst hkdf_loop.simps) (simp add: Let_def)
  next
    case False
    then show ?thesis by (subst hkdf_loop.simps) simp
  qed
qed

lemma length_hkdf [simp]: "length (hkdfExpandSHA1 key label n) = n"
  using hkdf_loop_length [of n key label 1 "[]" "[]"] by (simp add: hkdfExpandSHA1_def)

subsection \<open>The public key\<close>

definition hex_digit :: "char \<Rightarrow> byte option" where
  "hex_digit c =
     (let n = of_char c :: nat in
      if 48 \<le> n \<and> n \<le> 57 then Some (word_of_nat (n - 48))
      else if 97 \<le> n \<and> n \<le> 102 then Some (word_of_nat (n - 87))
      else if 65 \<le> n \<and> n \<le> 70 then Some (word_of_nat (n - 55)) else None)"

fun hex_decode :: "string \<Rightarrow> bytes option" where
  "hex_decode [] = Some []"
| "hex_decode [c] = None"
| "hex_decode (c # d # rest) =
     (case (hex_digit c, hex_digit d, hex_decode rest) of
        (Some x, Some y, Some bs) \<Rightarrow> Some ((push_bit 4 x OR y) # bs) | _ \<Rightarrow> None)"

text \<open>\<open>mustHex\<close> panics on \<open>None\<close>; its only argument in the program is the constant below.\<close>

definition mustHex :: "string \<Rightarrow> bytes" where
  "mustHex s = (case hex_decode s of Some b \<Rightarrow> b | None \<Rightarrow> [])"

definition bdPublicKeyHex :: string where
  "bdPublicKeyHex =
     ''30820122300d06092a864886f70d01010105000382010f003082010a0282010100c0a20b1f6cb81b1270ed1aef306c75'' @
     ''9dc1088999f02ac8ac2fc7d5d03b612939f38f6239daf12011e792e916242296099eac19cd243e58c6408678d7df7077'' @
     ''cbde8042b138f31d6a3c98e485dbfb533a8647ce58b1d3d70b833d146bda40241f162b0e4922e4b763ffaa40c244dfdc'' @
     ''3f8c1e60b46f3edab24e50cafc624b62c7e1775e83cde0b5fcc6aaa0c26b28cc8aa7957b1e67e05bafc65449e6ac7a8d'' @
     ''1de67d120494c3234a006058336fe79419fff6e0c64050b79d0ecddfe7925d8494130661bc4475547054774cc0287dfc'' @
     ''c99a9238d4d5eef3274466132c06f064e7ecf875fd15d41b91459d4a3f40e935537ffc9661e1487421f00420413002d2'' @
     ''f90203010001''"

definition bdPublicKeyDER :: bytes where
  "bdPublicKeyDER = mustHex bdPublicKeyHex"

lemma public_key_length: "map_option length (hex_decode bdPublicKeyHex) = Some 294"
  by code_simp

definition wrapKey24 :: "bytes \<Rightarrow> bytes" where
  "wrapKey24 key24 = hkdfExpandSHA1 key24 bdPublicKeyDER 24"

subsection \<open>Session keys\<close>

record sessionKeys =
  sk_clientTag :: bytes
  sk_serverChk :: bytes
  sk_c2sMAC :: bytes
  sk_s2cMAC :: bytes
  sk_c2sAES :: bytes
  sk_s2cAES :: bytes

definition deriveKeys :: "bytes \<Rightarrow> bytes \<Rightarrow> sessionKeys" where
  "deriveKeys transcript key24 =
     (let secret = hmacSHA1 (sha1 transcript) key24;
          chal = hkdfExpandSHA1 secret (lit ''CLIENTCHAL'') 16;
          data = hkdfExpandSHA1 secret (lit ''BDDATA'') 72
      in \<lparr>sk_clientTag = take 8 chal, sk_serverChk = subslice 8 16 chal,
          sk_c2sMAC = subslice 0 20 data, sk_s2cMAC = subslice 20 40 data,
          sk_c2sAES = subslice 40 56 data, sk_s2cAES = subslice 56 72 data\<rparr>)"

definition keys_ok :: "sessionKeys \<Rightarrow> bool" where
  "keys_ok k \<longleftrightarrow>
     length (sk_clientTag k) = 8 \<and> length (sk_serverChk k) = 8 \<and> length (sk_c2sMAC k) = 20 \<and>
     length (sk_s2cMAC k) = 20 \<and> length (sk_c2sAES k) = 16 \<and> length (sk_s2cAES k) = 16"

lemma deriveKeys_ok: "keys_ok (deriveKeys transcript key24)"
  by (simp add: keys_ok_def deriveKeys_def Let_def)

subsection \<open>CBC\<close>

text \<open>
  What CBC asks of a block cipher: on blocks of 16 bytes the second function undoes the first.
  The mode's round trip is proved once for such a cipher.
\<close>

definition block :: "bytes \<Rightarrow> bool" where
  "block b \<longleftrightarrow> length b = 16"

definition xor_bytes :: "bytes \<Rightarrow> bytes \<Rightarrow> bytes" where
  "xor_bytes a b = map2 (XOR) a b"

lemma length_xor_bytes [simp]: "length (xor_bytes a b) = min (length a) (length b)"
  by (simp add: xor_bytes_def)

lemma xor_bytes_cancel: "length a = length b \<Longrightarrow> xor_bytes (xor_bytes a b) b = a"
  by (induction a b rule: list_induct2) (simp_all add: xor_bytes_def xor.assoc)

fun cbc_encrypt :: "(bytes \<Rightarrow> bytes) \<Rightarrow> bytes \<Rightarrow> bytes list \<Rightarrow> bytes list" where
  "cbc_encrypt enc iv [] = []"
| "cbc_encrypt enc iv (p # ps) = (let c = enc (xor_bytes p iv) in c # cbc_encrypt enc c ps)"

fun cbc_decrypt :: "(bytes \<Rightarrow> bytes) \<Rightarrow> bytes \<Rightarrow> bytes list \<Rightarrow> bytes list" where
  "cbc_decrypt dec iv [] = []"
| "cbc_decrypt dec iv (c # cs) = xor_bytes (dec c) iv # cbc_decrypt dec c cs"

locale block_cipher =
  fixes enc :: "bytes \<Rightarrow> bytes"
    and dec :: "bytes \<Rightarrow> bytes"
  assumes enc_block: "block b \<Longrightarrow> block (enc b)"
    and dec_enc: "block b \<Longrightarrow> dec (enc b) = b"
begin

lemma cbc_blocks:
  "block iv \<Longrightarrow> list_all block ps \<Longrightarrow> list_all block (cbc_encrypt enc iv ps)"
  by (induction ps arbitrary: iv) (auto simp: Let_def block_def enc_block [unfolded block_def])

lemma cbc_length: "length (cbc_encrypt enc iv ps) = length ps"
  by (induction ps arbitrary: iv) (simp_all add: Let_def)

lemma cbc_round_trip:
  "block iv \<Longrightarrow> list_all block ps \<Longrightarrow> cbc_decrypt dec iv (cbc_encrypt enc iv ps) = ps"
proof (induction ps arbitrary: iv)
  case (Cons p ps)
  then have p: "block (xor_bytes p iv)" "length p = length iv" by (simp_all add: block_def)
  then show ?case
    using Cons by (simp add: Let_def dec_enc enc_block xor_bytes_cancel)
qed simp

end

subsection \<open>AES on byte strings\<close>

definition state_of :: "bytes \<Rightarrow> aes_state" where
  "state_of b =
     ((b ! 0, b ! 1, b ! 2, b ! 3), (b ! 4, b ! 5, b ! 6, b ! 7),
      (b ! 8, b ! 9, b ! 10, b ! 11), (b ! 12, b ! 13, b ! 14, b ! 15))"

definition bytes_of :: "aes_state \<Rightarrow> bytes" where
  "bytes_of s = (case s of ((a0, a1, a2, a3), (b0, b1, b2, b3), (c0, c1, c2, c3), (d0, d1, d2, d3)) \<Rightarrow>
     [a0, a1, a2, a3, b0, b1, b2, b3, c0, c1, c2, c3, d0, d1, d2, d3])"

definition aes_enc :: "bytes \<Rightarrow> bytes \<Rightarrow> bytes" where
  "aes_enc key b = bytes_of (aes_encrypt (round_keys key) (state_of b))"

definition aes_dec :: "bytes \<Rightarrow> bytes \<Rightarrow> bytes" where
  "aes_dec key b = bytes_of (aes_decrypt (round_keys key) (state_of b))"

lemma length_bytes_of [simp]: "length (bytes_of s) = 16"
  by (simp add: bytes_of_def split: prod.splits)

lemma state_of_bytes_of [simp]: "state_of (bytes_of s) = s"
  by (simp add: state_of_def bytes_of_def split: prod.splits)

lemma bytes_of_state_of: "block b \<Longrightarrow> bytes_of (state_of b) = b"
  by (rule nth_equalityI)
     (auto simp: block_def state_of_def bytes_of_def nth_Cons' eval_nat_numeral less_Suc_eq)

interpretation aes: block_cipher "aes_enc key" "aes_dec key" for key
  by unfold_locales (simp_all add: aes_enc_def aes_dec_def block_def aes_decrypt_encrypt
      bytes_of_state_of [unfolded block_def])

fun blocks_of :: "nat \<Rightarrow> bytes \<Rightarrow> bytes list" where
  "blocks_of 0 b = []"
| "blocks_of (Suc n) b = take 16 b # blocks_of n (drop 16 b)"

definition to_blocks :: "bytes \<Rightarrow> bytes list" where
  "to_blocks b = blocks_of (length b div 16) b"

definition aes_key_ok :: "bytes \<Rightarrow> bool" where
  "aes_key_ok key \<longleftrightarrow> length key \<in> {16, 24, 32}"

text \<open>
  \<open>None\<close> is the error. The callers pass an initialisation vector of 16 bytes, for which
  \<open>NewCBCDecrypter\<close> does not panic.
\<close>

definition aesCBCDecrypt :: "bytes \<Rightarrow> bytes \<Rightarrow> bytes \<Rightarrow> bytes option" where
  "aesCBCDecrypt key iv ct =
     (if ct = [] \<or> length ct mod 16 \<noteq> 0 \<or> \<not> aes_key_ok key then None
      else Some (concat (cbc_decrypt (aes_dec key) iv (to_blocks ct))))"

definition aesCBCEncrypt :: "bytes \<Rightarrow> bytes \<Rightarrow> bytes \<Rightarrow> bytes option" where
  "aesCBCEncrypt key iv pt =
     (if length pt mod 16 \<noteq> 0 \<or> \<not> aes_key_ok key then None
      else Some (concat (cbc_encrypt (aes_enc key) iv (to_blocks pt))))"

lemma blocks_of_concat: "length b = 16 * n \<Longrightarrow> concat (blocks_of n b) = b \<and> list_all block (blocks_of n b)"
  by (induction n arbitrary: b) (auto simp: block_def)

lemma to_blocks_concat:
  "length b mod 16 = 0 \<Longrightarrow> concat (to_blocks b) = b \<and> list_all block (to_blocks b)"
  unfolding to_blocks_def by (rule blocks_of_concat) auto

lemma length_concat_blocks: "list_all block bs \<Longrightarrow> length (concat bs) = 16 * length bs"
  by (induction bs) (auto simp: block_def)

lemma blocks_of_blocks: "list_all block bs \<Longrightarrow> blocks_of (length bs) (concat bs) = bs"
  by (induction bs) (auto simp: block_def)

lemma to_blocks_blocks: "list_all block bs \<Longrightarrow> to_blocks (concat bs) = bs"
  by (simp add: to_blocks_def length_concat_blocks blocks_of_blocks)

lemma cbc_aes_round_trip:
  assumes "aesCBCEncrypt key iv pt = Some ct" and "length iv = 16" and "pt \<noteq> []"
  shows "aesCBCDecrypt key iv ct = Some pt" and "length ct = length pt"
proof -
  let ?ps = "to_blocks pt" and ?cs = "cbc_encrypt (aes_enc key) iv (to_blocks pt)"
  have pt: "length pt mod 16 = 0" "aes_key_ok key" and ct: "ct = concat ?cs"
    using assms(1) by (auto simp: aesCBCEncrypt_def split: if_splits)
  note ps = to_blocks_concat [OF pt(1)]
  have iv: "block iv" using assms(2) by (simp add: block_def)
  have cs: "list_all block ?cs" using aes.cbc_blocks [OF iv] ps by blast
  have "length ct = 16 * length ?ps" using length_concat_blocks [OF cs] ct aes.cbc_length by simp
  moreover have "length pt = 16 * length ?ps" using ps length_concat_blocks by metis
  ultimately show len: "length ct = length pt" by simp
  then have "ct \<noteq> []" using assms(3) by auto
  then show "aesCBCDecrypt key iv ct = Some pt"
    using pt len to_blocks_blocks [OF cs] aes.cbc_round_trip [OF iv, of ?ps key] ps ct
    by (simp add: aesCBCDecrypt_def)
qed

end
