(* ===== verification/Handshake.thy ===== *)
theory Handshake
  imports Crypto
begin

text \<open>
  The lobby connection (\<open>handshake.go\<close>): framing, the authentication message with its candidate
  keys, the ticket search, the encrypted channel and the loop that reads a connection. The bytes
  the client sends are a list; random bytes, the identifiers of the server and the ticket files
  of the session directory are arguments. A read on an exhausted list is the end of the connection.
\<close>

subsection \<open>Frames\<close>

definition frameFlag :: byte where "frameFlag = 0xAB"
definition lobbyVersion :: u32 where "lobbyVersion = 220"
definition helloLen :: nat where "helloLen = 28"
definition msgServerHi :: byte where "msgServerHi = 0x81"
definition msgClientAuth :: byte where "msgClientAuth = 0x82"
definition msgServerOK :: byte where "msgServerOK = 0x83"
definition msgEncrypted :: byte where "msgEncrypted = 0x85"
definition msgMigrateInit :: byte where "msgMigrateInit = 0x87"
definition msgMigrateAck :: byte where "msgMigrateAck = 0x88"
definition msgMigrateGo :: byte where "msgMigrateGo = 0x89"

definition frame :: "bytes \<Rightarrow> bytes" where
  "frame body = le32 (of_nat (1 + length body)) @ [frameFlag] @ body"

datatype frame_result = FrEnd | FrKeepalive bytes | FrFrame bytes bytes

definition readFrame :: "u32 \<Rightarrow> bytes \<Rightarrow> frame_result" where
  "readFrame maxLen inp =
     (if length inp < 4 then FrEnd
      else
        let n = le_word (take 4 inp) :: u32 in
        if n = 0 then FrKeepalive (drop 4 inp)
        else if n > maxLen \<or> unat n > 2 ^ 21 then FrEnd
        else if length inp - 4 < unat n then FrEnd
        else FrFrame (take (4 + unat n) inp) (drop (4 + unat n) inp))"

subsection \<open>The connection\<close>

record lobbyConn =
  lc_maxLen :: u32
  lc_nonce :: bytes
  lc_payload1 :: bytes
  lc_keys :: "sessionKeys option"
  lc_ticket :: "bytes option"
  lc_s2cSeq :: u32

text \<open>What a connection does: bytes sent, and tasks handed to \<open>onTask\<close>.\<close>

datatype event = EvSend bytes | EvTask bytes

text \<open>The hello: \<open>None\<close> when it is refused. \<open>pad\<close> is eight random bytes.\<close>

definition on_hello :: "bytes \<Rightarrow> u64 \<Rightarrow> bytes \<Rightarrow> (lobbyConn \<times> event list) option" where
  "on_hello hello num pad =
     (let v = (\<lambda>i. le_word (take 4 (drop i hello)) :: u32) in
      if v 0 \<noteq> 200 \<or> v 4 \<noteq> 200 \<or> v 8 \<noteq> 210 \<or> v 12 \<noteq> 220 then None
      else
        let payload1 = le32 lobbyVersion @ le64 (0x0D3000000000 + num) @ pad in
        Some (\<lparr>lc_maxLen = v 16, lc_nonce = subslice 20 28 hello, lc_payload1 = payload1,
               lc_keys = None, lc_ticket = None, lc_s2cSeq = 0\<rparr>,
              [EvSend (frame (msgServerHi # payload1))]))"

subsection \<open>Tickets\<close>

definition raw_bit :: "bytes \<Rightarrow> bool \<Rightarrow> nat \<Rightarrow> bool" where
  "raw_bit raw msb i = bit (raw ! (i div 8)) (if msb then 7 - i mod 8 else i mod 8)"

text \<open>Byte \<open>k\<close> of the bit string that starts at bit \<open>off\<close>.\<close>

definition raw_get :: "bytes \<Rightarrow> bool \<Rightarrow> nat \<Rightarrow> nat \<Rightarrow> byte" where
  "raw_get raw msb off k =
     foldl (\<lambda>v j. v OR push_bit (if msb then 7 - j else j)
                        (if raw_bit raw msb (off + k * 8 + j) then 1 else 0)) 0 [0..<8]"

definition ticket_magic :: bytes where "ticket_magic = [0xDE, 0xAD, 0xBD, 0xEF]"

definition ticket_at :: "bytes \<Rightarrow> bool \<Rightarrow> nat \<Rightarrow> bool" where
  "ticket_at raw msb off \<longleftrightarrow> map (raw_get raw msb off) [0..<4] = ticket_magic"

definition ticket_scan :: "bytes \<Rightarrow> bool \<Rightarrow> bytes option" where
  "ticket_scan raw msb =
     map_option (\<lambda>off. map (raw_get raw msb off) [0..<128])
       (find (ticket_at raw msb) [0..<length raw * 8 + 1 - 128 * 8])"

definition findTicket :: "bytes \<Rightarrow> bytes option" where
  "findTicket raw = (case ticket_scan raw False of Some t \<Rightarrow> Some t | None \<Rightarrow> ticket_scan raw True)"

subsection \<open>Authentication\<close>

definition ticket_keys :: "bytes \<Rightarrow> bytes list" where
  "ticket_keys t = [subslice 97 121 t, subslice 33 57 t]"

text \<open>\<open>files\<close>: the ticket files of the last 72 hours, those of 128 bytes.\<close>

definition candidates :: "bytes list \<Rightarrow> bytes \<Rightarrow> bytes list" where
  "candidates files raw =
     (case findTicket raw of None \<Rightarrow> [] | Some t \<Rightarrow> ticket_keys t) @
     concat (map ticket_keys (filter (\<lambda>b. length b = 128) files)) @ [replicate 24 0]"

definition transcript :: "lobbyConn \<Rightarrow> bytes \<Rightarrow> bytes" where
  "transcript l raw =
     le32 210 @ le32 220 @ le32 (lc_maxLen l) @ lc_nonce l @
     le32 (of_nat (length (lc_payload1 l) + 2)) @ [frameFlag, msgServerHi] @ lc_payload1 l @
     take (length raw - 8) raw"

definition last8 :: "bytes \<Rightarrow> bytes" where
  "last8 raw = drop (length raw - 8) raw"

definition candidate_keys :: "bytes list \<Rightarrow> lobbyConn \<Rightarrow> bytes \<Rightarrow> sessionKeys list" where
  "candidate_keys files l raw =
     concat (map (\<lambda>k. [deriveKeys (transcript l raw) k, deriveKeys (transcript l raw) (wrapKey24 k)])
       (candidates files raw))"

definition hmac_tag :: "bytes \<Rightarrow> bytes \<Rightarrow> bytes" where
  "hmac_tag key m = take 8 (hmacSHA1 key m)"

definition pad16 :: "bytes \<Rightarrow> bytes" where
  "pad16 b = b @ replicate ((16 - length b mod 16) mod 16) 0"

text \<open>
  The bytes of an encrypted message with sequence number \<open>seq\<close>; the layout is the same in both
  directions. \<open>None\<close> is the error of the cipher.
\<close>

definition seal_message :: "bytes \<Rightarrow> bytes \<Rightarrow> bytes \<Rightarrow> u32 \<Rightarrow> byte \<Rightarrow> bytes \<Rightarrow> bytes option" where
  "seal_message aesKey macKey iv seq inner payload =
     (let pt = pad16 (le32 (of_nat (length payload)) @ [inner] @ payload) in
      case aesCBCEncrypt aesKey iv pt of
        None \<Rightarrow> None
      | Some ct \<Rightarrow>
          let body = [msgEncrypted] @ le32 seq @ iv @ ct;
              out = le32 (of_nat (1 + length body + 8)) @ [frameFlag] @ body
          in Some (out @ hmac_tag macKey out))"

definition sendEncrypted ::
    "bytes \<Rightarrow> sessionKeys \<Rightarrow> byte \<Rightarrow> bytes \<Rightarrow> lobbyConn \<Rightarrow> (lobbyConn \<times> bytes) option" where
  "sendEncrypted iv k inner payload l =
     (case seal_message (sk_s2cAES k) (sk_s2cMAC k) iv (lc_s2cSeq l + 1) inner payload of
        None \<Rightarrow> None
      | Some out \<Rightarrow> Some (l\<lparr>lc_s2cSeq := lc_s2cSeq l + 1\<rparr>, out))"

text \<open>
  \<open>onClientAuth\<close>: whether the connection goes on, the new state, the messages. With no matching
  key the connection is kept and stays silent. \<open>migrate\<close> is \<open>CTR_MIGRATE\<close>.
\<close>

definition onClientAuth ::
    "bool \<Rightarrow> bytes \<Rightarrow> bytes list \<Rightarrow> bytes \<Rightarrow> lobbyConn \<Rightarrow> bool \<times> lobbyConn \<times> event list" where
  "onClientAuth migrate iv files raw l =
     (if length raw < 14 then (False, l, [])
      else
        (case find (\<lambda>k. sk_clientTag k = last8 raw) (candidate_keys files l raw) of
           None \<Rightarrow> (True, l, [])
         | Some k \<Rightarrow>
             let l = l\<lparr>lc_keys := Some k, lc_ticket := findTicket raw\<rparr>;
                 ok = EvSend (frame (msgServerOK # sk_serverChk k)) in
             if migrate then
               (case sendEncrypted iv k msgMigrateInit [1] l of
                  None \<Rightarrow> (False, l, [ok])
                | Some (l, out) \<Rightarrow> (True, l, [ok, EvSend out]))
             else (True, l, [ok])))"

subsection \<open>Encrypted messages\<close>

definition migratePort :: u16 where "migratePort = 3074"
definition migrateDelayMS :: u32 where "migrateDelayMS = 1000"

definition migrateGoPayload :: "bytes \<Rightarrow> bytes" where
  "migrateGoPayload ip = [1, 2, 6] @ ip @ le16 migratePort @ [0, 0] @ le32 migrateDelayMS"

text \<open>The message inside a frame: authenticated, decrypted, with its inner type.\<close>

definition open_message :: "bytes \<Rightarrow> bytes \<Rightarrow> bytes \<Rightarrow> (byte \<times> bytes) option" where
  "open_message aesKey macKey raw =
     (let body = drop 5 raw in
      if length body < 1 + 4 + 16 + 16 + 8 then None
      else
        let iv = subslice 5 21 body;
            ct = subslice 21 (length body - 8) body;
            macOK = (hmac_tag macKey (take (length raw - 8) raw) = last8 raw) in
        case aesCBCDecrypt aesKey iv ct of
          None \<Rightarrow> None
        | Some pt \<Rightarrow>
            if length pt < 5 then None
            else
              let n = unat (le_word (take 4 pt) :: u32) in
              if \<not> macOK \<or> n > length pt - 5 then None
              else Some (pt ! 4, subslice 5 (5 + n) pt))"

definition onEncrypted ::
    "bool \<Rightarrow> bytes \<Rightarrow> bytes \<Rightarrow> sessionKeys \<Rightarrow> bytes \<Rightarrow> lobbyConn \<Rightarrow> lobbyConn \<times> event list" where
  "onEncrypted migrate ip iv k raw l =
     (case open_message (sk_c2sAES k) (sk_c2sMAC k) raw of
        None \<Rightarrow> (l, [])
      | Some (inner, payload) \<Rightarrow>
          if inner = 0x86 then (l, [EvTask payload])
          else if inner = msgMigrateAck then
            if \<not> migrate then (l, [])
            else (case sendEncrypted iv k msgMigrateGo (migrateGoPayload ip) l of
                    None \<Rightarrow> (l, []) | Some (l, out) \<Rightarrow> (l, [EvSend out]))
          else (l, []))"

subsection \<open>The loop\<close>

text \<open>\<open>le_iv\<close>: the random vector drawn for each sequence number.\<close>

record lobbyEnv =
  le_migrate :: bool
  le_ip :: bytes
  le_iv :: "u32 \<Rightarrow> bytes"
  le_files :: "bytes list"

definition on_frame :: "lobbyEnv \<Rightarrow> bytes \<Rightarrow> lobbyConn \<Rightarrow> bool \<times> lobbyConn \<times> event list" where
  "on_frame e raw l =
     (let body = drop 5 raw in
      if body = [] then (True, l, [])
      else
        (case lc_keys l of
           None \<Rightarrow>
             if hd body = msgClientAuth then onClientAuth (le_migrate e) (le_iv e (lc_s2cSeq l)) (le_files e) raw l
             else (True, l, [])
         | Some k \<Rightarrow>
             (case onEncrypted (le_migrate e) (le_ip e) (le_iv e (lc_s2cSeq l)) k raw l of
                (l, evs) \<Rightarrow> (True, l, evs))))"

lemma readFrame_shorter:
  "readFrame mx inp = FrKeepalive rest \<Longrightarrow> length rest < length inp"
  "readFrame mx inp = FrFrame raw rest \<Longrightarrow> length rest < length inp"
  by (auto simp: readFrame_def Let_def split: if_splits)

function run_loop :: "lobbyEnv \<Rightarrow> bytes \<Rightarrow> lobbyConn \<Rightarrow> event list" where
  "run_loop e inp l =
     (case readFrame (lc_maxLen l) inp of
        FrEnd \<Rightarrow> []
      | FrKeepalive rest \<Rightarrow> EvSend (replicate 4 0) # run_loop e rest l
      | FrFrame raw rest \<Rightarrow>
          (case on_frame e raw l of
             (go, l, evs) \<Rightarrow> evs @ (if go then run_loop e rest l else [])))"
  by pat_completeness auto
termination
  by (relation "measure (\<lambda>(_, inp, _). length inp)") (auto dest: readFrame_shorter)

declare run_loop.simps [simp del]

definition lobby_run :: "lobbyEnv \<Rightarrow> u64 \<Rightarrow> bytes \<Rightarrow> bytes \<Rightarrow> event list" where
  "lobby_run e num pad inp =
     (if length inp < helloLen then []
      else
        (case on_hello (take helloLen inp) num pad of
           None \<Rightarrow> []
         | Some (l, evs) \<Rightarrow> evs @ run_loop e (drop helloLen inp) l))"

end
