(* ===== verification/HandshakeProps.thy ===== *)
theory HandshakeProps
  imports Handshake
begin

text \<open>
  The encrypted channel delivers what was sent, ignores what was not authenticated, and no task
  is dispatched before a client proved a candidate key.
\<close>

lemma length_hmac_tag [simp]: "length (hmac_tag k m) = 8"
  by (simp add: hmac_tag_def)

lemma length_pad16: "length (pad16 b) mod 16 = 0"
proof -
  have "length (pad16 b) mod 16 = (length b mod 16 + (16 - length b mod 16)) mod 16"
    unfolding pad16_def by (simp only: length_append length_replicate mod_add_eq mod_add_left_eq mod_add_right_eq)
  also have "\<dots> = 0" using mod_less_divisor [of 16 "length b"] by simp
  finally show ?thesis .
qed

lemma pad16_prefix: "take (length b) (pad16 b) = b" and pad16_longer: "length b \<le> length (pad16 b)"
  by (simp_all add: pad16_def)

lemma seal_some:
  assumes "length aesKey = 16" and "length iv = 16"
  obtains ct where "aesCBCEncrypt aesKey iv (pad16 (le32 (of_nat (length p)) @ [t] @ p)) = Some ct"
    "seal_message aesKey macKey iv seq t p =
      (let out = le32 (of_nat (30 + length ct)) @ [frameFlag, msgEncrypted] @ le32 seq @ iv @ ct
       in Some (out @ hmac_tag macKey out))"
    "16 \<le> length ct" "aesCBCDecrypt aesKey iv ct = Some (pad16 (le32 (of_nat (length p)) @ [t] @ p))"
    "length ct = length (pad16 (le32 (of_nat (length p)) @ [t] @ p))"
proof -
  let ?pt = "pad16 (le32 (of_nat (length p)) @ [t] @ p)"
  obtain ct where ct: "aesCBCEncrypt aesKey iv ?pt = Some ct"
    using assms(1) length_pad16 by (auto simp: aesCBCEncrypt_def aes_key_ok_def)
  have ne: "?pt \<noteq> []" by (simp add: pad16_def)
  note rt = cbc_aes_round_trip [OF ct assms(2) ne]
  have "5 \<le> length ?pt" using pad16_longer [of "le32 (of_nat (length p)) @ [t] @ p"] by simp
  moreover have "length ?pt mod 16 = 0" by (rule length_pad16)
  ultimately have "16 \<le> length ?pt" by presburger
  then show ?thesis
    using that [OF ct] rt ct assms(2) by (simp add: seal_message_def Let_def ac_simps)
qed

text \<open>What the receiver makes of a sealed message.\<close>

lemma open_sealed:
  assumes "length aesKey = 16" and "length iv = 16" and "length p < 2 ^ 31"
    and "seal_message aesKey macKey iv seq t p = Some raw"
  shows "open_message aesKey macKey raw = Some (t, p)"
proof -
  obtain ct where ct: "seal_message aesKey macKey iv seq t p =
      (let out = le32 (of_nat (30 + length ct)) @ [frameFlag, msgEncrypted] @ le32 seq @ iv @ ct
       in Some (out @ hmac_tag macKey out))"
    "16 \<le> length ct" "aesCBCDecrypt aesKey iv ct = Some (pad16 (le32 (of_nat (length p)) @ [t] @ p))"
    by (rule seal_some [OF assms(1,2), of p t macKey seq]) blast
  let ?pt = "pad16 (le32 (of_nat (length p)) @ [t] @ p)"
  define out where "out = le32 (of_nat (30 + length ct)) @ [frameFlag, msgEncrypted] @ le32 seq @ iv @ ct"
  have raw: "raw = out @ hmac_tag macKey out" using assms(4) ct(1) by (simp add: out_def Let_def)
  have body: "drop 5 raw = [msgEncrypted] @ le32 seq @ iv @ ct @ hmac_tag macKey out"
    by (simp add: raw out_def)
  have n: "unat (of_nat (length p) :: u32) = length p"
    using assms(3) by (simp add: unat_of_nat take_bit_nat_eq_self)
  have big: "5 + length p \<le> length ?pt"
    using pad16_longer [of "le32 (of_nat (length p)) @ [t] @ p"] by simp
  have pt: "take 4 ?pt = le32 (of_nat (length p))" "?pt ! 4 = t" "subslice 5 (5 + length p) ?pt = p"
    by (simp_all add: pad16_def subslice_def nth_append)
  have iv: "subslice 5 21 (drop 5 raw) = iv"
    unfolding body using assms(2) by (simp add: subslice_def)
  have c: "subslice 21 (length (drop 5 raw) - 8) (drop 5 raw) = ct"
    unfolding body using assms(2) by (simp add: subslice_def)
  have len: "length (drop 5 raw) = 29 + length ct"
    unfolding body using assms(2) by simp
  have "take (length raw - 8) raw = out" and "last8 raw = hmac_tag macKey out"
    by (simp_all add: raw last8_def)
  then have mac: "hmac_tag macKey (take (length raw - 8) raw) = last8 raw" by simp
  have long: "\<not> length (drop 5 raw) < 1 + 4 + 16 + 16 + 8" using len ct(2) by simp
  have big': "\<not> length ?pt < 5" "\<not> length ?pt - 5 < length p" using big by linarith+
  have w: "unat (le_word (take 4 ?pt) :: u32) = length p"
    unfolding pt(1) using n by (simp add: le_word_le_bytes)
  show ?thesis
    unfolding open_message_def Let_def iv c ct(3) option.case w mac if_not_P [OF long]
      if_not_P [OF big'(1)] pt(2,3)
    using big'(2) by simp
qed

text \<open>For the session keys of any handshake, a message sent on the encrypted channel always
  goes out, its receiver recovers exactly the inner type and the payload, and the sequence number
  advances by one.\<close>

theorem channel_round_trip:
  assumes "k = deriveKeys tr key24" and "length iv = 16" and "length p < 2 ^ 31"
  shows "\<exists>out. sendEncrypted iv k t p l = Some (l\<lparr>lc_s2cSeq := lc_s2cSeq l + 1\<rparr>, out) \<and>
    open_message (sk_s2cAES k) (sk_s2cMAC k) out = Some (t, p)"
proof -
  have key: "length (sk_s2cAES k) = 16"
    using deriveKeys_ok [of tr key24] assms(1) by (simp add: keys_ok_def)
  obtain ct where "seal_message (sk_s2cAES k) (sk_s2cMAC k) iv (lc_s2cSeq l + 1) t p =
      (let out = le32 (of_nat (30 + length ct)) @ [frameFlag, msgEncrypted] @ le32 (lc_s2cSeq l + 1) @ iv @ ct
       in Some (out @ hmac_tag (sk_s2cMAC k) out))"
    by (rule seal_some [OF key assms(2), of p t "sk_s2cMAC k" "lc_s2cSeq l + 1"]) blast
  then obtain out where
    out: "seal_message (sk_s2cAES k) (sk_s2cMAC k) iv (lc_s2cSeq l + 1) t p = Some out"
    by (auto simp: Let_def)
  then show ?thesis
    using open_sealed [OF key assms(2,3) out] by (simp add: sendEncrypted_def)
qed

lemma channel_round_trip_witness:
  "\<exists>out. open_message (sk_s2cAES (deriveKeys [1] [2])) (sk_s2cMAC (deriveKeys [1] [2])) out = Some (2, [7, 7])"
proof -
  have "length (replicate 16 (3 :: byte)) = 16" and "length [7, 7 :: byte] < 2 ^ 31" by simp_all
  from channel_round_trip [OF refl this, of "[1]" "[2]" 2
      "\<lparr>lc_maxLen = 0, lc_nonce = [], lc_payload1 = [], lc_keys = None, lc_ticket = None, lc_s2cSeq = 0\<rparr>"]
  show ?thesis by blast
qed

text \<open>The frames a connection reads from its input.\<close>

function frames :: "u32 \<Rightarrow> bytes \<Rightarrow> bytes list" where
  "frames mx inp =
     (case readFrame mx inp of
        FrEnd \<Rightarrow> []
      | FrKeepalive rest \<Rightarrow> frames mx rest
      | FrFrame raw rest \<Rightarrow> raw # frames mx rest)"
  by pat_completeness auto
termination
  by (relation "measure (\<lambda>(_, inp). length inp)") (auto dest: readFrame_shorter)

declare frames.simps [simp del]

lemma sendEncrypted_conn:
  "sendEncrypted iv k t p l = Some (l', out) \<Longrightarrow> l' = l\<lparr>lc_s2cSeq := lc_s2cSeq l + 1\<rparr>"
  by (auto simp: sendEncrypted_def split: option.splits)

lemma on_frame_maxLen: "on_frame e raw l = (go, l', evs) \<Longrightarrow> lc_maxLen l' = lc_maxLen l"
  by (auto simp: on_frame_def onClientAuth_def onEncrypted_def Let_def dest!: sendEncrypted_conn
      split: if_splits option.splits prod.splits)

text \<open>A frame read with keys in place: the keys stay, and a task was in an authentic message.\<close>

lemma on_frame_keyed:
  assumes "on_frame e raw l = (go, l', evs)" and "lc_keys l = Some k"
  shows "lc_keys l' = Some k"
    and "EvTask p \<in> set evs \<Longrightarrow> open_message (sk_c2sAES k) (sk_c2sMAC k) raw = Some (0x86, p)"
  using assms
  by (auto simp: on_frame_def onEncrypted_def Let_def dest!: sendEncrypted_conn
      split: if_splits option.splits prod.splits)

text \<open>The part of a connection its transcript depends on does not change before the keys are set.\<close>

lemma on_frame_unkeyed:
  assumes "on_frame e raw l = (go, l', evs)" and "lc_keys l = None"
  shows "EvTask p \<notin> set evs" and "lc_keys l' = None \<Longrightarrow> l' = l"
    and "lc_keys l' = Some k \<Longrightarrow> hd (drop 5 raw) = msgClientAuth \<and>
      k \<in> set (candidate_keys (le_files e) l raw) \<and> sk_clientTag k = last8 raw"
  using assms
  by (auto simp: on_frame_def onClientAuth_def Let_def find_Some_iff dest!: sendEncrypted_conn
      split: if_splits option.splits prod.splits)

lemma keyed_tasks:
  "lc_keys l = Some k \<Longrightarrow> EvTask p \<in> set (run_loop e inp l) \<Longrightarrow>
   \<exists>m \<in> set (frames (lc_maxLen l) inp). open_message (sk_c2sAES k) (sk_c2sMAC k) m = Some (0x86, p)"
proof (induction e inp l rule: run_loop.induct)
  case (1 e inp l)
  show ?case
  proof (cases "readFrame (lc_maxLen l) inp")
    case FrEnd
    with 1(4) show ?thesis by (simp add: run_loop.simps)
  next
    case (FrKeepalive rest)
    with 1(1) [OF this 1(3)] 1(4) show ?thesis by (simp add: run_loop.simps frames.simps [of _ inp])
  next
    case (FrFrame raw rest)
    obtain go l' evs where f: "on_frame e raw l = (go, l', evs)" by (metis prod_cases3)
    note keyed = on_frame_keyed [OF f 1(3)] and mx = on_frame_maxLen [OF f]
    from 1(4) FrFrame f have
      "EvTask p \<in> set evs \<or> (go \<and> EvTask p \<in> set (run_loop e rest l'))"
      by (auto simp: run_loop.simps [of e inp] split: if_splits)
    then show ?thesis
      using keyed mx 1(2) [OF FrFrame f [symmetric] refl _ keyed(1)] FrFrame
      by (auto simp: frames.simps [of _ inp])
  qed
qed

text \<open>Before the keys are set: the frame that sets them precedes the one with the task.\<close>

lemma unkeyed_tasks:
  "lc_keys l = None \<Longrightarrow> EvTask p \<in> set (run_loop e inp l) \<Longrightarrow>
   \<exists>pre a post m k. frames (lc_maxLen l) inp = pre @ a # post \<and> m \<in> set post \<and>
     hd (drop 5 a) = msgClientAuth \<and> k \<in> set (candidate_keys (le_files e) l a) \<and>
     sk_clientTag k = last8 a \<and> open_message (sk_c2sAES k) (sk_c2sMAC k) m = Some (0x86, p)"
proof (induction e inp l rule: run_loop.induct)
  case (1 e inp l)
  show ?case
  proof (cases "readFrame (lc_maxLen l) inp")
    case FrEnd
    with 1(4) show ?thesis by (simp add: run_loop.simps)
  next
    case (FrKeepalive rest)
    with 1(1) [OF this 1(3)] 1(4) show ?thesis by (simp add: run_loop.simps frames.simps [of _ inp])
  next
    case (FrFrame raw rest)
    obtain go l' evs where f: "on_frame e raw l = (go, l', evs)" by (metis prod_cases3)
    note unkeyed = on_frame_unkeyed [OF f 1(3)] and mx = on_frame_maxLen [OF f]
    have fr: "frames (lc_maxLen l) inp = raw # frames (lc_maxLen l) rest"
      using FrFrame by (simp add: frames.simps [of _ inp])
    from 1(4) FrFrame f unkeyed(1) have go: "go" and ev: "EvTask p \<in> set (run_loop e rest l')"
      by (auto simp: run_loop.simps [of e inp] split: if_splits)
    show ?thesis
    proof (cases "lc_keys l'")
      case None
      from 1(2) [OF FrFrame f [symmetric] refl go None ev] unkeyed(2) [OF None] fr
      show ?thesis by (metis append_Cons)
    next
      case (Some k)
      from keyed_tasks [OF Some ev] unkeyed(3) [OF Some] mx fr show ?thesis
        by (metis append_Nil)
    qed
  qed
qed

lemma open_message_authentic:
  "open_message aesKey macKey m = Some x \<Longrightarrow> hmac_tag macKey (take (length m - 8) m) = last8 m"
  by (auto simp: open_message_def Let_def split: if_splits option.splits)

text \<open>C6: Every task a connection dispatches came in a message whose tag is right under session
  keys that a client proved before: an earlier frame of type 0x82 carries the tag these keys give
  for the transcript of the handshake, with one of the candidate ticket keys.\<close>

theorem task_needs_authenticated_client:
  assumes "EvTask p \<in> set (lobby_run e num pad inp)"
  shows "\<exists>l evs pre a post m k.
    on_hello (take helloLen inp) num pad = Some (l, evs) \<and>
    frames (lc_maxLen l) (drop helloLen inp) = pre @ a # post \<and> m \<in> set post \<and>
    hd (drop 5 a) = msgClientAuth \<and> k \<in> set (candidate_keys (le_files e) l a) \<and>
    sk_clientTag k = last8 a \<and>
    hmac_tag (sk_c2sMAC k) (take (length m - 8) m) = last8 m \<and>
    open_message (sk_c2sAES k) (sk_c2sMAC k) m = Some (0x86, p)"
proof -
  obtain l evs where l: "on_hello (take helloLen inp) num pad = Some (l, evs)"
    "EvTask p \<in> set evs \<or> EvTask p \<in> set (run_loop e (drop helloLen inp) l)"
    using assms by (cases "on_hello (take helloLen inp) num pad") (auto simp: lobby_run_def split: if_splits)
  have "lc_keys l = None" "EvTask p \<notin> set evs"
    using l(1) by (auto simp: on_hello_def Let_def split: if_splits)
  then show ?thesis
    using l unkeyed_tasks [of l p e "drop helloLen inp"] open_message_authentic by blast
qed

text \<open>A frame whose length field is right is read back, whatever follows.\<close>

definition well_framed :: "u32 \<Rightarrow> bytes \<Rightarrow> bool" where
  "well_framed mx raw \<longleftrightarrow> 4 < length raw \<and> length raw - 4 \<le> min (unat mx) (2 ^ 21) \<and>
     take 4 raw = le32 (of_nat (length raw - 4))"

lemma readFrame_well_framed:
  assumes "well_framed mx raw"
  shows "readFrame mx (raw @ rest) = FrFrame raw rest"
proof -
  let ?n = "length raw - 4"
  have small: "?n \<le> 2097152" using assms by (simp add: well_framed_def)
  then have un: "unat (of_nat ?n :: u32) = ?n" by (simp add: unat_of_nat take_bit_nat_eq_self)
  have hd4: "le_word (take 4 raw) = (of_nat ?n :: u32)"
    using assms by (simp add: well_framed_def le_word_le_bytes)
  have "of_nat ?n \<noteq> (0 :: u32)" and "of_nat ?n \<le> mx"
    using assms un by (auto simp: well_framed_def word_le_nat_alt unat_eq_0 [symmetric] simp del: unat_eq_0)
  then show ?thesis
    using assms un small hd4 by (simp add: readFrame_def Let_def well_framed_def not_less)
qed

text \<open>
  A client that proves a candidate key and then seals a message, as the inputs of the loop.
\<close>

definition client_session ::
    "lobbyEnv \<Rightarrow> lobbyConn \<Rightarrow> sessionKeys \<Rightarrow> bytes \<Rightarrow> u32 \<Rightarrow> bytes \<Rightarrow> bytes \<Rightarrow> bytes \<Rightarrow> bool" where
  "client_session e l k iv seq p auth msg \<longleftrightarrow>
     well_framed (lc_maxLen l) auth \<and> 14 \<le> length auth \<and> auth ! 5 = msgClientAuth \<and>
     find (\<lambda>k. sk_clientTag k = last8 auth) (candidate_keys (le_files e) l auth) = Some k \<and>
     length iv = 16 \<and> length p < 2 ^ 31 \<and>
     seal_message (sk_c2sAES k) (sk_c2sMAC k) iv seq 0x86 p = Some msg \<and>
     well_framed (lc_maxLen l) msg"

lemma found_key_ok:
  assumes "find P (candidate_keys files l auth) = Some k"
  shows "keys_ok k"
  using assms by (auto simp: find_Some_iff candidate_keys_def deriveKeys_ok dest!: nth_mem)

lemma auth_frame:
  assumes "client_session e l k iv seq p auth msg" and "lc_keys l = None" and "\<not> le_migrate e"
  shows "on_frame e auth l =
    (True, l\<lparr>lc_keys := Some k, lc_ticket := findTicket auth\<rparr>, [EvSend (frame (msgServerOK # sk_serverChk k))])"
proof -
  have h: "14 \<le> length auth" "auth ! 5 = msgClientAuth"
    "find (\<lambda>k. sk_clientTag k = last8 auth) (candidate_keys (le_files e) l auth) = Some k"
    using assms(1) by (simp_all add: client_session_def)
  have "drop 5 auth \<noteq> []" and "hd (drop 5 auth) = msgClientAuth" using h(1,2) by (simp_all add: hd_drop_conv_nth)
  then show ?thesis using h(1,3) assms(2,3) by (simp add: on_frame_def onClientAuth_def Let_def)
qed

lemma session_run:
  assumes "client_session e l k iv seq p auth msg" and "lc_keys l = None" and "\<not> le_migrate e"
  shows "run_loop e (auth @ msg) l = [EvSend (frame (msgServerOK # sk_serverChk k)), EvTask p]"
proof -
  have h: "well_framed (lc_maxLen l) auth"
    "find (\<lambda>k. sk_clientTag k = last8 auth) (candidate_keys (le_files e) l auth) = Some k"
    "length iv = 16" "length p < 2 ^ 31"
    "seal_message (sk_c2sAES k) (sk_c2sMAC k) iv seq 0x86 p = Some msg" "well_framed (lc_maxLen l) msg"
    using assms(1) by (simp_all add: client_session_def)
  have aes: "length (sk_c2sAES k) = 16" using found_key_ok [OF h(2)] by (simp add: keys_ok_def)
  let ?l = "l\<lparr>lc_keys := Some k, lc_ticket := findTicket auth\<rparr>"
  have one: "on_frame e auth l = (True, ?l, [EvSend (frame (msgServerOK # sk_serverChk k))])"
    by (rule auth_frame [OF assms])
  have opened: "open_message (sk_c2sAES k) (sk_c2sMAC k) msg = Some (0x86, p)"
    by (rule open_sealed [OF aes h(3-5)])
  then have "drop 5 msg \<noteq> []" by (auto simp: open_message_def Let_def)
  with opened have two: "on_frame e msg ?l = (True, ?l, [EvTask p])"
    by (simp add: on_frame_def onEncrypted_def Let_def)
  have "readFrame (lc_maxLen l) (auth @ msg) = FrFrame auth msg"
    by (rule readFrame_well_framed [OF h(1)])
  moreover have "readFrame (lc_maxLen ?l) msg = FrFrame msg []"
    using readFrame_well_framed [OF h(6), of "[]"] by simp
  moreover have "run_loop e [] ?l = []" by (simp add: run_loop.simps readFrame_def)
  ultimately show ?thesis
    using one two by (simp add: run_loop.simps [of e "auth @ msg"] run_loop.simps [of e msg])
qed

text \<open>A concrete session: no ticket, hence the key of 24 zero bytes.\<close>

definition sample_env :: lobbyEnv where
  "sample_env = \<lparr>le_migrate = False, le_ip = [], le_iv = (\<lambda>_. []), le_files = []\<rparr>"

definition sample_hello :: bytes where
  "sample_hello = le32 200 @ le32 200 @ le32 210 @ le32 220 @ le32 65536 @ replicate 8 5"

lemma sample_conn:
  obtains l hi where "on_hello sample_hello 1 (replicate 8 0) = Some (l, [hi])"
    "lc_maxLen l = 65536" "lc_keys l = None"
  by (simp add: on_hello_def sample_hello_def Let_def le_word_le_bytes)

lemma sample_session:
  assumes "lc_maxLen l = 65536"
  obtains k auth msg where
    "client_session sample_env l k (replicate 16 0) 1 [7, 7] auth msg" "length auth = 14"
proof -
  define pre :: bytes where "pre = le32 10 @ [frameFlag, msgClientAuth]"
  define k where "k = deriveKeys (transcript l (pre @ replicate 8 0)) (replicate 24 0)"
  define auth where "auth = pre @ sk_clientTag k"
  have ok: "keys_ok k" by (simp add: k_def deriveKeys_ok)
  then have tag: "length (sk_clientTag k) = 8" and aes: "length (sk_c2sAES k) = 16"
    by (simp_all add: keys_ok_def)
  have len: "length auth = 14" using tag by (simp add: auth_def pre_def)
  have "transcript l auth = transcript l (pre @ replicate 8 0)"
    using tag by (simp add: transcript_def auth_def)
  moreover have "findTicket auth = None" by (simp add: findTicket_def ticket_scan_def len)
  ultimately have cand:
    "find (\<lambda>k. sk_clientTag k = last8 auth) (candidate_keys (le_files sample_env) l auth) = Some k"
    using tag
    by (simp add: candidate_keys_def candidates_def k_def [symmetric] last8_def auth_def sample_env_def)
  obtain ct where ct: "seal_message (sk_c2sAES k) (sk_c2sMAC k) (replicate 16 0) 1 0x86 [7, 7] =
      (let out = le32 (of_nat (30 + length ct)) @ [frameFlag, msgEncrypted] @ le32 1 @ replicate 16 0 @ ct
       in Some (out @ hmac_tag (sk_c2sMAC k) out))" "length ct = 16"
    using seal_some [OF aes, where iv = "replicate 16 0" and p = "[7, 7]" and t = "0x86"
        and macKey = "sk_c2sMAC k" and seq = 1]
    by (auto simp: pad16_def)
  then obtain msg where msg: "seal_message (sk_c2sAES k) (sk_c2sMAC k) (replicate 16 0) 1 0x86 [7, 7] = Some msg"
      "length msg = 50" "take 4 msg = le32 46"
    by (simp add: Let_def)
  have "well_framed (lc_maxLen l) auth" "well_framed (lc_maxLen l) msg"
    using len msg(2,3) assms by (simp_all add: well_framed_def auth_def pre_def)
  moreover have "auth ! 5 = msgClientAuth" by (simp add: auth_def pre_def nth_append)
  ultimately have "client_session sample_env l k (replicate 16 0) 1 [7, 7] auth msg"
    using cand len msg(1) by (simp add: client_session_def)
  then show ?thesis using that len by blast
qed

lemma task_needs_authenticated_client_witness:
  "\<exists>pad inp p l evs pre a post m k.
    EvTask p \<in> set (lobby_run sample_env 1 pad inp) \<and>
    on_hello (take helloLen inp) 1 pad = Some (l, evs) \<and>
    frames (lc_maxLen l) (drop helloLen inp) = pre @ a # post \<and> m \<in> set post \<and>
    k \<in> set (candidate_keys (le_files sample_env) l a) \<and> sk_clientTag k = last8 a \<and>
    hmac_tag (sk_c2sMAC k) (take (length m - 8) m) = last8 m"
proof -
  obtain l hi where l: "on_hello sample_hello 1 (replicate 8 0) = Some (l, [hi])"
    "lc_maxLen l = 65536" "lc_keys l = None" by (rule sample_conn)
  obtain k auth msg where s: "client_session sample_env l k (replicate 16 0) 1 [7, 7] auth msg"
    by (rule sample_session [OF l(2)])
  have "length sample_hello = helloLen" by (simp add: sample_hello_def helloLen_def)
  with session_run [OF s l(3)] l(1)
  have t: "EvTask [7, 7] \<in> set (lobby_run sample_env 1 (replicate 8 0) (sample_hello @ auth @ msg))"
    by (simp add: lobby_run_def sample_env_def)
  from task_needs_authenticated_client [OF t] t show ?thesis by blast
qed

text \<open>A client that proves a candidate key is served: its handshake frame is answered with the
  server's hello and the check value of the keys, and the message it then seals with these keys is
  dispatched as the task it carries.\<close>

theorem honest_client_is_served:
  assumes "length hello = helloLen" and "on_hello hello num pad = Some (l, [hi])"
    and "client_session e l k iv seq p auth msg" and "\<not> le_migrate e"
  shows "lobby_run e num pad (hello @ auth @ msg) =
    [hi, EvSend (frame (msgServerOK # sk_serverChk k)), EvTask p]"
proof -
  have "lc_keys l = None" using assms(2) by (auto simp: on_hello_def Let_def split: if_splits)
  from session_run [OF assms(3) this assms(4)] assms(1,2) show ?thesis
    by (simp add: lobby_run_def)
qed

lemma honest_client_is_served_witness:
  "\<exists>hi auth (k :: sessionKeys) msg. lobby_run sample_env 1 (replicate 8 0) (sample_hello @ auth @ msg) =
     [hi, EvSend (frame (msgServerOK # sk_serverChk k)), EvTask [7, 7]]"
proof -
  obtain l hi where l: "on_hello sample_hello 1 (replicate 8 0) = Some (l, [hi])" "lc_maxLen l = 65536"
    by (rule sample_conn)
  obtain k auth msg where s: "client_session sample_env l k (replicate 16 0) 1 [7, 7] auth msg"
    by (rule sample_session [OF l(2)])
  have "length sample_hello = helloLen" and "\<not> le_migrate sample_env"
    by (simp_all add: sample_hello_def helloLen_def sample_env_def)
  from honest_client_is_served [OF this(1) l(1) s this(2)] show ?thesis by blast
qed

end
