(* ===== verification/Economy.thy ===== *)
theory Economy
  imports Replies Decimal
begin

text \<open>
  The wallets and inventories of CTR (\<open>ctr_economy.go\<close>, the environment reading of
  \<open>ctr_marketplace.go\<close>). An \<open>int64\<close> amount is an \<open>int\<close> with \<open>wrap64\<close> where an operation may
  leave the range; the item map, whose entries are only ever set to true, is the set of its keys.
  The catalog of the embedded data file is the argument \<open>cat\<close>. The files of the directory are
  their decoded contents; \<open>ed_writes\<close> tells for each save to come whether its file operations
  succeed (none left: they do).
\<close>

subsection \<open>Data\<close>

record economySKU =
  sku_items :: "u32 list"
  sku_parts :: "u32 list"
  sku_price :: int

type_synonym catalog = "u32 \<Rightarrow> economySKU option"

record challengeCompletion =
  cc_completed :: u64
  cc_progress :: u64
  cc_receipts :: "string \<Rightarrow> u64 option"
  cc_distinct :: "string set"

record pitStopRefreshRecord =
  pr_day :: string
  pr_count :: u64
  pr_receipts :: "string set"

record economyAccount =
  ea_challenges :: "string \<Rightarrow> challengeCompletion option"
  ea_refresh :: "pitStopRefreshRecord option"
  ea_balances :: "u64 \<Rightarrow> int option"
  ea_items :: "u32 set"
  ea_receipts :: "string set"
  ea_online :: "string \<Rightarrow> u64 option"

text \<open>The account file: its version, and whether the two required maps are there.\<close>

record storedAccount =
  sa_version :: int
  sa_null_balances :: bool
  sa_null_items :: bool
  sa_account :: economyAccount

datatype 'a stored_file = Missing | Unreadable | Content 'a

record economyStore =
  ed_accounts :: "u64 \<Rightarrow> storedAccount stored_file"
  ed_wallets :: "u64 \<Rightarrow> (u64 \<Rightarrow> int option) option stored_file"
  ed_skus :: "u64 \<Rightarrow> u32 list stored_file"
  ed_writes :: "bool list"

datatype economyError =
    InvalidAccount | ReadError | NullWallet | UnknownLegacySKU u32 | SaveError
  | UnknownSKU u32 | MissingComponent u32 | InsufficientCoins

definition wumpaCurrency :: u64 where "wumpaCurrency = 10"

definition balance :: "u64 \<Rightarrow> economyAccount \<Rightarrow> int" where
  "balance c a = (case ea_balances a c of None \<Rightarrow> 0 | Some v \<Rightarrow> v)"

definition coins :: "economyAccount \<Rightarrow> int" where "coins a = balance wumpaCurrency a"

text \<open>\<open>a.Balances[wumpaCurrency] += amount\<close>.\<close>

definition credit :: "int \<Rightarrow> economyAccount \<Rightarrow> economyAccount" where
  "credit amount a =
     a\<lparr>ea_balances := (ea_balances a)(wumpaCurrency \<mapsto> wrap64 (coins a + amount))\<rparr>"

definition startingBalance :: "string \<Rightarrow> int" where
  "startingBalance env =
     (case parse_int64 (if env = '''' then ''0'' else env) of
        Some n \<Rightarrow> if n \<ge> 0 then n else 0 | None \<Rightarrow> 0)"

subsection \<open>Loading and saving\<close>

definition save :: "u64 \<Rightarrow> economyAccount \<Rightarrow> economyStore \<Rightarrow> (economyError + unit) \<times> economyStore" where
  "save p a s =
     (case ed_writes s of
        False # ws \<Rightarrow> (Inl SaveError, s\<lparr>ed_writes := ws\<rparr>)
      | ws \<Rightarrow>
          (Inr (), s\<lparr>ed_writes := tl ws,
                     ed_accounts := (ed_accounts s)
                       (p := Content \<lparr>sa_version = 2, sa_null_balances = False,
                                      sa_null_items = False, sa_account = a\<rparr>)\<rparr>))"

fun legacy_items :: "catalog \<Rightarrow> u32 list \<Rightarrow> u32 set \<Rightarrow> economyError + u32 set" where
  "legacy_items cat [] items = Inr items"
| "legacy_items cat (i # is) items =
     (case cat i of
        None \<Rightarrow> Inl (UnknownLegacySKU i)
      | Some entry \<Rightarrow> legacy_items cat is (items \<union> set (sku_items entry)))"

definition new_account :: "(u64 \<Rightarrow> int option) \<Rightarrow> u32 set \<Rightarrow> economyAccount" where
  "new_account bs items =
     \<lparr>ea_challenges = (\<lambda>_. None), ea_refresh = None, ea_balances = bs, ea_items = items,
      ea_receipts = {}, ea_online = (\<lambda>_. None)\<rparr>"

text \<open>The account made from the two legacy files, or from nothing.\<close>

definition migrate_account :: "catalog \<Rightarrow> int \<Rightarrow> u64 \<Rightarrow> economyStore \<Rightarrow> economyError + economyAccount" where
  "migrate_account cat start p s =
     (case (case ed_wallets s p of
              Missing \<Rightarrow> Inr (\<lambda>_. None)
            | Unreadable \<Rightarrow> Inl ReadError
            | Content None \<Rightarrow> Inl NullWallet
            | Content (Some bs) \<Rightarrow> Inr bs) of
        Inl e \<Rightarrow> Inl e
      | Inr bs \<Rightarrow>
          let bs = (if bs wumpaCurrency = None then bs(wumpaCurrency \<mapsto> start) else bs) in
          (case (case ed_skus s p of
                   Missing \<Rightarrow> Inr [] | Unreadable \<Rightarrow> Inl ReadError | Content skus \<Rightarrow> Inr skus) of
             Inl e \<Rightarrow> Inl e
           | Inr skus \<Rightarrow>
               (case legacy_items cat skus {} of
                  Inl e \<Rightarrow> Inl e | Inr items \<Rightarrow> Inr (new_account bs items))))"

definition load ::
    "catalog \<Rightarrow> int \<Rightarrow> u64 \<Rightarrow> economyStore \<Rightarrow> (economyError + economyAccount) \<times> economyStore" where
  "load cat start p s =
     (case ed_accounts s p of
        Content sa \<Rightarrow>
          if sa_version sa \<noteq> 2 \<or> sa_null_balances sa \<or> sa_null_items sa
          then (Inl InvalidAccount, s) else (Inr (sa_account sa), s)
      | Unreadable \<Rightarrow> (Inl ReadError, s)
      | Missing \<Rightarrow>
          (case migrate_account cat start p s of
             Inl e \<Rightarrow> (Inl e, s)
           | Inr a \<Rightarrow>
               (case save p a s of (Inl e, s) \<Rightarrow> (Inl e, s) | (Inr _, s) \<Rightarrow> (Inr a, s))))"

definition snapshot where "snapshot = load"

subsection \<open>Purchases\<close>

definition ownsSKU :: "economyAccount \<Rightarrow> economySKU \<Rightarrow> bool" where
  "ownsSKU a sku \<longleftrightarrow> sku_items sku \<noteq> [] \<and> list_all (\<lambda>i. i \<in> ea_items a) (sku_items sku)"

fun parts_price :: "catalog \<Rightarrow> economyAccount \<Rightarrow> u32 list \<Rightarrow> int \<Rightarrow> economyError + int" where
  "parts_price cat a [] price = Inr price"
| "parts_price cat a (i # is) price =
     (case cat i of
        None \<Rightarrow> Inl (MissingComponent i)
      | Some part \<Rightarrow>
          parts_price cat a is
            (if ownsSKU a part then price else wrap64 (price + sku_price part)))"

definition skuPrice :: "catalog \<Rightarrow> economyAccount \<Rightarrow> economySKU \<Rightarrow> economyError + int" where
  "skuPrice cat a sku =
     (if ownsSKU a sku then Inr 0
      else if sku_parts sku = [] then Inr (sku_price sku)
      else parts_price cat a (sku_parts sku) 0)"

fun buy_skus :: "catalog \<Rightarrow> u32 list \<Rightarrow> economyAccount \<times> int \<Rightarrow> economyError + economyAccount \<times> int" where
  "buy_skus cat [] (a, tot) = Inr (a, tot)"
| "buy_skus cat (i # is) (a, tot) =
     (case cat i of
        None \<Rightarrow> Inl (UnknownSKU i)
      | Some sku \<Rightarrow>
          (case skuPrice cat a sku of
             Inl e \<Rightarrow> Inl e
           | Inr price \<Rightarrow>
               if price < 0 \<or> price > coins a then Inl InsufficientCoins
               else
                 let a = credit (- price) a;
                     a = a\<lparr>ea_items := ea_items a \<union> set (sku_items sku)\<rparr>
                 in buy_skus cat is (a, wrap64 (tot + price))))"

definition purchase ::
    "catalog \<Rightarrow> int \<Rightarrow> u64 \<Rightarrow> u32 list \<Rightarrow> economyStore \<Rightarrow> (economyError + int) \<times> economyStore" where
  "purchase cat start p skus s =
     (case load cat start p s of
        (Inl e, s) \<Rightarrow> (Inl e, s)
      | (Inr a, s) \<Rightarrow>
          (case buy_skus cat skus (a, 0) of
             Inl e \<Rightarrow> (Inl e, s)
           | Inr (a, tot) \<Rightarrow>
               (case save p a s of (Inl e, s) \<Rightarrow> (Inl e, s) | (Inr _, s) \<Rightarrow> (Inr tot, s))))"

subsection \<open>Inventory\<close>

definition owned_items :: "economyAccount \<Rightarrow> u32 list" where
  "owned_items a = sorted_list_of_set (ea_items a)"

text \<open>The products are of 32-bit numbers and stay within the 64 bits they are computed in.\<close>

definition inventoryPage :: "economyAccount \<Rightarrow> u32 \<Rightarrow> u32 \<Rightarrow> u32 list" where
  "inventoryPage a page psize =
     (let items = owned_items a in
      if page = 0 then []
      else
        let start = unat (page - 1) * unat psize in
        if start \<ge> length items then []
        else subslice start (min (start + unat psize) (length items)) items)"

subsection \<open>Frame of the operations\<close>

definition same_others :: "u64 \<Rightarrow> economyStore \<Rightarrow> economyStore \<Rightarrow> bool" where
  "same_others p s s' \<longleftrightarrow>
     (\<forall>q. q \<noteq> p \<longrightarrow> ed_accounts s' q = ed_accounts s q) \<and>
     ed_wallets s' = ed_wallets s \<and> ed_skus s' = ed_skus s"

lemma same_others_refl [simp]: "same_others p s s"
  by (simp add: same_others_def)

lemma same_others_trans: "same_others p s t \<Longrightarrow> same_others p t u \<Longrightarrow> same_others p s u"
  by (simp add: same_others_def)

text \<open>The account a later \<open>load\<close> finds in its file.\<close>

definition account_file :: "economyAccount \<Rightarrow> storedAccount stored_file" where
  "account_file a = Content \<lparr>sa_version = 2, sa_null_balances = False, sa_null_items = False, sa_account = a\<rparr>"

lemma load_stored [simp]: "ed_accounts s p = account_file a \<Longrightarrow> load cat start p s = (Inr a, s)"
  by (simp add: load_def account_file_def)

lemma save_result:
  assumes "save p a s = (r, s')"
  shows "same_others p s s'"
    and "r = Inr () \<Longrightarrow> ed_accounts s' p = account_file a"
    and "r = Inl e \<Longrightarrow> e = SaveError \<and> ed_accounts s' = ed_accounts s"
  using assms by (auto simp: save_def same_others_def account_file_def split: list.splits bool.splits)

lemma load_result:
  assumes "load cat start p s = (r, s')"
  shows "same_others p s s'"
    and "r = Inr a \<Longrightarrow> load cat start p s' = (Inr a, s')"
    and "r = Inl e \<Longrightarrow> ed_accounts s' = ed_accounts s"
proof -
  have *: "same_others p s s' \<and> (r = Inr a \<longrightarrow> load cat start p s' = (Inr a, s')) \<and>
    (r = Inl e \<longrightarrow> ed_accounts s' = ed_accounts s)"
  proof (cases "ed_accounts s p")
    case Missing
    then show ?thesis
      using assms save_result [of p _ s]
      by (auto simp: load_def [of cat start p s] split: sum.splits prod.splits)
  next
    case (Content sa)
    then show ?thesis using assms by (auto simp: load_def split: if_splits)
  qed (use assms in \<open>auto simp: load_def\<close>)
  then show "same_others p s s'"
    and "r = Inr a \<Longrightarrow> load cat start p s' = (Inr a, s')"
    and "r = Inl e \<Longrightarrow> ed_accounts s' = ed_accounts s" by blast+
qed

subsection \<open>Transactions\<close>

text \<open>
  The shape every operation of the store has: load the account, compute on it, and save the
  result when there is one to save; nothing is saved on an error.
\<close>

definition transact ::
    "('s \<Rightarrow> ('e + 'a) \<times> 's) \<Rightarrow> ('a \<Rightarrow> 's \<Rightarrow> ('e + unit) \<times> 's) \<Rightarrow>
     ('a \<Rightarrow> 'e + 'a option \<times> 'r) \<Rightarrow> 's \<Rightarrow> ('e + 'r) \<times> 's" where
  "transact ld sv f s =
     (case ld s of
        (Inl e, s) \<Rightarrow> (Inl e, s)
      | (Inr a, s) \<Rightarrow>
          (case f a of
             Inl e \<Rightarrow> (Inl e, s)
           | Inr (None, r) \<Rightarrow> (Inr r, s)
           | Inr (Some a, r) \<Rightarrow>
               (case sv a s of (Inl e, s) \<Rightarrow> (Inl e, s) | (Inr _, s) \<Rightarrow> (Inr r, s))))"

text \<open>
  What the operations rely on: \<open>view\<close> is the account of a player as the next load will find it.
\<close>

locale account_store =
  fixes ld :: "'p \<Rightarrow> 's \<Rightarrow> ('e + 'a) \<times> 's"
    and sv :: "'p \<Rightarrow> 'a \<Rightarrow> 's \<Rightarrow> ('e + unit) \<times> 's"
    and view :: "'s \<Rightarrow> 'p \<Rightarrow> 'a option"
  assumes load_view: "ld p s = (Inr a, s') \<Longrightarrow> view s' p = Some a"
    and load_again: "view s p = Some a \<Longrightarrow> ld p s = (Inr a, s)"
    and load_error: "ld p s = (Inl e, s') \<Longrightarrow> view s' = view s"
    and load_others: "ld p s = (r, s') \<Longrightarrow> q \<noteq> p \<Longrightarrow> view s' q = view s q"
    and save_view: "sv p a s = (Inr u, s') \<Longrightarrow> view s' p = Some a"
    and save_error: "sv p a s = (Inl e, s') \<Longrightarrow> view s' = view s"
    and save_others: "sv p a s = (w, s') \<Longrightarrow> q \<noteq> p \<Longrightarrow> view s' q = view s q"
begin

lemma transact_others:
  assumes "transact (ld p) (sv p) f s = (r, s')" and "q \<noteq> p"
  shows "view s' q = view s q"
  using assms load_others [of p s] save_others [of p]
  by (auto simp: transact_def split: sum.splits prod.splits option.splits)

lemma transact_stored:
  assumes "transact (ld p) (sv p) f s = (r, s')" and "view s p = Some a"
  shows "r = Inr x \<Longrightarrow> \<exists>a'. f a = Inr (a', x) \<and> view s' p = Some (case a' of None \<Rightarrow> a | Some b \<Rightarrow> b)"
    and "r = Inl e \<Longrightarrow> view s' = view s"
proof -
  have "(r = Inr x \<longrightarrow> (\<exists>a'. f a = Inr (a', x) \<and> view s' p = Some (case a' of None \<Rightarrow> a | Some b \<Rightarrow> b))) \<and>
    (r = Inl e \<longrightarrow> view s' = view s)"
    using assms save_view [of p _ s] save_error [of p _ s]
    by (auto simp: transact_def load_again split: sum.splits prod.splits option.splits)
  then show "r = Inr x \<Longrightarrow> \<exists>a'. f a = Inr (a', x) \<and> view s' p = Some (case a' of None \<Rightarrow> a | Some b \<Rightarrow> b)"
    and "r = Inl e \<Longrightarrow> view s' = view s" by blast+
qed

lemma transact_view:
  assumes "transact (ld p) (sv p) f s = (Inr x, s')"
  shows "\<exists>a a'. f a = Inr (a', x) \<and> view s' p = Some (case a' of None \<Rightarrow> a | Some b \<Rightarrow> b) \<and>
    (\<forall>b. view s p = Some b \<longrightarrow> b = a)"
proof -
  obtain a s0 where l: "ld p s = (Inr a, s0)"
    using assms by (auto simp: transact_def split: sum.splits prod.splits)
  then have "transact (ld p) (sv p) f s0 = (Inr x, s')"
    using assms load_again [OF load_view [OF l]] by (simp add: transact_def)
  from transact_stored(1) [OF this load_view [OF l] refl] l load_again show ?thesis by fastforce
qed

text \<open>An invariant of accounts that the computation keeps holds of every account afterwards.\<close>

lemma transact_invariant:
  assumes "transact (ld p) (sv p) f s = (r, s')"
    and "\<And>q a. view s q = Some a \<Longrightarrow> P a"
    and "\<And>a s1. ld p s = (Inr a, s1) \<Longrightarrow> P a"
    and "\<And>a a' x. P a \<Longrightarrow> f a = Inr (Some a', x) \<Longrightarrow> P a'"
    and "view s' q = Some a"
  shows "P a"
proof (cases "q = p")
  case False
  then show ?thesis using transact_others [OF assms(1)] assms(2,5) by metis
next
  case True
  obtain r0 s0 where l: "ld p s = (r0, s0)" by fastforce
  show ?thesis
  proof (cases r0)
    case (Inl e)
    then have "s' = s0" using assms(1) l by (simp add: transact_def)
    then show ?thesis using load_error [of p s e s0] l Inl assms(2,5) by metis
  next
    case (Inr b)
    have v: "view s0 p = Some b" using load_view l Inr by metis
    have b: "P b" using assms(3) l Inr by blast
    show ?thesis
    proof (cases "f b")
      case (Inl e)
      then have "s' = s0" using assms(1) l Inr by (simp add: transact_def)
      then show ?thesis using v b assms(5) True by simp
    next
      case f: (Inr y)
      then obtain o1 x where y: "f b = Inr (o1, x)" by (cases y) auto
      show ?thesis
      proof (cases o1)
        case None
        then have "s' = s0" using assms(1) l Inr y by (simp add: transact_def)
        then show ?thesis using v b assms(5) True by simp
      next
        case (Some c)
        obtain r1 s1 where sv: "sv p c s0 = (r1, s1)" by fastforce
        then have "s' = s1" using assms(1) l Inr y Some
          by (auto simp: transact_def split: sum.splits)
        then show ?thesis
          using sv save_view [of p c s0] save_error [of p c s0] v b assms(4) [OF b] y Some assms(5) True
          by (cases r1) fastforce+
      qed
    qed
  qed
qed

end

text \<open>The account in the file of a player, when it is a valid one.\<close>

definition stored_account :: "economyStore \<Rightarrow> u64 \<Rightarrow> economyAccount option" where
  "stored_account s p =
     (case ed_accounts s p of
        Content sa \<Rightarrow>
          if sa_version sa = 2 \<and> \<not> sa_null_balances sa \<and> \<not> sa_null_items sa
          then Some (sa_account sa) else None
      | _ \<Rightarrow> None)"

lemma stored_account_file [simp]: "ed_accounts s p = account_file a \<Longrightarrow> stored_account s p = Some a"
  by (simp add: stored_account_def account_file_def)

lemma stored_account_load: "stored_account s p = Some a \<longleftrightarrow> load cat start p s = (Inr a, s) \<and> ed_accounts s p \<noteq> Missing"
  by (cases "ed_accounts s p") (auto simp: stored_account_def load_def)

interpretation disk: account_store "load cat start" save stored_account for cat start
proof
  fix p s a s' assume "load cat start p s = (Inr a, s')"
  then have "stored_account s p = Some a \<and> s' = s \<or> save p a s = (Inr (), s')"
    by (cases "ed_accounts s p")
      (auto simp: load_def stored_account_def split: sum.splits prod.splits if_splits)
  then show "stored_account s' p = Some a" using save_result(2) by fastforce
next
  fix s p a assume "stored_account s p = Some a"
  then show "load cat start p s = (Inr a, s)" using stored_account_load by blast
next
  fix p s e s' assume "load cat start p s = (Inl e, s')"
  then show "stored_account s' = stored_account s"
    using load_result(3) by (fastforce simp: stored_account_def)
next
  fix p s r s' q assume "load cat start p s = (r, s')" and "q \<noteq> p"
  then show "stored_account s' q = stored_account s q"
    using load_result(1) by (fastforce simp: stored_account_def same_others_def)
next
  fix p a s u s' assume "save p a s = (Inr u, s')"
  then show "stored_account s' p = Some a" using save_result(2) by fastforce
next
  fix p a s e s' assume "save p a s = (Inl e, s')"
  then show "stored_account s' = stored_account s"
    using save_result(3) by (fastforce simp: stored_account_def)
next
  fix p a s r s' q assume "save p a s = (r, s')" and "q \<noteq> p"
  then show "stored_account s' q = stored_account s q"
    using save_result(1) by (fastforce simp: stored_account_def same_others_def)
qed

lemma purchase_transact:
  "purchase cat start p skus =
     transact (load cat start p) (save p)
       (\<lambda>a. case buy_skus cat skus (a, 0) of Inl e \<Rightarrow> Inl e | Inr (a, tot) \<Rightarrow> Inr (Some a, tot))"
  by (rule ext) (auto simp: purchase_def transact_def split: sum.splits prod.splits)

subsection \<open>Prices and coins\<close>

lemma balance_credit [simp]:
  "balance c (credit x a) = (if c = wumpaCurrency then wrap64 (coins a + x) else balance c a)"
  by (simp add: credit_def balance_def coins_def)

lemma coins_credit: "in_i64 (coins a + x) \<Longrightarrow> coins (credit x a) = coins a + x"
  by (simp add: coins_def balance_credit wrap64_id)

lemma coins_items [simp]: "coins (a\<lparr>ea_items := i\<rparr>) = coins a" "balance c (a\<lparr>ea_items := i\<rparr>) = balance c a"
  by (simp_all add: coins_def balance_def)

lemma credit_fields [simp]:
  "ea_items (credit x a) = ea_items a" "ea_challenges (credit x a) = ea_challenges a"
  "ea_refresh (credit x a) = ea_refresh a" "ea_receipts (credit x a) = ea_receipts a"
  "ea_online (credit x a) = ea_online a"
  by (simp_all add: credit_def)

text \<open>What buying does to an account, and what the buyer must have had.\<close>

definition bought :: "catalog \<Rightarrow> u32 list \<Rightarrow> u32 set" where
  "bought cat skus = (\<Union>i \<in> set skus. case cat i of None \<Rightarrow> {} | Some sku \<Rightarrow> set (sku_items sku))"

lemma bought_simps [simp]:
  "bought cat [] = {}"
  "bought cat (i # is) = (case cat i of None \<Rightarrow> {} | Some sku \<Rightarrow> set (sku_items sku)) \<union> bought cat is"
  by (simp_all add: bought_def)

lemma buy_skus_spends:
  assumes "buy_skus cat skus (a, t) = Inr (a', t')" and "in_i64 (coins a)" and "0 \<le> t" and "in_i64 (t + coins a)"
  shows "0 \<le> t' - t \<and> coins a' = coins a - (t' - t) \<and> (0 \<le> coins a \<longrightarrow> 0 \<le> coins a') \<and>
    ea_items a' = ea_items a \<union> bought cat skus \<and> list_all (\<lambda>i. cat i \<noteq> None) skus"
  using assms
proof (induction cat skus "(a, t)" arbitrary: a t rule: buy_skus.induct)
  case (2 cat i ids a t)
  then obtain sku price where sku: "cat i = Some sku" "skuPrice cat a sku = Inr price"
    and fits: "0 \<le> price" "price \<le> coins a"
    by (auto split: option.splits sum.splits if_splits)
  define b where "b = (credit (- price) a)\<lparr>ea_items := ea_items (credit (- price) a) \<union> set (sku_items sku)\<rparr>"
  have coins: "coins b = coins a - price"
    using fits 2(3) by (simp add: b_def coins_credit in_i64_def)
  have t: "wrap64 (t + price) = t + price"
    using fits 2(4,5) by (intro wrap64_id) (simp add: in_i64_def)
  have run: "buy_skus cat ids (b, wrap64 (t + price)) = Inr (a', t')"
    using 2(2) sku fits by (simp add: b_def Let_def not_less split: if_splits)
  have "0 \<le> t' - (t + price) \<and> coins a' = coins b - (t' - (t + price)) \<and>
      (0 \<le> coins b \<longrightarrow> 0 \<le> coins a') \<and> ea_items a' = ea_items b \<union> bought cat ids \<and>
      list_all (\<lambda>i. cat i \<noteq> None) ids"
    using 2(1) [OF sku _ refl b_def] run t coins fits 2(3-5)
    by (auto simp: in_i64_def b_def)
  then show ?case using coins fits sku by (auto simp: b_def)
qed simp

end
