(* ===== verification/EconomyProps.thy ===== *)
theory EconomyProps
  imports Economy
begin

text \<open>Purchases are exact and all-or-nothing, retries are free, and the pages make the inventory.\<close>

lemma buy_skus_fields:
  "buy_skus cat skus (a, t) = Inr (a', t') \<Longrightarrow>
   ea_challenges a' = ea_challenges a \<and> ea_refresh a' = ea_refresh a \<and>
   ea_receipts a' = ea_receipts a \<and> ea_online a' = ea_online a \<and>
   (\<forall>c. c \<noteq> wumpaCurrency \<longrightarrow> balance c a' = balance c a)"
proof (induction cat skus "(a, t)" arbitrary: a t rule: buy_skus.induct)
  case (2 cat i ids a t)
  from 2(2) show ?case
    by (auto simp: Let_def split: option.splits sum.splits if_splits dest!: 2(1))
qed simp

text \<open>C21: A purchase either fails and changes no account, or takes exactly the returned debit from the
  buyer's coins, which never go negative, and grants exactly the items of every SKU asked for; the
  rest of the account and all other accounts stay the same.\<close>

theorem purchase_all_or_nothing:
  assumes "purchase cat start p skus s = (r, s')"
    and "stored_account s p = Some a" and "in_i64 (coins a)"
  shows "case r of
      Inl e \<Rightarrow> stored_account s' = stored_account s
    | Inr debit \<Rightarrow> 0 \<le> debit \<and> (\<forall>q. q \<noteq> p \<longrightarrow> stored_account s' q = stored_account s q) \<and>
        (\<exists>a'. stored_account s' p = Some a' \<and> coins a' = coins a - debit \<and>
          (0 \<le> coins a \<longrightarrow> 0 \<le> coins a') \<and> ea_items a' = ea_items a \<union> bought cat skus \<and>
          (\<forall>c. c \<noteq> wumpaCurrency \<longrightarrow> balance c a' = balance c a) \<and>
          ea_challenges a' = ea_challenges a \<and> ea_refresh a' = ea_refresh a \<and>
          ea_receipts a' = ea_receipts a \<and> ea_online a' = ea_online a)"
proof -
  note run = assms(1) [unfolded purchase_transact]
  note others = disk.transact_others [OF run]
  show ?thesis
  proof (cases r)
    case (Inl e)
    then show ?thesis using disk.transact_stored(2) [OF run assms(2)] by simp
  next
    case (Inr debit)
    obtain a' where a': "buy_skus cat skus (a, 0) = Inr (a', debit)" "stored_account s' p = Some a'"
      using disk.transact_stored(1) [OF run assms(2) Inr] by (auto split: sum.splits)
    from buy_skus_spends [OF a'(1) assms(3)] assms(3) buy_skus_fields [OF a'(1)] a'(2) Inr others
    show ?thesis by auto
  qed
qed

definition ex_catalog :: catalog where
  "ex_catalog = [1 \<mapsto> \<lparr>sku_items = [5, 6], sku_parts = [], sku_price = 100\<rparr>,
                 2 \<mapsto> \<lparr>sku_items = [5, 6, 7], sku_parts = [1, 3], sku_price = 500\<rparr>,
                 3 \<mapsto> \<lparr>sku_items = [7], sku_parts = [], sku_price = 30\<rparr>]"

definition ex_account :: economyAccount where
  "ex_account = new_account [wumpaCurrency \<mapsto> 140] {9}"

definition ex_store :: economyStore where
  "ex_store = \<lparr>ed_accounts = (\<lambda>_. Missing)(8 := account_file ex_account), ed_wallets = (\<lambda>_. Missing),
               ed_skus = (\<lambda>_. Missing), ed_writes = []\<rparr>"

lemma ex_stored: "stored_account ex_store 8 = Some ex_account"
  by (simp add: ex_store_def)

lemma ex_coins: "coins ex_account = 140"
  by (simp add: ex_account_def new_account_def coins_def balance_def)

lemmas buy_simps = purchase_def ownsSKU_def skuPrice_def ex_catalog_def Let_def coins_def wrap64_def
  balance_def credit_def ex_account_def new_account_def wumpaCurrency_def

lemma ex_buy: "\<exists>s'. purchase ex_catalog 0 8 [1, 2] ex_store = (Inr 130, s')"
  by (simp add: buy_simps ex_store_def save_def)

lemma ex_buy_twice:
  "\<exists>s1 d s2. purchase ex_catalog 0 8 [1, 2] ex_store = (Inr 130, s1) \<and>
     purchase ex_catalog 0 8 [1, 2] s1 = (Inr d, s2)"
  by (simp add: buy_simps ex_store_def save_def load_def account_file_def)

lemma purchase_all_or_nothing_witness:
  "\<exists>s' a'. purchase ex_catalog 0 8 [1, 2] ex_store = (Inr 130, s') \<and>
    stored_account s' 8 = Some a' \<and> coins a' = 10 \<and> ea_items a' = {5, 6, 7, 9}"
proof -
  obtain s' where s: "purchase ex_catalog 0 8 [1, 2] ex_store = (Inr 130, s')" using ex_buy by blast
  have "bought ex_catalog [1, 2] = {5, 6, 7}" by (auto simp: ex_catalog_def)
  moreover have "ea_items ex_account = {9}" by (simp add: ex_account_def new_account_def)
  ultimately show ?thesis
    using purchase_all_or_nothing [OF s ex_stored] s ex_coins by (auto simp: in_i64_def)
qed

text \<open>Everything bought is owned, and owned things cost nothing.\<close>

lemma owned_free: "ownsSKU a sku \<Longrightarrow> skuPrice cat a sku = Inr 0"
  by (simp add: skuPrice_def)

lemma buy_owned:
  assumes "list_all (\<lambda>i. \<exists>sku. cat i = Some sku \<and> sku_items sku \<noteq> []) skus"
    and "bought cat skus \<subseteq> ea_items a" and "0 \<le> coins a" and "in_i64 (coins a)" and "in_i64 t"
  shows "\<exists>a'. buy_skus cat skus (a, t) = Inr (a', t) \<and> coins a' = coins a \<and> ea_items a' = ea_items a"
  using assms
proof (induction cat skus "(a, t)" arbitrary: a rule: buy_skus.induct)
  case (2 cat i ids a)
  then obtain sku where sku: "cat i = Some sku" "sku_items sku \<noteq> []" by auto
  have "ownsSKU a sku" using 2(3) sku by (auto simp: ownsSKU_def list_all_iff)
  then have p: "skuPrice cat a sku = Inr 0" by (rule owned_free)
  define b where "b = (credit (- 0) a)\<lparr>ea_items := ea_items (credit (- 0) a) \<union> set (sku_items sku)\<rparr>"
  have b: "coins b = coins a" "ea_items b = ea_items a"
    using 2(3,5) sku by (auto simp: b_def coins_credit)
  have t: "wrap64 (t + 0) = t" using 2(6) by (simp add: wrap64_id)
  have "\<exists>a'. buy_skus cat ids (b, t) = Inr (a', t) \<and> coins a' = coins b \<and> ea_items a' = ea_items b"
    using 2(1) [OF sku(1) p _ refl b_def] 2(2-6) b t by auto
  then show ?case using sku p t b 2(4) by (simp add: Let_def b_def [simplified, symmetric])
qed simp

text \<open>C22: Repeating a purchase that succeeded costs nothing and changes neither the coins nor the
  items: a client that did not see the answer may ask again.\<close>

theorem purchase_retry_is_free:
  assumes "purchase cat start p skus s = (Inr debit, s1)"
    and "stored_account s p = Some a" and "0 \<le> coins a" and "in_i64 (coins a)"
    and "list_all (\<lambda>i. \<exists>sku. cat i = Some sku \<and> sku_items sku \<noteq> []) skus"
    and "purchase cat start p skus s1 = (Inr debit2, s2)"
  shows "debit2 = 0 \<and> (\<exists>a1 a2. stored_account s1 p = Some a1 \<and> stored_account s2 p = Some a2 \<and>
    coins a2 = coins a1 \<and> ea_items a2 = ea_items a1)"
proof -
  obtain a1 where a1: "buy_skus cat skus (a, 0) = Inr (a1, debit)" "stored_account s1 p = Some a1"
    using disk.transact_stored(1) [OF assms(1) [unfolded purchase_transact] assms(2)]
    by (auto split: sum.splits)
  note spent = buy_skus_spends [OF a1(1) assms(4)]
  have a1': "0 \<le> coins a1" "in_i64 (coins a1)" "bought cat skus \<subseteq> ea_items a1"
    using spent assms(3,4) by (auto simp: in_i64_def)
  obtain a2 where a2: "buy_skus cat skus (a1, 0) = Inr (a2, debit2)" "stored_account s2 p = Some a2"
    using disk.transact_stored(1) [OF assms(6) [unfolded purchase_transact] a1(2)]
    by (auto split: sum.splits)
  have "in_i64 0" by (simp add: in_i64_def)
  with buy_owned [OF assms(5) a1'(3,1,2)] a1 a2 show ?thesis by fastforce
qed

lemma purchase_retry_is_free_witness:
  "\<exists>s1 s2. purchase ex_catalog 0 8 [1, 2] ex_store = (Inr 130, s1) \<and>
    purchase ex_catalog 0 8 [1, 2] s1 = (Inr 0, s2)"
proof -
  obtain s1 d s2 where s1: "purchase ex_catalog 0 8 [1, 2] ex_store = (Inr 130, s1)"
    and s2: "purchase ex_catalog 0 8 [1, 2] s1 = (Inr d, s2)" using ex_buy_twice by blast
  have "list_all (\<lambda>i. \<exists>sku. ex_catalog i = Some sku \<and> sku_items sku \<noteq> []) [1, 2]"
    by (simp add: ex_catalog_def)
  then have "d = 0"
    using purchase_retry_is_free [OF s1 ex_stored _ _ _ s2] ex_coins by (simp add: in_i64_def)
  with s1 s2 show ?thesis by blast
qed

subsection \<open>Pages\<close>

lemma page_slice:
  assumes "unat page = Suc k"
  shows "inventoryPage a page psize = take (unat psize) (drop (k * unat psize) (owned_items a))"
proof -
  have "unat (page - 1) = k" using assms by (simp add: unat_minus_one [of page] unat_eq_0 [symmetric])
  moreover have "page \<noteq> 0" using assms by auto
  ultimately show ?thesis
    by (auto simp: inventoryPage_def Let_def subslice_def min_def)
qed

lemma pages_prefix:
  "concat (map (\<lambda>k. inventoryPage a (of_nat (Suc k)) psize) [0..<n]) =
   take (n * unat psize) (owned_items a)" if "n < 2 ^ 32 - 1"
  using that
proof (induction n)
  case (Suc n)
  have "unat (of_nat (Suc n) :: u32) = Suc n"
    using Suc.prems by (simp add: unat_of_nat take_bit_nat_eq_self del: of_nat_Suc)
  moreover have "take (Suc n * unat psize) xs = take (n * unat psize) xs @
      take (unat psize) (drop (n * unat psize) xs)" for xs :: "u32 list"
    using take_add [of "n * unat psize" "unat psize" xs] by (simp add: add.commute)
  ultimately show ?case using Suc by (simp add: page_slice del: of_nat_Suc mult_Suc)
qed simp

text \<open>Asked page by page, from page 1, the inventory comes out in ascending order, every item
  exactly once: the pages up to the \<open>n\<close>-th together are the first \<open>n * size\<close> items, and all of
  them once that many fit.\<close>

theorem inventory_pages_cover:
  assumes "n < 2 ^ 32 - 1" and "card (ea_items a) \<le> n * unat psize"
  shows "concat (map (\<lambda>k. inventoryPage a (of_nat (Suc k)) psize) [0..<n]) = sorted_list_of_set (ea_items a)"
  using pages_prefix [of n a psize] assms by (simp add: owned_items_def)

lemma inventory_pages_cover_witness:
  "inventoryPage (new_account Map.empty {3, 9, 4}) 1 2 @ inventoryPage (new_account Map.empty {3, 9, 4}) 2 2 = [3, 4, 9]"
  using inventory_pages_cover [of 2 "new_account Map.empty {3, 9, 4}" 2]
  by (simp add: upt_rec new_account_def)

end
