(* ===== verification/Sha256.thy ===== *)
theory Sha256
  imports Crypto
begin

text \<open>
  SHA-256 and HMAC-SHA256 (\<open>crypto/sha256\<close>, \<open>crypto/hmac\<close>), which sign the identity claims and
  name the receipts of reward events. The padding is that of SHA-1.
\<close>

text \<open>
  The round constants are the first 32 bits of the fractional parts of the cube roots of the
  first 64 primes, found bit by bit.
\<close>

definition small_primes :: "nat list" where
  "small_primes = filter (\<lambda>n. list_all (\<lambda>d. n mod d \<noteq> 0) [2..<n]) [2..<312]"

fun cube_root :: "nat \<Rightarrow> nat \<Rightarrow> nat \<Rightarrow> nat" where
  "cube_root 0 n x = x"
| "cube_root (Suc k) n x =
     (let y = x + 2 ^ k in cube_root k n (if y * y * y \<le> n then y else x))"

definition sha256_k :: "u32 list" where
  "sha256_k = map (\<lambda>q. of_nat (cube_root 35 (q * 2 ^ 96) 0)) small_primes"

text \<open>The message schedule, latest word first.\<close>

fun sha256_extend :: "nat \<Rightarrow> u32 list \<Rightarrow> u32 list" where
  "sha256_extend 0 ws = ws"
| "sha256_extend (Suc n) ws =
     (let x = ws ! 14; y = ws ! 1;
          s0 = word_rotr 7 x XOR word_rotr 18 x XOR drop_bit 3 x;
          s1 = word_rotr 17 y XOR word_rotr 19 y XOR drop_bit 10 y
      in sha256_extend n ((ws ! 15 + s0 + ws ! 6 + s1) # ws))"

type_synonym sha256_state = "u32 \<times> u32 \<times> u32 \<times> u32 \<times> u32 \<times> u32 \<times> u32 \<times> u32"

fun sha256_rounds :: "(u32 \<times> u32) list \<Rightarrow> sha256_state \<Rightarrow> sha256_state" where
  "sha256_rounds [] s = s"
| "sha256_rounds ((w, k) # rest) (a, b, c, d, e, f, g, h) =
     (let s1 = word_rotr 6 e XOR word_rotr 11 e XOR word_rotr 25 e;
          ch = (e AND f) XOR (NOT e AND g);
          t1 = h + s1 + ch + k + w;
          s0 = word_rotr 2 a XOR word_rotr 13 a XOR word_rotr 22 a;
          maj = (a AND b) XOR (a AND c) XOR (b AND c)
      in sha256_rounds rest (t1 + s0 + maj, a, b, c, d + t1, e, f, g))"

definition sha256_block :: "bytes \<Rightarrow> sha256_state \<Rightarrow> sha256_state" where
  "sha256_block blk s =
     (case (s, sha256_rounds (zip (rev (sha256_extend 48 (rev (be_words blk)))) sha256_k) s) of
        ((a, b, c, d, e, f, g, h), (a', b', c', d', e', f', g', h')) \<Rightarrow>
          (a + a', b + b', c + c', d + d', e + e', f + f', g + g', h + h'))"

function sha256_blocks :: "bytes \<Rightarrow> sha256_state \<Rightarrow> sha256_state" where
  "sha256_blocks m s =
     (if length m < 64 then s else sha256_blocks (drop 64 m) (sha256_block (take 64 m) s))"
  by pat_completeness auto
termination by (relation "measure (\<lambda>(m, _). length m)") auto

declare sha256_blocks.simps [simp del]

definition sha256 :: "bytes \<Rightarrow> bytes" where
  "sha256 m =
     (case sha256_blocks (sha1_pad m)
        (0x6a09e667, 0xbb67ae85, 0x3c6ef372, 0xa54ff53a, 0x510e527f, 0x9b05688c, 0x1f83d9ab, 0x5be0cd19) of
        (a, b, c, d, e, f, g, h) \<Rightarrow>
          be_bytes 4 a @ be_bytes 4 b @ be_bytes 4 c @ be_bytes 4 d @
          be_bytes 4 e @ be_bytes 4 f @ be_bytes 4 g @ be_bytes 4 h)"

definition hmacSHA256 :: "bytes \<Rightarrow> bytes \<Rightarrow> bytes" where
  "hmacSHA256 key m =
     (let k = (if length key > 64 then sha256 key else key);
          k = k @ replicate (64 - length k) 0
      in sha256 (map (\<lambda>b. b XOR 0x5C) k @ sha256 (map (\<lambda>b. b XOR 0x36) k @ m)))"

lemma length_sha256 [simp]: "length (sha256 m) = 32"
  by (simp add: sha256_def be_bytes_def split: prod.splits)

lemma length_hmacSHA256 [simp]: "length (hmacSHA256 k m) = 32"
  by (simp add: hmacSHA256_def Let_def)

text \<open>Lower-case hexadecimal, as \<open>%x\<close> and \<open>hex.EncodeToString\<close> print bytes.\<close>

definition hex_char :: "nat \<Rightarrow> char" where
  "hex_char d = (if d < 10 then char_of (48 + d) else char_of (87 + d))"

definition hex_string :: "bytes \<Rightarrow> string" where
  "hex_string bs = concat (map (\<lambda>b. [hex_char (unat b div 16), hex_char (unat b mod 16)]) bs)"

lemma length_hex_string: "length (hex_string bs) = 2 * length bs"
  by (induction bs) (simp_all add: hex_string_def)

end
