(* ===== verification/JsonText.thy ===== *)
theory JsonText
  imports Decimal "HOL-Library.Char_ord" "HOL-Library.List_Lexorder" "HOL-Library.Multiset"
begin

text \<open>
  The JSON text \<open>encoding/json\<close> writes for strings, with its escapes: quotes, backslashes and
  control characters, the HTML characters, the two Unicode line separators, and \<open>\ufffd\<close> for a
  byte that is not valid UTF-8. A HOL \<open>char\<close> is a byte.
\<close>

text \<open>Conversion from the byte strings of the wire, Go's \<open>string(b)\<close>.\<close>

definition str_of :: "8 word list \<Rightarrow> string" where
  "str_of bs = map (\<lambda>b. char_of (unat b)) bs"

text \<open>Bytes of the UTF-8 sequence at the head, 0 when there is none.\<close>

definition cont_byte :: "nat \<Rightarrow> bool" where
  "cont_byte b \<longleftrightarrow> 128 \<le> b \<and> b < 192"

fun utf8_size :: "nat list \<Rightarrow> nat" where
  "utf8_size (a # b # c # d # _) =
     (if a < 128 then 1
      else if 194 \<le> a \<and> a < 224 \<and> cont_byte b then 2
      else if 224 \<le> a \<and> a < 240 \<and> cont_byte b \<and> cont_byte c \<and>
              (a = 224 \<longrightarrow> 160 \<le> b) \<and> (a = 237 \<longrightarrow> b < 160) then 3
      else if 240 \<le> a \<and> a < 245 \<and> cont_byte b \<and> cont_byte c \<and> cont_byte d \<and>
              (a = 240 \<longrightarrow> 144 \<le> b) \<and> (a = 244 \<longrightarrow> b < 144) then 4
      else 0)"
| "utf8_size [a, b, c] =
     (if a < 128 then 1
      else if 194 \<le> a \<and> a < 224 \<and> cont_byte b then 2
      else if 224 \<le> a \<and> a < 240 \<and> cont_byte b \<and> cont_byte c \<and>
              (a = 224 \<longrightarrow> 160 \<le> b) \<and> (a = 237 \<longrightarrow> b < 160) then 3
      else 0)"
| "utf8_size [a, b] = (if a < 128 then 1 else if 194 \<le> a \<and> a < 224 \<and> cont_byte b then 2 else 0)"
| "utf8_size [a] = (if a < 128 then 1 else 0)"
| "utf8_size [] = 0"

definition hex_digit_char :: "nat \<Rightarrow> char" where
  "hex_digit_char d = (if d < 10 then char_of (48 + d) else char_of (87 + d))"

definition backslash :: char where "backslash = char_of (92 :: nat)"
definition dquote :: char where "dquote = char_of (34 :: nat)"

definition escape_ascii :: "char \<Rightarrow> string" where
  "escape_ascii c =
     (let n = of_char c :: nat in
      if c = dquote \<or> c = backslash then [backslash, c]
      else if n = 8 then backslash # ''b''
      else if n = 12 then backslash # ''f''
      else if n = 10 then backslash # ''n''
      else if n = 13 then backslash # ''r''
      else if n = 9 then backslash # ''t''
      else if n < 32 \<or> n = 60 \<or> n = 62 \<or> n = 38
        then backslash # ''u00'' @ [hex_digit_char (n div 16), hex_digit_char (n mod 16)]
      else [c])"

function json_chars :: "string \<Rightarrow> string" where
  "json_chars [] = []"
| "json_chars (c # cs) =
     (let n = utf8_size (map of_char (c # cs)) in
      if n = 0 then backslash # ''ufffd'' @ json_chars cs
      else if n = 1 then escape_ascii c @ json_chars cs
      else if n = 3 \<and> map of_char (take 3 (c # cs)) \<in> {[226, 128, 168], [226, 128, 169 :: nat]}
        then backslash # ''u202'' @ [hex_digit_char (of_char (cs ! 1) mod 16)] @ json_chars (drop 2 cs)
      else take n (c # cs) @ json_chars (drop (n - 1) cs))"
  by pat_completeness auto
termination by (relation "measure length") auto

declare json_chars.simps [simp del]

definition json_string :: "string \<Rightarrow> string" where
  "json_string s = dquote # json_chars s @ [dquote]"

text \<open>Go's \<open>json.Marshal\<close> of a \<open>map[string]uint64\<close>: the keys sorted, at each key its value.\<close>

definition json_members :: "(string \<times> string) list \<Rightarrow> string" where
  "json_members ms =
     ''{'' @ concat (map (\<lambda>(i, k, v). (if i = 0 then [] else '','') @ json_string k @ '':'' @ v)
                    (zip [0 :: nat..<length ms] ms)) @ ''}''"

definition json_u64_map :: "(string \<times> 64 word) list \<Rightarrow> string" where
  "json_u64_map kvs = json_members (map (\<lambda>(k, v). (k, fmt_u64 v)) (sort_key fst kvs))"

text \<open>A key-value list with distinct keys prints the same in any order.\<close>

lemma filter_same_key:
  "distinct (map fst zs) \<Longrightarrow> k \<in> set zs \<Longrightarrow> filter (\<lambda>x. fst k = fst x) zs = [k]"
proof (induction zs)
  case (Cons z zs)
  then show ?case
    by (cases "k = z") (auto simp: filter_empty_conv image_iff)
qed simp

lemma sort_key_fst_mset:
  assumes "mset xs = mset ys" and "distinct (map fst xs)"
  shows "sort_key fst xs = sort_key fst ys"
proof (rule properties_for_sort_key)
  have "mset (map fst xs) = mset (map fst ys)" using assms(1) by simp
  then have dist: "distinct (map fst ys)" using assms(2) by (metis mset_eq_imp_distinct_iff)
  show "mset (sort_key fst ys) = mset xs" using assms(1) by simp
  fix k assume k: "k \<in> set (sort_key fst ys)"
  have "mset (map fst (sort_key fst ys)) = mset (map fst ys)" by simp
  then have "distinct (map fst (sort_key fst ys))" using dist by (metis mset_eq_imp_distinct_iff)
  moreover have "k \<in> set xs" using k assms(1) by (metis set_sort mset_eq_setD)
  ultimately show "filter (\<lambda>x. fst k = fst x) (sort_key fst ys) = filter (\<lambda>x. fst k = fst x) xs"
    using k filter_same_key assms(2) by metis
qed simp

lemma json_u64_map_order:
  "mset xs = mset ys \<Longrightarrow> distinct (map fst xs) \<Longrightarrow> json_u64_map xs = json_u64_map ys"
  by (simp add: json_u64_map_def sort_key_fst_mset [of xs ys])

end
