(* ===== verification/Calendar.thy ===== *)
theory Calendar
  imports Decimal
begin

text \<open>
  Dates of the proleptic Gregorian calendar from 1970 on, as Go's \<open>time\<close> package computes and
  prints them in UTC: a day is its number since 1970-01-01. The year and the month are found by
  counting, and \<open>days_of\<close> is the way back.
\<close>

definition leap :: "nat \<Rightarrow> bool" where
  "leap y \<longleftrightarrow> y mod 4 = 0 \<and> (y mod 100 \<noteq> 0 \<or> y mod 400 = 0)"

definition year_days :: "nat \<Rightarrow> nat" where
  "year_days y = (if leap y then 366 else 365)"

definition month_lengths :: "nat \<Rightarrow> nat list" where
  "month_lengths y = [31, if leap y then 29 else 28, 31, 30, 31, 30, 31, 31, 30, 31, 30, 31]"

lemma year_days_pos [simp]: "0 < year_days y"
  by (simp add: year_days_def)

function year_loop :: "nat \<Rightarrow> nat \<Rightarrow> nat \<times> nat" where
  "year_loop y r = (if r < year_days y then (y, r) else year_loop (Suc y) (r - year_days y))"
  by pat_completeness auto
termination by (relation "measure snd") (auto simp: not_less intro: diff_less [OF year_days_pos] less_le_trans [OF year_days_pos])

declare year_loop.simps [simp del]

fun month_loop :: "nat list \<Rightarrow> nat \<Rightarrow> nat \<Rightarrow> nat \<times> nat" where
  "month_loop [] m r = (m, r + 1)"
| "month_loop (l # ls) m r = (if r < l then (m, r + 1) else month_loop ls (m + 1) (r - l))"

text \<open>Year, month (1 to 12) and day of the month of a day.\<close>

definition civil :: "nat \<Rightarrow> nat \<times> nat \<times> nat" where
  "civil n =
     (case year_loop 1970 n of (y, r) \<Rightarrow>
        (case month_loop (month_lengths y) 1 r of (m, d) \<Rightarrow> (y, m, d)))"

definition valid_date :: "nat \<Rightarrow> nat \<Rightarrow> nat \<Rightarrow> bool" where
  "valid_date y m d \<longleftrightarrow> 1970 \<le> y \<and> 1 \<le> m \<and> m \<le> 12 \<and> 1 \<le> d \<and> d \<le> month_lengths y ! (m - 1)"

definition days_of :: "nat \<Rightarrow> nat \<Rightarrow> nat \<Rightarrow> nat" where
  "days_of y m d =
     sum_list (map year_days [1970..<y]) + sum_list (take (m - 1) (month_lengths y)) + (d - 1)"

lemma length_month_lengths [simp]: "length (month_lengths y) = 12"
  by (simp add: month_lengths_def)

lemma sum_month_lengths: "sum_list (month_lengths y) = year_days y"
  by (simp add: month_lengths_def year_days_def)

lemma year_loop_sum:
  "y0 \<le> y \<Longrightarrow> r < year_days y \<Longrightarrow> year_loop y0 (sum_list (map year_days [y0..<y]) + r) = (y, r)"
proof (induction "y - y0" arbitrary: y0)
  case 0
  then show ?case by (simp add: year_loop.simps)
next
  case (Suc k)
  then have "y0 < y" by simp
  then have "[y0..<y] = y0 # [Suc y0..<y]" by (rule upt_conv_Cons)
  moreover have "year_loop (Suc y0) (sum_list (map year_days [Suc y0..<y]) + r) = (y, r)"
    using Suc by (intro Suc.hyps(1)) simp_all
  ultimately show ?case by (simp add: year_loop.simps [of y0])
qed

lemma month_loop_sum:
  "k < length ls \<Longrightarrow> r < ls ! k \<Longrightarrow> month_loop ls m (sum_list (take k ls) + r) = (m + k, r + 1)"
  by (induction ls arbitrary: k m) (auto simp: nth_Cons take_Cons split: nat.splits)

lemma sum_take_less: "k < length ls \<Longrightarrow> r < ls ! k \<Longrightarrow> sum_list (take k ls) + r < sum_list (ls :: nat list)"
  by (induction ls arbitrary: k) (auto simp: nth_Cons take_Cons split: nat.splits)

lemma civil_days_of:
  assumes "valid_date y m d"
  shows "civil (days_of y m d) = (y, m, d)"
proof -
  have k: "m - 1 < length (month_lengths y)" "d - 1 < month_lengths y ! (m - 1)" "1970 \<le> y"
    using assms by (auto simp: valid_date_def)
  have "sum_list (take (m - 1) (month_lengths y)) + (d - 1) < year_days y"
    using sum_take_less [OF k(1,2)] by (simp add: sum_month_lengths)
  then have "year_loop 1970 (days_of y m d) = (y, sum_list (take (m - 1) (month_lengths y)) + (d - 1))"
    using year_loop_sum [OF k(3)] by (simp add: days_of_def add.assoc)
  then show ?thesis
    using month_loop_sum [OF k(1,2), of 1] assms by (simp add: civil_def valid_date_def)
qed

lemma year_loop_inverse:
  "year_loop y0 n = (y, r) \<Longrightarrow> y0 \<le> y \<and> r < year_days y \<and> n = sum_list (map year_days [y0..<y]) + r"
proof (induction y0 n rule: year_loop.induct)
  case (1 y0 n)
  show ?case
  proof (cases "n < year_days y0")
    case True
    then show ?thesis using 1(2) by (auto simp: year_loop.simps [of y0 n])
  next
    case False
    then have IH: "Suc y0 \<le> y" "r < year_days y"
      "n - year_days y0 = sum_list (map year_days [Suc y0..<y]) + r"
      using 1 by (auto simp: year_loop.simps [of y0 n])
    then have "[y0..<y] = y0 # [Suc y0..<y]" by (intro upt_conv_Cons) simp
    then show ?thesis using False IH by simp
  qed
qed

lemma month_loop_inverse:
  "month_loop ls m0 r = (m, d) \<Longrightarrow> r < sum_list ls \<Longrightarrow>
   m0 \<le> m \<and> m - m0 < length ls \<and> 1 \<le> d \<and> d \<le> ls ! (m - m0) \<and> r = sum_list (take (m - m0) ls) + (d - 1)"
proof (induction ls m0 r rule: month_loop.induct)
  case (2 l ls m0 r)
  show ?case
  proof (cases "r < l")
    case False
    then have "m0 + 1 \<le> m \<and> m - (m0 + 1) < length ls \<and> 1 \<le> d \<and> d \<le> ls ! (m - (m0 + 1)) \<and>
        r - l = sum_list (take (m - (m0 + 1)) ls) + (d - 1)"
      using 2 by (intro "2.IH") auto
    moreover from this have "m - m0 = Suc (m - (m0 + 1))" by linarith
    ultimately show ?thesis using False by (simp, linarith)
  qed (use 2 in auto)
qed simp

lemma days_of_civil:
  assumes "civil n = (y, m, d)"
  shows "days_of y m d = n" and "valid_date y m d"
proof -
  obtain r where r: "year_loop 1970 n = (y, r)" "month_loop (month_lengths y) 1 r = (m, d)"
    using assms by (auto simp: civil_def split: prod.splits)
  note y = year_loop_inverse [OF r(1)]
  have "r < sum_list (month_lengths y)" using y by (simp add: sum_month_lengths)
  note month = month_loop_inverse [OF r(2) this]
  show "days_of y m d = n" using y month by (simp add: days_of_def)
  show "valid_date y m d" using y month by (auto simp: valid_date_def)
qed

subsection \<open>Printed dates\<close>

definition pad_dec :: "nat \<Rightarrow> nat \<Rightarrow> string" where
  "pad_dec w n = replicate (w - length (dec_string n)) CHR ''0'' @ dec_string n"

text \<open>\<open>Format("2006-01-02")\<close> of a day.\<close>

definition dateString :: "nat \<Rightarrow> string" where
  "dateString n =
     (case civil n of (y, m, d) \<Rightarrow> pad_dec 4 y @ ''-'' @ pad_dec 2 m @ ''-'' @ pad_dec 2 d)"

text \<open>Day of the week, 0 for Sunday.\<close>

definition weekday :: "int \<Rightarrow> int" where
  "weekday secs = (secs div 86400 + 4) mod 7"

text \<open>The day a moment, in seconds since 1970, falls on.\<close>

definition day_of :: "int \<Rightarrow> nat" where
  "day_of secs = nat (secs div 86400)"

text \<open>A printed number is read back, so different days print differently.\<close>

lemma dec_value_zeros: "dec_value 0 (replicate k CHR ''0'' @ s) = dec_value 0 s"
  by (induction k) (simp_all add: digit_value_def)

lemma dec_value_pad: "dec_value 0 (pad_dec w n) = Some n"
  by (simp add: pad_dec_def dec_value_zeros dec_value_dec_string)

lemma digits_dec_string: "c \<in> set (dec_string n) \<Longrightarrow> digit_value c \<noteq> None"
proof (induction n rule: dec_string.induct)
  case (1 n)
  then show ?case
    by (cases "n < 10") (auto simp: dec_string.simps [of n] digit_value_char)
qed

lemma no_dash: "CHR ''-'' \<notin> set (pad_dec w n)"
  using digits_dec_string [of "CHR ''-''" n] by (auto simp: pad_dec_def digit_value_def)

lemma split_dash:
  "xs @ CHR ''-'' # us = ys @ CHR ''-'' # vs \<Longrightarrow> CHR ''-'' \<notin> set xs \<Longrightarrow> CHR ''-'' \<notin> set ys \<Longrightarrow> xs = ys \<and> us = vs"
proof (induction xs arbitrary: ys)
  case Nil
  then show ?case by (cases ys) auto
next
  case (Cons x xs)
  then show ?case by (cases ys) auto
qed

lemma pad_dec_inject [simp]: "pad_dec w m = pad_dec w n \<longleftrightarrow> m = n"
  by (metis dec_value_pad option.inject)

lemma dateString_inject [simp]: "dateString a = dateString b \<longleftrightarrow> a = b"
proof
  obtain y m d where a: "civil a = (y, m, d)" by (rule prod_cases3)
  obtain y' m' d' where b: "civil b = (y', m', d')" by (rule prod_cases3)
  assume "dateString a = dateString b"
  then have eq: "pad_dec 4 y @ CHR ''-'' # pad_dec 2 m @ CHR ''-'' # pad_dec 2 d =
      pad_dec 4 y' @ CHR ''-'' # pad_dec 2 m' @ CHR ''-'' # pad_dec 2 d'"
    by (simp add: dateString_def a b)
  from split_dash [OF eq no_dash no_dash] have "y = y'"
    and rest: "pad_dec 2 m @ CHR ''-'' # pad_dec 2 d = pad_dec 2 m' @ CHR ''-'' # pad_dec 2 d'" by simp_all
  moreover from split_dash [OF rest no_dash no_dash] have "m = m'" "d = d'" by simp_all
  ultimately show "a = b" using days_of_civil(1) [OF a] days_of_civil(1) [OF b] by simp
qed simp

text \<open>The seconds of a time in nanoseconds, as \<open>Unix\<close> gives them.\<close>

definition unix :: "int \<Rightarrow> int" where "unix now = now div 1000000000"

end
