(* ===== verification/Rewards.thy ===== *)
theory Rewards
  imports Economy Sha256 JsonText Calendar "HOL-Library.Signed_Division"
begin

text \<open>
  Reward events (\<open>ctr_rewards.go\<close>): reading them from a report, the receipts that name them, and
  the coins of races. \<open>now\<close> is the time in nanoseconds since 1970. The rates of the embedded
  data file are an argument.
\<close>

subsection \<open>Events\<close>

record achievementEvent =
  ev_name :: string
  ev_time :: u64
  ev_id :: u64
  ev_values :: "(string \<times> u64) list"

text \<open>\<open>e.Values[k]\<close>, 0 when the key is missing.\<close>

definition ev_val :: "achievementEvent \<Rightarrow> string \<Rightarrow> u64" where
  "ev_val e k = (case map_of (ev_values e) k of None \<Rightarrow> 0 | Some v \<Rightarrow> v)"

datatype rewardError = MissingStruct | ProtoError proto_err | InvalidKey | DuplicateKey

text \<open>The last key and the last value among the fields of an entry.\<close>

fun entry_fields :: "proto_field list \<Rightarrow> string \<times> u64 \<Rightarrow> string \<times> u64" where
  "entry_fields [] kv = kv"
| "entry_fields (f # fs) (key, v) =
     entry_fields fs (if pf_number f = 1 then str_of (pf_data f) else key,
                      if pf_number f = 2 then pf_value f else v)"

definition add_entry :: "proto_field \<Rightarrow> achievementEvent \<Rightarrow> rewardError + achievementEvent" where
  "add_entry f e =
     (case economyProto (pf_data f) of
        Inl x \<Rightarrow> Inl (ProtoError x)
      | Inr kv \<Rightarrow>
          (case entry_fields kv ('''', 0) of
             (key, v) \<Rightarrow>
               if key = '''' \<or> length key > 100 then Inl InvalidKey
               else if map_of (ev_values e) key \<noteq> None then Inl DuplicateKey
               else Inr (e\<lparr>ev_values := ev_values e @ [(key, v)]\<rparr>)))"

fun event_parts :: "proto_field list \<Rightarrow> achievementEvent \<Rightarrow> rewardError + achievementEvent" where
  "event_parts [] e = Inr e"
| "event_parts (f # fs) e =
     (if pf_number f = 1 then event_parts fs (e\<lparr>ev_name := str_of (pf_data f)\<rparr>)
      else if pf_number f = 2 then event_parts fs (e\<lparr>ev_time := pf_value f\<rparr>)
      else if pf_number f = 4 then event_parts fs (e\<lparr>ev_id := pf_value f\<rparr>)
      else if pf_number f = 3 then
        (case add_entry f e of Inl x \<Rightarrow> Inl x | Inr e \<Rightarrow> event_parts fs e)
      else event_parts fs e)"

definition no_event :: achievementEvent where
  "no_event = \<lparr>ev_name = '''', ev_time = 0, ev_id = 0, ev_values = []\<rparr>"

fun reward_fields :: "proto_field list \<Rightarrow> achievementEvent list \<Rightarrow> rewardError + achievementEvent list" where
  "reward_fields [] out = Inr out"
| "reward_fields (f # fs) out =
     (if pf_number f \<noteq> 2 \<or> pf_wire f \<noteq> 2 then reward_fields fs out
      else
        (case economyProto (pf_data f) of
           Inl x \<Rightarrow> Inl (ProtoError x)
         | Inr parts \<Rightarrow>
             (case event_parts parts no_event of
                Inl x \<Rightarrow> Inl x | Inr e \<Rightarrow> reward_fields fs (out @ [e]))))"

definition parseRewardEvents :: "bytes \<Rightarrow> rewardError + achievementEvent list" where
  "parseRewardEvents payload =
     (case structPayload payload of
        None \<Rightarrow> Inl MissingStruct
      | Some sb \<Rightarrow>
          (case economyProto sb of
             Inl x \<Rightarrow> Inl (ProtoError x) | Inr fs \<Rightarrow> reward_fields fs []))"

subsection \<open>Receipts\<close>

definition event_json :: "achievementEvent \<Rightarrow> string" where
  "event_json e =
     ''{'' @ json_string ''Name'' @ '':'' @ json_string (ev_name e) @ '','' @
     json_string ''Timestamp'' @ '':'' @ fmt_u64 (ev_time e) @ '','' @
     json_string ''ID'' @ '':'' @ fmt_u64 (ev_id e) @ '','' @
     json_string ''Values'' @ '':'' @ json_u64_map (ev_values e) @ ''}''"

definition receipt :: "achievementEvent \<Rightarrow> string" where
  "receipt e = hex_string (sha256 (lit (event_json e)))"

subsection \<open>Balance updates\<close>

definition balanceUpdatePayload :: "u64 \<Rightarrow> int \<Rightarrow> bytes" where
  "balanceUpdatePayload p amount =
     (let owner = pbVarintField [] 1 p;
          owner = pbBytesField owner 2 (lit ''nintendo'');
          entry = pbBytesField [] 1 owner;
          entry = pbVarintField entry 2 wumpaCurrency;
          entry = pbVarintField entry 3 0xffffffff;
          entry = pbVarintField entry 4 0;
          entry = pbVarintField entry 5 (zigzag amount)
      in pbBytesField [] 1 entry)"

text \<open>The payload \<open>pushCurrentBalance\<close> pushes, if the account can be read.\<close>

definition pushCurrentBalance ::
    "catalog \<Rightarrow> int \<Rightarrow> u64 \<Rightarrow> economyStore \<Rightarrow> bytes option \<times> economyStore" where
  "pushCurrentBalance cat start p s =
     (case snapshot cat start p s of
        (Inl e, s) \<Rightarrow> (None, s)
      | (Inr a, s) \<Rightarrow> (Some (pushPayload 76 (w_structv (balanceUpdatePayload p (balance 10 a)))), s))"

subsection \<open>Races\<close>

record raceRate =
  rr_track :: string
  rr_first :: int
  rr_second :: int
  rr_third :: int
  rr_other :: int

type_synonym raceRates = "u64 \<Rightarrow> raceRate option"

text \<open>The amount at a position, the fourth counting for all later ones.\<close>

definition position_rate :: "raceRate \<Rightarrow> u64 \<Rightarrow> int" where
  "position_rate r pos =
     (if pos = 0 then rr_first r else if pos = 1 then rr_second r
      else if pos = 2 then rr_third r else rr_other r)"

text \<open>\<open>time.Unix\<close> counts from the year 1 in 64 bits and wraps; the value is in seconds since 1970.\<close>

definition event_secs :: "achievementEvent \<Rightarrow> int" where
  "event_secs e = sint (ev_time e + 62135596800) - 62135596800"

definition in_window :: "int \<Rightarrow> achievementEvent \<Rightarrow> bool" where
  "in_window now e \<longleftrightarrow>
     \<not> event_secs e * 1000000000 > now + 5 * 60 * 1000000000 \<and>
     \<not> event_secs e * 1000000000 < now - 7 * 24 * 3600 * 1000000000"

definition race_ok :: "int \<Rightarrow> achievementEvent \<Rightarrow> bool" where
  "race_ok now e \<longleftrightarrow>
     \<not> (ev_val e ''Rank'' < 1 \<or> ev_val e ''Rank'' > 8 \<or> ev_val e ''Time'' = 0 \<or>
        ev_val e ''Time'' > 86400 \<or> ev_val e ''CompletedLap'' = 0 \<or>
        ev_val e ''CompletedLap'' > 100 \<or> ev_time e = 0) \<and>
     in_window now e"

definition base_amount :: "raceRate \<Rightarrow> achievementEvent \<Rightarrow> int" where
  "base_amount r e =
     (let pos = ev_val e ''Rank'' - 1; pos = (if pos > 3 then 3 else pos);
          amount = position_rate r pos in
      if ev_val e ''RaceMode'' = 15 then
        let n = ev_val e ''CompletedLap''; n = (if n > 8 then 8 else n)
        in wrap64 (amount * uint n) sdiv 3
      else amount)"

definition weekend :: "int \<Rightarrow> bool" where
  "weekend secs \<longleftrightarrow>
     weekday (secs - 17 * 3600) = 5 \<or> weekday (secs - 17 * 3600) = 6 \<or> weekday (secs - 8 * 3600) = 0"

text \<open>What one accepted race pays, given the seconds already played online that day.\<close>

definition race_amount :: "raceRate \<Rightarrow> achievementEvent \<Rightarrow> u64 \<Rightarrow> int" where
  "race_amount r e played =
     (let amount = base_amount r e;
          amount = (if ev_val e ''Online'' \<noteq> 0 \<and> played < 1800 then wrap64 (amount * 5) else amount);
          amount = (if weekend (event_secs e) then wrap64 (amount * 2) else amount)
      in if ev_val e ''RewardGoldenWumpa'' = 1 then wrap64 (amount + 200) else amount)"

definition day_key :: "achievementEvent \<Rightarrow> string" where
  "day_key e = dateString (day_of (event_secs e))"

definition played_on :: "string \<Rightarrow> economyAccount \<Rightarrow> u64" where
  "played_on day a = (case ea_online a day of None \<Rightarrow> 0 | Some v \<Rightarrow> v)"

definition pay_race :: "raceRate \<Rightarrow> achievementEvent \<Rightarrow> economyAccount \<Rightarrow> economyAccount \<times> int" where
  "pay_race r e a =
     (let amount = race_amount r e (played_on (day_key e) a);
          a = (if ev_val e ''Online'' \<noteq> 0
               then a\<lparr>ea_online := (ea_online a)(day_key e \<mapsto> played_on (day_key e) a + ev_val e ''Time'')\<rparr>
               else a);
          a = a\<lparr>ea_receipts := insert (receipt e) (ea_receipts a)\<rparr>
      in (credit amount a, amount))"

fun race_loop :: "raceRates \<Rightarrow> int \<Rightarrow> achievementEvent list \<Rightarrow> economyAccount \<times> int \<Rightarrow> economyAccount \<times> int" where
  "race_loop rates now [] (a, tot) = (a, tot)"
| "race_loop rates now (e # es) (a, tot) =
     (if ev_name e \<noteq> ''end_race'' then race_loop rates now es (a, tot)
      else
        (case rates (ev_val e ''Track'') of
           None \<Rightarrow> race_loop rates now es (a, tot)
         | Some r \<Rightarrow>
             if \<not> race_ok now e then race_loop rates now es (a, tot)
             else if receipt e \<in> ea_receipts a then race_loop rates now es (a, tot)
             else (case pay_race r e a of
                     (a, amount) \<Rightarrow> race_loop rates now es (a, wrap64 (tot + amount)))))"

definition awardRaces ::
    "catalog \<Rightarrow> int \<Rightarrow> raceRates \<Rightarrow> int \<Rightarrow> u64 \<Rightarrow> achievementEvent list \<Rightarrow> economyStore \<Rightarrow>
     (economyError + int) \<times> economyStore" where
  "awardRaces cat start rates now p events =
     transact (load cat start p) (save p)
       (\<lambda>a. case race_loop rates now events (a, 0) of
               (a, tot) \<Rightarrow> Inr (if tot \<noteq> 0 then Some a else None, tot))"

end
