(* ===== verification/RewardProps.thy ===== *)
theory RewardProps
  imports Rewards
begin

text \<open>The receipts of paid races, and the bound of the pay.\<close>

subsection \<open>Receipts\<close>

text \<open>A race the loop would pay if it had no receipt yet.\<close>

definition payable :: "raceRates \<Rightarrow> int \<Rightarrow> achievementEvent \<Rightarrow> bool" where
  "payable rates now e \<longleftrightarrow>
     ev_name e = ''end_race'' \<and> rates (ev_val e ''Track'') \<noteq> None \<and> race_ok now e"

lemma pay_race_receipts [simp]:
  "ea_receipts (fst (pay_race r e a)) = insert (receipt e) (ea_receipts a)"
  by (simp add: pay_race_def Let_def)

lemma race_loop_Cons:
  "race_loop rates now (e # es) (a, t) =
     (if payable rates now e \<and> receipt e \<notin> ea_receipts a
      then race_loop rates now es
             (fst (pay_race (the (rates (ev_val e ''Track''))) e a),
              wrap64 (t + snd (pay_race (the (rates (ev_val e ''Track''))) e a)))
      else race_loop rates now es (a, t))"
  by (auto simp: payable_def case_prod_beta split: option.splits)

declare race_loop.simps(2) [simp del]

lemma race_loop_receipts:
  "race_loop rates now es (a, t) = (a', t') \<Longrightarrow>
   ea_receipts a' = ea_receipts a \<union> receipt ` {e \<in> set es. payable rates now e}"
proof (induction es arbitrary: a t)
  case (Cons e es)
  show ?case
  proof (cases "payable rates now e \<and> receipt e \<notin> ea_receipts a")
    case True
    then have "race_loop rates now es (fst (pay_race (the (rates (ev_val e ''Track''))) e a),
        wrap64 (t + snd (pay_race (the (rates (ev_val e ''Track''))) e a))) = (a', t')"
      using Cons.prems by (simp add: race_loop_Cons)
    from Cons.IH [OF this] True show ?thesis by auto
  next
    case False
    then have "race_loop rates now es (a, t) = (a', t')"
      using Cons.prems by (auto simp: race_loop_Cons split: if_splits)
    from Cons.IH [OF this] False show ?thesis by auto
  qed
qed simp

text \<open>An event whose receipt the account has changes nothing, wherever it stands in a report.\<close>

lemma race_loop_known:
  "k \<in> ea_receipts a \<Longrightarrow>
   race_loop rates now (filter (\<lambda>e. receipt e \<noteq> k) es) (a, t) = race_loop rates now es (a, t)"
  by (induction es arbitrary: a t) (auto simp: race_loop_Cons)

lemma awardRaces_known:
  assumes "stored_account s p = Some a" and "k \<in> ea_receipts a"
  shows "awardRaces cat start rates now p (filter (\<lambda>e. receipt e \<noteq> k) es) s = awardRaces cat start rates now p es s"
  using disk.load_again [OF assms(1)] by (simp add: awardRaces_def transact_def race_loop_known [OF assms(2)])

lemma awardRaces_result:
  assumes "awardRaces cat start rates now p es s = (Inr tot, s1)"
  obtains a a1 where "race_loop rates now es (a, 0) = (a1, tot)"
    "stored_account s1 p = Some (if tot = 0 then a else a1)"
    "\<And>b. stored_account s p = Some b \<Longrightarrow> b = a"
proof -
  obtain a o1 where v: "(case race_loop rates now es (a, 0) of
        (a, tot) \<Rightarrow> Inr (if tot \<noteq> 0 then Some a else None, tot)) = (Inr (o1, tot) :: economyError + _)"
      "stored_account s1 p = Some (case o1 of None \<Rightarrow> a | Some b \<Rightarrow> b)"
      "\<And>b. stored_account s p = Some b \<Longrightarrow> b = a"
    using disk.transact_view [OF assms [unfolded awardRaces_def]] by blast
  obtain a1 t1 where "race_loop rates now es (a, 0) = (a1, t1)" by fastforce
  with v that show ?thesis by (auto split: if_splits)
qed

text \<open>A report that was paid leaves the receipts of its races in the account file.\<close>

lemma awardRaces_receipt:
  assumes "awardRaces cat start rates now p es s = (Inr tot, s1)" and "tot \<noteq> 0"
    and "e \<in> set es" and "payable rates now e"
  obtains a where "stored_account s1 p = Some a" "receipt e \<in> ea_receipts a"
proof -
  obtain a a1 where "race_loop rates now es (a, 0) = (a1, tot)" "stored_account s1 p = Some a1"
    by (rule awardRaces_result [OF assms(1)]) (use assms(2) in auto)
  then show ?thesis using that race_loop_receipts assms(3,4) by blast
qed

definition ex_rates :: raceRates where
  "ex_rates = [77 \<mapsto> \<lparr>rr_track = ''t'', rr_first = 46, rr_second = 41, rr_third = 39, rr_other = 35\<rparr>]"

text \<open>A race that ended on Wednesday 2024-01-03 at noon.\<close>

definition ex_race :: achievementEvent where
  "ex_race = \<lparr>ev_name = ''end_race'', ev_time = 1704283200, ev_id = 1,
     ev_values = [(''Track'', 77), (''Rank'', 2), (''Time'', 120), (''CompletedLap'', 3), (''Online'', 1)]\<rparr>"

definition race_store :: economyStore where
  "race_store = \<lparr>ed_accounts = (\<lambda>_. Missing)(8 := account_file (new_account [wumpaCurrency \<mapsto> 140] {})),
                 ed_wallets = (\<lambda>_. Missing), ed_skus = (\<lambda>_. Missing), ed_writes = []\<rparr>"

lemma ex_race_amount: "race_amount \<lparr>rr_track = ''t'', rr_first = 46, rr_second = 41, rr_third = 39, rr_other = 35\<rparr> ex_race 0 = 205"
  by (simp add: race_amount_def base_amount_def position_rate_def ex_race_def ev_val_def weekend_def
      weekday_def event_secs_def wrap64_def)

lemma ex_race_ok: "race_ok 1704283300000000000 ex_race"
  by (simp add: race_ok_def in_window_def ex_race_def ev_val_def event_secs_def)

lemma ex_award: "\<exists>s1. awardRaces Map.empty 0 ex_rates 1704283300000000000 8 [ex_race] race_store = (Inr 205, s1)"
proof -
  have "race_loop ex_rates 1704283300000000000 [ex_race] (new_account [wumpaCurrency \<mapsto> 140] {}, 0) =
      (fst (pay_race \<lparr>rr_track = ''t'', rr_first = 46, rr_second = 41, rr_third = 39, rr_other = 35\<rparr> ex_race
        (new_account [wumpaCurrency \<mapsto> 140] {})), 205)"
    using ex_race_ok ex_race_amount
    by (simp add: race_loop_Cons payable_def pay_race_def Let_def new_account_def played_on_def wrap64_def)
       (simp add: ex_race_def ex_rates_def ev_val_def)
  then show ?thesis
    by (simp add: awardRaces_def transact_def race_store_def save_def)
qed

subsection \<open>Amounts\<close>

definition rate_bound :: "raceRates \<Rightarrow> int \<Rightarrow> bool" where
  "rate_bound rates m \<longleftrightarrow>
     (\<forall>k r. rates k = Some r \<longrightarrow>
        0 \<le> rr_first r \<and> rr_first r \<le> m \<and> 0 \<le> rr_second r \<and> rr_second r \<le> m \<and>
        0 \<le> rr_third r \<and> rr_third r \<le> m \<and> 0 \<le> rr_other r \<and> rr_other r \<le> m)"

definition most_per_race :: "int \<Rightarrow> int" where
  "most_per_race m = 10 * (8 * m div 3) + 200"

lemma base_amount_bound:
  assumes "rate_bound rates m" and "rates k = Some r" and "m \<le> 2 ^ 32"
  shows "0 \<le> base_amount r e \<and> base_amount r e \<le> 8 * m div 3"
proof -
  let ?n = "ev_val e ''CompletedLap''"
  let ?k = "if ?n > 8 then 8 else ?n"
  have k: "0 \<le> uint ?k" "uint ?k \<le> 8" by (auto simp: word_less_def)
  have pos: "0 \<le> position_rate r p" "position_rate r p \<le> m" for p
    using assms(1,2) by (auto simp: rate_bound_def position_rate_def)
  let ?a = "position_rate r (if ev_val e ''Rank'' - 1 > 3 then 3 else ev_val e ''Rank'' - 1)"
  have "0 \<le> x * y \<and> x * y \<le> m * 8" if "0 \<le> x" "x \<le> m" "0 \<le> y" "y \<le> 8" for x y :: int
    using that by (auto intro: mult_mono)
  from this [OF pos k] have prod: "0 \<le> ?a * uint ?k" "?a * uint ?k \<le> m * 8" by blast+
  then have w: "wrap64 (?a * uint ?k) = ?a * uint ?k"
    using assms(3) by (intro wrap64_id) (simp add: in_i64_def)
  have "?a * uint ?k sdiv 3 = ?a * uint ?k div 3"
    using prod(1) by (simp add: signed_divide_int_def sgn_if)
  moreover have "?a * uint ?k div 3 \<le> m * 8 div 3" by (rule zdiv_mono1 [OF prod(2)]) simp
  moreover have "0 \<le> ?a * uint ?k div 3" using prod(1) by simp
  moreover have "m \<le> 8 * m div 3" using pos [of 0] by linarith
  ultimately show ?thesis
    using w pos by (auto simp: base_amount_def Let_def mult.commute [of m] intro: order_trans)
qed

lemma race_amount_bound:
  assumes "rate_bound rates m" and "rates k = Some r" and "m \<le> 2 ^ 32"
  shows "0 \<le> race_amount r e played \<and> race_amount r e played \<le> most_per_race m"
proof -
  note b = base_amount_bound [OF assms, of e]
  have "8 * m div 3 \<le> (8 * 2 ^ 32) div 3" using assms(3) by (intro zdiv_mono1) simp_all
  then have m: "8 * m div 3 \<le> 8 * 2 ^ 32" by simp
  define x where "x = (if ev_val e ''Online'' \<noteq> 0 \<and> played < 1800
    then wrap64 (base_amount r e * 5) else base_amount r e)"
  have x: "0 \<le> x" "x \<le> 5 * (8 * m div 3)"
    using b m by (auto simp: x_def wrap64_id in_i64_def)
  define y where "y = (if weekend (event_secs e) then wrap64 (x * 2) else x)"
  have y: "0 \<le> y" "y \<le> 10 * (8 * m div 3)"
    using x m by (auto simp: y_def wrap64_id in_i64_def)
  have "race_amount r e played =
      (if ev_val e ''RewardGoldenWumpa'' = 1 then wrap64 (y + 200) else y)"
    by (simp add: race_amount_def x_def y_def Let_def)
  then show ?thesis
    using y m by (auto simp: most_per_race_def wrap64_id in_i64_def)
qed

lemma pay_race_coins:
  "snd (pay_race r e a) = race_amount r e (played_on (day_key e) a)"
  "coins (fst (pay_race r e a)) = wrap64 (coins a + snd (pay_race r e a))"
  by (simp_all add: pay_race_def Let_def coins_def balance_def credit_def)

lemma race_loop_coins:
  assumes "rate_bound rates m" and "0 \<le> m" and "m \<le> 2 ^ 32"
  shows "race_loop rates now es (a, t) = (a', t') \<Longrightarrow> 0 \<le> coins a \<Longrightarrow> 0 \<le> t \<Longrightarrow>
    coins a + int (length es) * most_per_race m < 2 ^ 63 \<Longrightarrow>
    t + int (length es) * most_per_race m < 2 ^ 63 \<Longrightarrow>
    0 \<le> t' - t \<and> t' - t \<le> int (length es) * most_per_race m \<and> coins a' = coins a + (t' - t)"
proof (induction es arbitrary: a t)
  case (Cons e es)
  have pos: "0 \<le> most_per_race m" using assms(2) by (simp add: most_per_race_def)
  have len: "int (length (e # es)) * most_per_race m = int (length es) * most_per_race m + most_per_race m"
    by (simp add: distrib_right)
  show ?case
  proof (cases "payable rates now e \<and> receipt e \<notin> ea_receipts a")
    case True
    let ?p = "pay_race (the (rates (ev_val e ''Track''))) e a"
    obtain r where r: "rates (ev_val e ''Track'') = Some r" using True by (auto simp: payable_def)
    have am: "0 \<le> snd ?p" "snd ?p \<le> most_per_race m"
      using race_amount_bound [OF assms(1) r assms(3)] r by (simp_all add: pay_race_coins)
    have big: "0 \<le> int (length es) * most_per_race m" using pos by simp
    have fit: "coins a + snd ?p < 2 ^ 63" "t + snd ?p < 2 ^ 63"
      using am(2) big Cons.prems(4,5) unfolding len by linarith+
    have c: "coins (fst ?p) = coins a + snd ?p" and t: "wrap64 (t + snd ?p) = t + snd ?p"
      using am(1) fit Cons.prems(2,3) by (auto simp: pay_race_coins(2) in_i64_def intro!: wrap64_id)
    have "race_loop rates now es (fst ?p, t + snd ?p) = (a', t')"
      using Cons.prems(1) True t by (simp add: race_loop_Cons)
    from Cons.IH [OF this] am c Cons.prems len big show ?thesis by auto
  next
    case False
    then have "race_loop rates now es (a, t) = (a', t')"
      using Cons.prems(1) by (auto simp: race_loop_Cons split: if_splits)
    from Cons.IH [OF this] Cons.prems len pos show ?thesis by auto
  qed
qed simp

text \<open>Races credit exactly what they report as earned, and a report of \<open>n\<close> events can earn no
  more than \<open>n\<close> times the most a race pays: ten times eight thirds of the highest rate, plus the
  golden Wumpa's 200; in particular no arithmetic wraps around.\<close>

theorem race_pay_is_bounded:
  assumes "awardRaces cat start rates now p es s = (Inr tot, s1)"
    and "stored_account s p = Some a" and "rate_bound rates m" and "0 \<le> m" and "m \<le> 2 ^ 32"
    and "0 \<le> coins a" and "coins a + int (length es) * most_per_race m < 2 ^ 63"
  shows "0 \<le> tot \<and> tot \<le> int (length es) * most_per_race m \<and>
    (\<exists>a1. stored_account s1 p = Some a1 \<and> coins a1 = coins a + tot)"
proof -
  obtain b a1 where r: "race_loop rates now es (b, 0) = (a1, tot)"
    "stored_account s1 p = Some (if tot = 0 then b else a1)" "b = a"
    using awardRaces_result [OF assms(1)] assms(2) by metis
  have "0 \<le> tot - 0 \<and> tot - 0 \<le> int (length es) * most_per_race m \<and> coins a1 = coins a + (tot - 0)"
    using r assms(3-7) by (intro race_loop_coins [where now = now]) auto
  then show ?thesis using r by auto
qed

lemma race_pay_is_bounded_witness:
  "\<exists>s1 a1. awardRaces Map.empty 0 ex_rates 1704283300000000000 8 [ex_race] race_store = (Inr 205, s1) \<and>
    stored_account s1 8 = Some a1 \<and> coins a1 = 345"
proof -
  obtain s1 where s1: "awardRaces Map.empty 0 ex_rates 1704283300000000000 8 [ex_race] race_store = (Inr 205, s1)"
    using ex_award by blast
  have a: "stored_account race_store 8 = Some (new_account [wumpaCurrency \<mapsto> 140] {})"
    by (simp add: race_store_def)
  have c: "coins (new_account [wumpaCurrency \<mapsto> 140] {}) = 140"
    by (simp add: coins_def balance_def new_account_def)
  have "rate_bound ex_rates 80" by (auto simp: rate_bound_def ex_rates_def split: if_splits)
  from race_pay_is_bounded [OF s1 a this] c s1 show ?thesis by (auto simp: most_per_race_def)
qed

end
