(* ===== verification/Challenges.thy ===== *)
theory Challenges
  imports Rewards
begin

text \<open>
  Timed challenges: the schedule (\<open>ctr_challenge_rules.go\<close>), the daily refresh of the shop
  (\<open>ctr_refresh.go\<close>) and the window-shopping challenge (\<open>ctr_challenges.go\<close>). The schedules of
  the embedded data files are arguments. Their numeric requirements are whole numbers below
  \<open>2 ^ 53\<close>, for which comparing as \<open>float64\<close> and as integers is the same.
\<close>

subsection \<open>States\<close>

record ctrAchievementState =
  as_id :: u64
  as_completed :: u64
  as_name :: string
  as_kind :: u64
  as_progress :: u64
  as_target :: u64
  as_status :: u64
  as_start :: u64
  as_end :: u64

definition boolToCompletion :: "u64 \<Rightarrow> u64" where
  "boolToCompletion timestamp = (if timestamp \<noteq> 0 then 1 else 0)"

definition encode :: "ctrAchievementState \<Rightarrow> bytes" where
  "encode s =
     foldl (\<lambda>e (tag, v). pbVarintField e tag v) (pbBytesField [] 1 (lit (as_name s)))
       [(2, as_kind s), (3, as_progress s), (4, as_target s), (5, as_status s),
        (6, as_completed s), (7, as_start s), (8, as_end s),
        (9, boolToCompletion (as_completed s)), (11, as_id s)]"

subsection \<open>Rules\<close>

record challengePeriod =
  cp_start :: int
  cp_end :: int
  cp_target :: u64
  cp_x :: nat
  cp_y :: nat
  cp_filters :: "(string \<times> string list) list"

record challengeRule =
  cr_name :: string
  cr_id :: u64
  cr_kind :: u64
  cr_reward :: int
  cr_periods :: "challengePeriod list"

record challengeSchedule =
  cs_start :: int
  cs_seconds :: int
  cs_rules :: "challengeRule list"

definition challengeNameHash :: "string \<Rightarrow> u64" where
  "challengeNameHash s = ucast (foldl (\<lambda>v b. (v XOR ucast b) * 16777619) (4 :: u32) (lit s))"

definition challengeKey :: "string \<Rightarrow> u64 \<Rightarrow> string" where
  "challengeKey name start = name @ '':'' @ fmt_u64 start"

definition no_completion :: challengeCompletion where
  "no_completion = \<lparr>cc_completed = 0, cc_progress = 0, cc_receipts = (\<lambda>_. None), cc_distinct = {}\<rparr>"

definition completion :: "economyAccount \<Rightarrow> string \<Rightarrow> challengeCompletion" where
  "completion a key = (case ea_challenges a key of None \<Rightarrow> no_completion | Some c \<Rightarrow> c)"

text \<open>The current period of a rule: the start of its cycle, and the period.\<close>

definition active_period ::
    "challengeSchedule \<Rightarrow> challengeRule \<Rightarrow> int \<Rightarrow> (int \<times> challengePeriod) option" where
  "active_period sched r secs =
     (let delta = secs - cs_start sched in
      if delta < 0 then None
      else
        let cycle = cs_start sched + delta div cs_seconds sched * cs_seconds sched in
        map_option (\<lambda>p. (cycle, p))
          (find (\<lambda>p. \<not> (secs < cycle + cp_start p \<or> secs \<ge> cycle + cp_end p)) (cr_periods r)))"

definition rule_state :: "challengeRule \<Rightarrow> int \<Rightarrow> challengePeriod \<Rightarrow> challengeCompletion \<Rightarrow> ctrAchievementState" where
  "rule_state r cycle p c =
     (let s = \<lparr>as_id = cr_id r, as_completed = 0, as_name = cr_name r, as_kind = cr_kind r,
               as_progress = cc_progress c, as_target = cp_target p, as_status = 2,
               as_start = word_of_int (cycle + cp_start p), as_end = word_of_int (cycle + cp_end p)\<rparr>
      in if cc_completed c \<noteq> 0
         then s\<lparr>as_progress := cp_target p, as_status := 3, as_completed := cc_completed c\<rparr> else s)"

definition current ::
    "challengeSchedule \<Rightarrow> challengeRule \<Rightarrow> economyAccount \<Rightarrow> int \<Rightarrow>
     (ctrAchievementState \<times> challengePeriod) option" where
  "current sched r a secs =
     (case active_period sched r secs of
        None \<Rightarrow> None
      | Some (cycle, p) \<Rightarrow>
          Some (rule_state r cycle p
                  (completion a (challengeKey (cr_name r) (word_of_int (cycle + cp_start p)))), p))"

definition filter_ok :: "achievementEvent \<Rightarrow> string \<times> string list \<Rightarrow> bool" where
  "filter_ok e f =
     (case map_of (ev_values e) (fst f) of
        None \<Rightarrow> False
      | Some got \<Rightarrow> list_ex (\<lambda>v. got = challengeNameHash v) (snd f))"

definition time_limit_rule :: "string \<Rightarrow> bool" where
  "time_limit_rule n \<longleftrightarrow> n = ''finish_TRACKNAME_in_less_than_X_min'' \<or> n = ''do_a_lap_under_X_in_TRACKNAME''"

definition x_ok :: "challengeRule \<Rightarrow> challengePeriod \<Rightarrow> achievementEvent \<Rightarrow> bool" where
  "x_ok r p e \<longleftrightarrow>
     (if cp_x p \<noteq> 0 then
        (case map_of (ev_values e) ''X'' of
           None \<Rightarrow> False
         | Some x \<Rightarrow>
             if time_limit_rule (cr_name r) then \<not> (x = 0 \<or> unat x \<ge> cp_x p)
             else \<not> unat x < cp_x p)
      else True)"

definition y_ok :: "challengePeriod \<Rightarrow> achievementEvent \<Rightarrow> bool" where
  "y_ok p e \<longleftrightarrow>
     (if cp_y p \<noteq> 0 then
        (case map_of (ev_values e) ''Y'' of None \<Rightarrow> False | Some y \<Rightarrow> \<not> unat y < cp_y p)
      else True)"

definition accepts :: "challengeRule \<Rightarrow> challengePeriod \<Rightarrow> achievementEvent \<Rightarrow> bool" where
  "accepts r p e \<longleftrightarrow> cr_name r = ev_name e \<and> list_all (filter_ok e) (cp_filters p) \<and> x_ok r p e \<and> y_ok p e"

subsection \<open>Awarding challenges\<close>

text \<open>The seconds of five minutes after \<open>now\<close>, which is in nanoseconds.\<close>

definition grace :: "int \<Rightarrow> u64" where "grace now = word_of_int (unix (now + 5 * 60 * 1000000000))"

definition event_counts :: "int \<Rightarrow> challengeRule \<Rightarrow> challengePeriod \<Rightarrow> ctrAchievementState \<Rightarrow> achievementEvent \<Rightarrow> bool" where
  "event_counts now r p s e \<longleftrightarrow>
     \<not> (ev_time e < as_start s \<or> ev_time e \<ge> as_end s \<or> ev_time e > grace now \<or> \<not> accepts r p e)"

definition increment :: "challengeRule \<Rightarrow> achievementEvent \<Rightarrow> u64" where
  "increment r e = (if cr_name r = ''visit_pit_stop'' then ev_val e ''value'' else ev_val e ''Progress'')"

definition received :: "challengeCompletion \<Rightarrow> string \<Rightarrow> u64" where
  "received c k = (case cc_receipts c k of None \<Rightarrow> 0 | Some n \<Rightarrow> n)"

definition battle_rule :: "string \<Rightarrow> bool" where
  "battle_rule n \<longleftrightarrow> n = ''win_game_in_T_different_battles_TRACKNAME''"

text \<open>
  What a fresh event does to the record: nothing more than its receipt when a battle mode is
  unknown or was won before (\<open>None\<close>), else the amount to add.
\<close>

definition step_amount :: "challengeRule \<Rightarrow> achievementEvent \<Rightarrow> challengeCompletion \<Rightarrow> (u64 \<times> challengeCompletion) option" where
  "step_amount r e c =
     (if battle_rule (cr_name r) then
        (case map_of (ev_values e) ''X'' of
           None \<Rightarrow> None
         | Some mode \<Rightarrow>
             if mode < 9 \<or> mode > 13 then None
             else if fmt_u64 mode \<in> cc_distinct c then None
             else Some (1, c\<lparr>cc_distinct := insert (fmt_u64 mode) (cc_distinct c)\<rparr>))
      else Some (increment r e, c))"

text \<open>The loop over the events, for one rule: the record, the credit, whether it changed.\<close>

fun challenge_loop ::
    "int \<Rightarrow> challengeRule \<Rightarrow> challengePeriod \<Rightarrow> ctrAchievementState \<Rightarrow> achievementEvent list \<Rightarrow>
     (string \<Rightarrow> u64) \<Rightarrow> challengeCompletion \<Rightarrow> int \<Rightarrow> bool \<Rightarrow> challengeCompletion \<times> int \<times> bool" where
  "challenge_loop now r p s [] occ c cr ch = (c, cr, ch)"
| "challenge_loop now r p s (e # es) occ c cr ch =
     (if \<not> event_counts now r p s e \<or> increment r e = 0 then challenge_loop now r p s es occ c cr ch
      else
        let k = receipt e; occ = occ(k := occ k + 1) in
        if received c k \<ge> occ k then challenge_loop now r p s es occ c cr ch
        else
          let c = c\<lparr>cc_receipts := (cc_receipts c)(k \<mapsto> occ k)\<rparr> in
          (case step_amount r e c of
             None \<Rightarrow> challenge_loop now r p s es occ c cr True
           | Some (inc, c) \<Rightarrow>
               if inc \<ge> as_target s - cc_progress c then
                 (c\<lparr>cc_progress := as_target s, cc_completed := ev_time e, cc_receipts := (\<lambda>_. None)\<rparr>,
                  wrap64 (cr + cr_reward r), True)
               else challenge_loop now r p s es occ (c\<lparr>cc_progress := cc_progress c + inc\<rparr>) cr True))"

definition award_rule ::
    "challengeSchedule \<Rightarrow> int \<Rightarrow> achievementEvent list \<Rightarrow> challengeRule \<Rightarrow>
     economyAccount \<times> int \<times> bytes \<times> bool \<Rightarrow> economyAccount \<times> int \<times> bytes \<times> bool" where
  "award_rule sched now events r st =
     (case st of (a, cr, updates, changed) \<Rightarrow>
        (case current sched r a (unix now) of
           None \<Rightarrow> (a, cr, updates, changed)
         | Some (s, p) \<Rightarrow>
             if as_completed s \<noteq> 0 then (a, cr, updates, changed)
             else
               let key = challengeKey (as_name s) (as_start s); c0 = completion a key in
               (case challenge_loop now r p s events (\<lambda>_. 0) c0 cr False of
                  (c, cr, ch) \<Rightarrow>
                    let a' = a\<lparr>ea_challenges := (ea_challenges a)(key \<mapsto> c)\<rparr> in
                    if cc_progress c \<noteq> cc_progress c0 then
                      (a', cr,
                       (case current sched r a' (unix now) of
                          None \<Rightarrow> updates | Some (s, _) \<Rightarrow> pbBytesField updates 1 (encode s)),
                       changed \<or> ch)
                    else if ch then (a', cr, updates, True)
                    else (a, cr, updates, changed))))"

definition awardChallenges ::
    "catalog \<Rightarrow> int \<Rightarrow> challengeSchedule \<Rightarrow> int \<Rightarrow> u64 \<Rightarrow> achievementEvent list \<Rightarrow> economyStore \<Rightarrow>
     (economyError + int \<times> bytes) \<times> economyStore" where
  "awardChallenges cat start sched now p events =
     transact (load cat start p) (save p)
       (\<lambda>a. case foldl (\<lambda>st r. award_rule sched now events r st) (a, 0, [], False) (cs_rules sched) of
               (a, cr, updates, changed) \<Rightarrow>
                 if \<not> changed then Inr (None, (0, []))
                 else Inr (Some (credit cr a), (cr, updates)))"

subsection \<open>The daily refresh\<close>

text \<open>The day that contains \<open>now\<close>, days starting at 15:00 UTC: its name, start and end.\<close>

definition pitStopDay :: "int \<Rightarrow> string \<times> u64 \<times> u64" where
  "pitStopDay now =
     (let day = (unix now - 15 * 3600) div 86400; start = day * 86400 + 15 * 3600 in
      (dateString (nat day), word_of_int start, word_of_int (start + 86400)))"

definition currentPitStopRefresh :: "economyAccount \<Rightarrow> int \<Rightarrow> ctrAchievementState" where
  "currentPitStopRefresh a now =
     (case pitStopDay now of (day, start, end') \<Rightarrow>
        let s = \<lparr>as_id = 255, as_completed = 0, as_name = ''pitstop_daily_refresh'', as_kind = 1,
                 as_progress = 0, as_target = 2, as_status = 2, as_start = start, as_end = end'\<rparr>;
            s = (case ea_refresh a of
                   None \<Rightarrow> s
                 | Some r \<Rightarrow> if pr_day r = day then s\<lparr>as_progress := pr_count r\<rparr> else s)
        in if as_progress s \<ge> as_target s then s\<lparr>as_progress := as_target s, as_status := 3\<rparr> else s)"

definition refresh_request :: "achievementEvent \<Rightarrow> bool" where
  "refresh_request e \<longleftrightarrow> ev_name e = ''pitstop_daily_refresh'' \<and> ev_val e ''value'' = 1"

fun refresh_loop ::
    "int \<Rightarrow> u64 \<Rightarrow> u64 \<Rightarrow> achievementEvent list \<Rightarrow> pitStopRefreshRecord \<times> bool \<Rightarrow> pitStopRefreshRecord \<times> bool" where
  "refresh_loop now start end' [] (r, valid) = (r, valid)"
| "refresh_loop now start end' (e # es) (r, valid) =
     (if ev_time e < start \<or> ev_time e \<ge> end' \<or> ev_time e > grace now
      then refresh_loop now start end' es (r, valid)
      else
        refresh_loop now start end' es
          (if event_json e \<notin> pr_receipts r \<and> pr_count r < 2
           then r\<lparr>pr_count := pr_count r + 1, pr_receipts := insert (event_json e) (pr_receipts r)\<rparr>
           else r, True))"

definition refresh_account ::
    "int \<Rightarrow> achievementEvent list \<Rightarrow> economyAccount \<Rightarrow> economyAccount option \<times> bytes" where
  "refresh_account now requests a =
     (case pitStopDay now of (day, start, end') \<Rightarrow>
        let r0 = (case ea_refresh a of
                    Some r \<Rightarrow> if pr_day r \<noteq> day then \<lparr>pr_day = day, pr_count = 0, pr_receipts = {}\<rparr> else r
                  | None \<Rightarrow> \<lparr>pr_day = day, pr_count = 0, pr_receipts = {}\<rparr>) in
        (case refresh_loop now start end' requests (r0, False) of
           (r, valid) \<Rightarrow>
             if \<not> valid then (None, [])
             else let a = a\<lparr>ea_refresh := Some r\<rparr> in
                  (Some a, pbBytesField [] 1 (encode (currentPitStopRefresh a now)))))"

definition reportPitStopRefresh ::
    "catalog \<Rightarrow> int \<Rightarrow> int \<Rightarrow> u64 \<Rightarrow> achievementEvent list \<Rightarrow> economyStore \<Rightarrow>
     (economyError + bytes) \<times> economyStore" where
  "reportPitStopRefresh cat start now p events s =
     (let requests = filter refresh_request events in
      if requests = [] then (Inr [], s)
      else transact (load cat start p) (save p) (\<lambda>a. Inr (refresh_account now requests a)) s)"

text \<open>
  Which states a client asks for: the flags of the loop are whether a field was there and whether
  it matched, for kinds, statuses and names. \<open>None\<close> is the early refusal.
\<close>

fun requested_loop ::
    "ctrAchievementState \<Rightarrow> proto_field list \<Rightarrow> (bool \<times> bool) \<times> (bool \<times> bool) \<times> (bool \<times> bool) \<Rightarrow>
     ((bool \<times> bool) \<times> (bool \<times> bool) \<times> (bool \<times> bool)) option" where
  "requested_loop s [] fl = Some fl"
| "requested_loop s (f # fs) (kd, st, nm) =
     (if pf_number f = 2 then requested_loop s fs ((True, snd kd \<or> pf_value f = as_kind s), st, nm)
      else if pf_number f = 3 then (if pf_value f = 0 then None else requested_loop s fs (kd, st, nm))
      else if pf_number f = 4 then (if pf_data f \<noteq> [] then None else requested_loop s fs (kd, st, nm))
      else if pf_number f = 5 then requested_loop s fs (kd, (True, snd st \<or> pf_value f = as_status s), nm)
      else if pf_number f = 6 then requested_loop s fs (kd, st, (True, snd nm \<or> str_of (pf_data f) = as_name s))
      else if pf_number f = 7 then None
      else requested_loop s fs (kd, st, nm))"

definition achievementRequested :: "bytes \<Rightarrow> ctrAchievementState \<Rightarrow> bool" where
  "achievementRequested payload s =
     (case economyProto (case structPayload payload of None \<Rightarrow> [] | Some sb \<Rightarrow> sb) of
        Inl _ \<Rightarrow> False
      | Inr fs \<Rightarrow>
          (case requested_loop s fs ((False, False), (False, False), (False, False)) of
             None \<Rightarrow> False
           | Some ((hk, k), (hs, st), (hn, n)) \<Rightarrow> (hk \<longrightarrow> k) \<and> (hs \<longrightarrow> st) \<and> (hn \<longrightarrow> n)))"

subsection \<open>Window shopping\<close>

record windowShoppingRule =
  ws_name :: string
  ws_id :: u64
  ws_kind :: u64
  ws_reward :: int
  ws_target :: u64
  ws_cycleStart :: int
  ws_cycleDays :: int
  ws_activeDays :: "int list"

definition windowShoppingState ::
    "windowShoppingRule \<Rightarrow> economyAccount \<Rightarrow> int \<Rightarrow> ctrAchievementState option \<times> bool" where
  "windowShoppingState r a now =
     (case pitStopDay now of (_, start, end') \<Rightarrow>
        if sint start < ws_cycleStart r then (None, False)
        else
          let day = ((sint start - ws_cycleStart r) div 86400) mod ws_cycleDays r;
              s = \<lparr>as_id = ws_id r, as_completed = 0, as_name = ws_name r, as_kind = ws_kind r,
                   as_progress = 0, as_target = ws_target r, as_status = 2, as_start = start, as_end = end'\<rparr>
          in (Some (case ea_challenges a (challengeKey (ws_name r) start) of
                      None \<Rightarrow> s
                    | Some c \<Rightarrow> s\<lparr>as_progress := ws_target r, as_status := 3, as_completed := cc_completed c\<rparr>),
              day \<in> set (ws_activeDays r)))"

definition awardWindowShopping ::
    "catalog \<Rightarrow> int \<Rightarrow> windowShoppingRule \<Rightarrow> int \<Rightarrow> u64 \<Rightarrow> achievementEvent list \<Rightarrow> economyStore \<Rightarrow>
     (economyError + int \<times> bytes) \<times> economyStore" where
  "awardWindowShopping cat start r now p events s =
     (let visits = filter (\<lambda>e. ev_name e = ws_name r \<and> ev_val e ''value'' = 1) events in
      if visits = [] then (Inr (0, []), s)
      else transact (load cat start p) (save p)
        (\<lambda>a. case windowShoppingState r a now of
                (Some st, True) \<Rightarrow>
                  if as_status st = 3 then Inr (None, (0, []))
                  else
                    (case find (\<lambda>e. ev_time e \<ge> as_start st \<and> ev_time e < as_end st \<and> ev_time e \<le> grace now) visits of
                       None \<Rightarrow> Inr (None, (0, []))
                     | Some e \<Rightarrow>
                         if ev_time e = 0 then Inr (None, (0, []))
                         else
                           let a = credit (ws_reward r)
                                 (a\<lparr>ea_challenges := (ea_challenges a)(challengeKey (as_name st) (as_start st)
                                      \<mapsto> no_completion\<lparr>cc_completed := ev_time e\<rparr>)\<rparr>)
                           in (case windowShoppingState r a now of
                                 (Some st, _) \<Rightarrow> Inr (Some a, (ws_reward r, pbBytesField [] 1 (encode st)))
                               | (None, _) \<Rightarrow> Inr (Some a, (ws_reward r, []))))
              | _ \<Rightarrow> Inr (None, (0, []))) s)"

end
