(* ===== verification/Shop.thy ===== *)
theory Shop
  imports Challenges
begin

text \<open>
  The handlers of the shop (\<open>ctr_marketplace.go\<close>) and of the achievements engine
  (\<open>ctr_achievements.go\<close>), on top of the economy. A handler returns its reply and what it leaves
  in \<open>afterReply\<close>, to be run when the reply was sent. \<open>clock i\<close> is the value of the handler's
  \<open>i\<close>-th call of \<open>time.Now\<close>. Go's panics are a value of \<open>outcome\<close>, and a loop that does not end
  is \<open>None\<close>.
\<close>

datatype 'a outcome = Return 'a | Panic

subsection \<open>Balances\<close>

definition currencyIDs :: "u64 list" where "currencyIDs = [10, 11, 12]"

definition balance_entry :: "(u64 \<Rightarrow> int option) \<Rightarrow> u64 \<Rightarrow> bytes" where
  "balance_entry w i =
     (let e = pbVarintField [] 1 i;
          e = pbVarintField e 2 (zigzag (case w i of None \<Rightarrow> 0 | Some v \<Rightarrow> v))
      in pbVarintField e 3 0)"

definition getPlayerBalancesResponse :: "(u64 \<Rightarrow> int option) \<Rightarrow> int \<Rightarrow> bytes" where
  "getPlayerBalancesResponse w mx =
     (let mx = (if mx \<le> 0 \<or> mx > int (length currencyIDs) then int (length currencyIDs) else mx)
      in foldl (\<lambda>out i. pbBytesField out 1 (balance_entry w i)) [] (take (nat mx) currencyIDs))"

text \<open>
  The loop of \<open>parseBalancesRequest\<close> at offset \<open>i\<close>. The length of a field is converted to a
  signed 64-bit integer, so that it may be negative and move the offset back.
\<close>

partial_function (option) balances_loop :: "bytes \<Rightarrow> int \<Rightarrow> string \<Rightarrow> int \<Rightarrow> (string \<times> int) outcome option" where
  "balances_loop sb i ctx mx =
     (if i \<ge> int (length sb) then Some (Return (ctx, mx))
      else if i < 0 then Some Panic
      else
        let field = drop_bit 3 (sb ! nat i); wire = sb ! nat i AND 7; i = i + 1 in
        (if wire = 0 then
           (case readVarint sb (nat i) of
              None \<Rightarrow> Some (Return (ctx, mx))
            | Some (v, next) \<Rightarrow>
                balances_loop sb (int next) ctx (if field = 2 then sint v else mx))
         else if wire = 2 then
           (case readVarint sb (nat i) of
              None \<Rightarrow> Some (Return (ctx, mx))
            | Some (ln, next) \<Rightarrow>
                let hi = wrap64 (int next + sint ln) in
                if hi > int (length sb) then Some (Return (ctx, mx))
                else if field = 1 \<and> hi < int next then Some Panic
                else balances_loop sb hi
                       (if field = 1 then str_of (subslice next (nat hi) sb) else ctx) mx)
         else Some (Return (ctx, mx))))"

definition parseBalancesRequest :: "bytes \<Rightarrow> (string \<times> int) outcome option" where
  "parseBalancesRequest payload =
     balances_loop (case structPayload payload of None \<Rightarrow> [] | Some sb \<Rightarrow> sb) 0 '''' 0"

subsection \<open>Inventory and purchases\<close>

definition writeInventoryItem :: "u64 \<Rightarrow> u32 \<Rightarrow> bytes" where
  "writeInventoryItem owner item =
     w_u64 owner @ w_strv (lit ''nintendo'') @ w_u32 item @ w_u32 1 @ w_u32 0 @ w_blobv [] @
     w_u32 0 @ w_i64 0 @ w_u16 0 @ w_u32 0"

definition octane :: bytes where "octane = lit ''octane_switch''"

definition parsePurchaseSkus :: "bytes \<Rightarrow> u32 list option" where
  "parsePurchaseSkus payload =
     (case rd_str \<lparr>rbuf = payload, roff = 3\<rparr> of (Inl _, _) \<Rightarrow> None | (Inr ctx, r) \<Rightarrow>
      if ctx \<noteq> octane then None else
     (case rd_u32 r of (Inl _, _) \<Rightarrow> None | (Inr n, r) \<Rightarrow>
      if n = 0 \<or> n > 255 then None else
     (case rd_n rd_u32 (unat n) r of (Inl _, _) \<Rightarrow> None | (Inr skus, r) \<Rightarrow>
     (case rd_u32 r of (Inl _, _) \<Rightarrow> None | (Inr qn, r) \<Rightarrow>
      if qn \<noteq> n then None else
     (case rd_n rd_u32 (unat n) r of (Inl _, _) \<Rightarrow> None | (Inr qs, r) \<Rightarrow>
      if list_ex (\<lambda>q. q \<noteq> 1) qs then None else Some skus)))))"

definition parsePurchaseSku :: "bytes \<Rightarrow> u32 option" where
  "parsePurchaseSku payload =
     (case parsePurchaseSkus payload of
        None \<Rightarrow> None | Some ids \<Rightarrow> if length ids \<noteq> 1 then None else Some (ids ! 0))"

subsection \<open>What runs after the reply\<close>

datatype afterReply = NothingAfter | BalanceAfter | AchievementsAfter int bytes

text \<open>The pushes, in order, and the store; reading the balance may migrate the account.\<close>

definition run_after :: "catalog \<Rightarrow> int \<Rightarrow> u64 \<Rightarrow> afterReply \<Rightarrow> economyStore \<Rightarrow> bytes list \<times> economyStore" where
  "run_after cat start p after s =
     (case after of
        NothingAfter \<Rightarrow> ([], s)
      | BalanceAfter \<Rightarrow>
          (case pushCurrentBalance cat start p s of
             (None, s) \<Rightarrow> ([], s) | (Some b, s) \<Rightarrow> ([b], s))
      | AchievementsAfter earned updates \<Rightarrow>
          (case (if earned \<noteq> 0
                 then (case pushCurrentBalance cat start p s of
                         (None, s) \<Rightarrow> ([], s) | (Some b, s) \<Rightarrow> ([b], s))
                 else ([], s)) of
             (pushes, s) \<Rightarrow>
               (if updates = [] then pushes else pushes @ [pushPayload 75 (w_structv updates)], s)))"

subsection \<open>The shop\<close>

definition failed :: "u64 \<Rightarrow> byte \<Rightarrow> economyStore \<Rightarrow> bytes option \<times> afterReply \<times> economyStore" where
  "failed txn task s = (Some (taskReply txn task errUnhandled None), NothingAfter, s)"

definition onBalances ::
    "catalog \<Rightarrow> int \<Rightarrow> u64 \<Rightarrow> u64 \<Rightarrow> byte \<Rightarrow> int \<Rightarrow> economyStore \<Rightarrow> bytes option \<times> afterReply \<times> economyStore" where
  "onBalances cat start p txn task mx s =
     (case snapshot cat start p s of
        (Inl _, s) \<Rightarrow> failed txn task s
      | (Inr a, s) \<Rightarrow>
          (Some (structTaskReply txn task (getPlayerBalancesResponse (ea_balances a) mx)), NothingAfter, s))"

definition onInventory ::
    "catalog \<Rightarrow> int \<Rightarrow> u64 \<Rightarrow> u64 \<Rightarrow> byte \<Rightarrow> bytes \<Rightarrow> economyStore \<Rightarrow> bytes option \<times> afterReply \<times> economyStore" where
  "onInventory cat start p txn task payload s =
     (case rd_str \<lparr>rbuf = payload, roff = 3\<rparr> of (Inl _, _) \<Rightarrow> failed txn task s | (Inr ctx, r) \<Rightarrow>
      if ctx \<noteq> octane then failed txn task s else
     (case rd_u32 r of (Inl _, _) \<Rightarrow> failed txn task s | (Inr page, r) \<Rightarrow>
     (case rd_u32 r of (Inl _, _) \<Rightarrow> failed txn task s | (Inr sz, r) \<Rightarrow>
      if sz = 0 \<or> sz > 4096 then failed txn task s else
     (case snapshot cat start p s of
        (Inl _, s) \<Rightarrow> failed txn task s
      | (Inr a, s) \<Rightarrow>
          let items = inventoryPage a page sz in
          (Some (taskReply txn task 0
             (Some (concat (map (writeInventoryItem p) items), of_nat (length items)))),
           NothingAfter, s)))))"

definition onPurchase ::
    "catalog \<Rightarrow> int \<Rightarrow> u64 \<Rightarrow> u64 \<Rightarrow> byte \<Rightarrow> bytes \<Rightarrow> economyStore \<Rightarrow> bytes option \<times> afterReply \<times> economyStore" where
  "onPurchase cat start p txn task payload s =
     (case parsePurchaseSkus payload of
        None \<Rightarrow> failed txn task s
      | Some skus \<Rightarrow>
          (case purchase cat start p skus s of
             (Inl _, s) \<Rightarrow> failed txn task s
           | (Inr _, s) \<Rightarrow> (Some (taskReply txn task 0 None), BalanceAfter, s)))"

definition onMarketplace ::
    "catalog \<Rightarrow> int \<Rightarrow> u64 \<Rightarrow> u64 \<Rightarrow> byte \<Rightarrow> bytes \<Rightarrow> economyStore \<Rightarrow>
     (bytes option \<times> afterReply \<times> economyStore) outcome option" where
  "onMarketplace cat start p txn task payload s =
     (if task = 245 then
        (case parseBalancesRequest payload of
           None \<Rightarrow> None
         | Some Panic \<Rightarrow> Some Panic
         | Some (Return (ctx, mx)) \<Rightarrow> Some (Return (onBalances cat start p txn task mx s)))
      else if task = 246 then Some (Return (Some (structTaskReply txn task []), NothingAfter, s))
      else if task = 165 then Some (Return (onInventory cat start p txn task payload s))
      else if task = 154 then Some (Return (onPurchase cat start p txn task payload s))
      else Some (Return (None, NothingAfter, s)))"

subsection \<open>The achievements engine\<close>

definition report_events ::
    "catalog \<Rightarrow> int \<Rightarrow> raceRates \<Rightarrow> challengeSchedule \<Rightarrow> (nat \<Rightarrow> int) \<Rightarrow> u64 \<Rightarrow> achievementEvent list \<Rightarrow>
     economyStore \<Rightarrow> (economyError + int \<times> bytes) \<times> economyStore" where
  "report_events cat start rates sched clock p events s =
     (case awardRaces cat start rates (clock 0) p events s of (Inl e, s) \<Rightarrow> (Inl e, s) | (Inr earned, s) \<Rightarrow>
     (case reportPitStopRefresh cat start (clock 1) p events s of (Inl e, s) \<Rightarrow> (Inl e, s) | (Inr updates, s) \<Rightarrow>
     (case awardChallenges cat start sched (clock 2) p events s of (Inl e, s) \<Rightarrow> (Inl e, s)
      | (Inr (more_earned, more_updates), s) \<Rightarrow>
          (Inr (wrap64 (earned + more_earned), updates @ more_updates), s))))"

fun states_loop ::
    "challengeSchedule \<Rightarrow> economyAccount \<Rightarrow> (nat \<Rightarrow> int) \<Rightarrow> nat \<Rightarrow> bytes \<Rightarrow> challengeRule list \<Rightarrow> bytes \<Rightarrow> bytes" where
  "states_loop sched a clock i payload [] states = states"
| "states_loop sched a clock i payload (r # rs) states =
     states_loop sched a clock (Suc i) payload rs
       (case current sched r a (unix (clock i)) of
          Some (c, _) \<Rightarrow> if achievementRequested payload c then pbBytesField states 1 (encode c) else states
        | None \<Rightarrow> states)"

definition achievement_states :: "challengeSchedule \<Rightarrow> economyAccount \<Rightarrow> (nat \<Rightarrow> int) \<Rightarrow> bytes \<Rightarrow> bytes" where
  "achievement_states sched a clock payload =
     (let state = currentPitStopRefresh a (clock 0);
          states = (if achievementRequested payload state then pbBytesField [] 1 (encode state) else [])
      in states_loop sched a clock 1 payload (cs_rules sched) states)"

definition onAchievements ::
    "catalog \<Rightarrow> int \<Rightarrow> raceRates \<Rightarrow> challengeSchedule \<Rightarrow> (nat \<Rightarrow> int) \<Rightarrow> u64 \<Rightarrow> u64 \<Rightarrow> byte \<Rightarrow> bytes \<Rightarrow>
     economyStore \<Rightarrow> bytes option \<times> afterReply \<times> economyStore" where
  "onAchievements cat start rates sched clock p txn task payload s =
     (if task = 1 then
        (case parseRewardEvents payload of
           Inl _ \<Rightarrow> failed txn task s
         | Inr events \<Rightarrow>
             (case report_events cat start rates sched clock p events s of
                (Inl _, s) \<Rightarrow> failed txn task s
              | (Inr (earned, updates), s) \<Rightarrow>
                  (Some (structTaskReply txn task []), AchievementsAfter earned updates, s)))
      else if task = 2 then (Some (structTaskReply txn task []), AchievementsAfter 0 [], s)
      else if task = 3 then
        (case snapshot cat start p s of
           (Inl _, s) \<Rightarrow> failed txn task s
         | (Inr a, s) \<Rightarrow>
             (Some (structTaskReply txn task (pbBytesField (achievement_states sched a clock payload) 2 [])),
              NothingAfter, s))
      else if task = 9 then (Some (structTaskReply txn task (pbBytesField [] 1 (lit ''{}''))), NothingAfter, s)
      else (Some (structTaskReply txn task []), NothingAfter, s))"

end
