(* ===== verification/ChallengeProps.thy ===== *)
theory ChallengeProps
  imports Challenges RewardProps Transition
begin

text \<open>Reporting the same events again changes nothing, and progress stays within its target.\<close>

subsection \<open>The loop of one rule\<close>

text \<open>Every event of the list that counts has its receipts already.\<close>

fun settled ::
    "int \<Rightarrow> challengeRule \<Rightarrow> challengePeriod \<Rightarrow> ctrAchievementState \<Rightarrow> achievementEvent list \<Rightarrow>
     (string \<Rightarrow> u64) \<Rightarrow> challengeCompletion \<Rightarrow> bool" where
  "settled now r p s [] occ c = True"
| "settled now r p s (e # es) occ c =
     (if \<not> event_counts now r p s e \<or> increment r e = 0 then settled now r p s es occ c
      else
        let occ = occ(receipt e := occ (receipt e) + 1)
        in received c (receipt e) \<ge> occ (receipt e) \<and> settled now r p s es occ c)"

definition grown :: "challengeCompletion \<Rightarrow> challengeCompletion \<Rightarrow> bool" where
  "grown c c' \<longleftrightarrow> (\<forall>k. received c k \<le> received c' k)"

lemma grown_refl [simp]: "grown c c"
  by (simp add: grown_def)

lemma grown_trans: "grown a b \<Longrightarrow> grown b c \<Longrightarrow> grown a c"
  by (auto simp: grown_def intro: order_trans)

lemma settled_stays:
  "settled now r p s es occ c \<Longrightarrow> challenge_loop now r p s es occ c cr ch = (c, cr, ch)"
  by (induction es arbitrary: occ) (auto simp: Let_def split: if_splits)

lemma settled_grown: "settled now r p s es occ c \<Longrightarrow> grown c c' \<Longrightarrow> settled now r p s es occ c'"
  by (induction es arbitrary: occ) (auto simp: Let_def grown_def split: if_splits intro: order_trans)

lemma received_step [simp]:
  "received (c\<lparr>cc_progress := x\<rparr>) k = received c k"
  "received (c\<lparr>cc_distinct := d\<rparr>) k = received c k"
  "received (c\<lparr>cc_receipts := (cc_receipts c)(j \<mapsto> v)\<rparr>) k = (if k = j then v else received c k)"
  by (simp_all add: received_def)

lemma step_amount_keeps:
  "step_amount r e c = Some (inc, c') \<Longrightarrow>
   cc_receipts c' = cc_receipts c \<and> cc_progress c' = cc_progress c \<and> cc_completed c' = cc_completed c"
  by (auto simp: step_amount_def split: if_splits option.splits)

lemma received_same: "cc_receipts c = cc_receipts d \<Longrightarrow> received c k = received d k"
  by (simp add: received_def)

text \<open>What the loop does after the receipt of a fresh event.\<close>

abbreviation fresh_step ::
    "int \<Rightarrow> challengeRule \<Rightarrow> challengePeriod \<Rightarrow> ctrAchievementState \<Rightarrow> achievementEvent \<Rightarrow> achievementEvent list \<Rightarrow>
     (string \<Rightarrow> u64) \<Rightarrow> challengeCompletion \<Rightarrow> int \<Rightarrow> challengeCompletion \<times> int \<times> bool" where
  "fresh_step now r p s e es occ c cr \<equiv>
     (case step_amount r e c of
        None \<Rightarrow> challenge_loop now r p s es occ c cr True
      | Some (inc, c) \<Rightarrow>
          if inc \<ge> as_target s - cc_progress c then
            (c\<lparr>cc_progress := as_target s, cc_completed := ev_time e, cc_receipts := (\<lambda>_. None)\<rparr>,
             wrap64 (cr + cr_reward r), True)
          else challenge_loop now r p s es occ (c\<lparr>cc_progress := cc_progress c + inc\<rparr>) cr True)"

text \<open>After the loop the rule is completed, or every event has its receipts.\<close>

lemma challenge_loop_settles:
  assumes "challenge_loop now r p s es occ c cr ch = (c', cr', ch')"
    and "cc_completed c = 0" and "as_start s \<noteq> 0"
  shows "cc_completed c' \<noteq> 0 \<or> (cc_completed c' = 0 \<and> settled now r p s es occ c' \<and> grown c c')"
  using assms
proof (induction es arbitrary: occ c cr ch)
  case (Cons e es)
  let ?k = "receipt e"
  define occ1 where "occ1 = occ(?k := occ ?k + 1)"
  define c1 where "c1 = c\<lparr>cc_receipts := (cc_receipts c)(?k \<mapsto> occ ?k + 1)\<rparr>"
  have c1: "cc_completed c1 = 0" using Cons.prems(2) by (simp add: c1_def)
  show ?case
  proof (cases "\<not> event_counts now r p s e \<or> increment r e = 0")
    case True
    then show ?thesis using Cons.prems Cons.IH by auto
  next
    case counts: False
    show ?thesis
    proof (cases "received c ?k \<ge> occ1 ?k")
      case True
      then have "challenge_loop now r p s es occ1 c cr ch = (c', cr', ch')"
        using Cons.prems(1) counts by (simp add: occ1_def Let_def)
      from Cons.IH [OF this Cons.prems(2)] Cons.prems(3) True counts show ?thesis
        by (fastforce simp: occ1_def Let_def grown_def intro: order_trans)
    next
      case fresh: False
      then have g1: "grown c c1" by (auto simp: grown_def c1_def occ1_def not_le intro: less_imp_le)
      have have_it: "grown c1 d \<Longrightarrow> occ1 ?k \<le> received d ?k" for d
        by (auto simp: grown_def c1_def occ1_def dest: spec [of _ ?k])
      have run: "fresh_step now r p s e es occ1 c1 cr = (c', cr', ch')"
        using Cons.prems(1) counts fresh unfolding occ1_def c1_def by (simp add: Let_def)
      have finish: ?thesis if "grown c1 d" "cc_completed d = 0"
        "challenge_loop now r p s es occ1 d cr True = (c', cr', ch')" for d
      proof -
        have "cc_completed c' \<noteq> 0 \<or> (cc_completed c' = 0 \<and> settled now r p s es occ1 c' \<and> grown d c')"
          using Cons.IH [OF that(3,2)] Cons.prems(3) by simp
        then show ?thesis
          using counts g1 that(1) have_it grown_trans [of c1 d c'] grown_trans [of c c1 c']
          by (auto simp: occ1_def Let_def)
      qed
      show ?thesis
      proof (cases "step_amount r e c1")
        case None
        then show ?thesis using finish [of c1] c1 run by simp
      next
        case (Some x)
        then obtain inc c2 where x: "step_amount r e c1 = Some (inc, c2)" by (cases x) auto
        note keep = step_amount_keeps [OF x]
        show ?thesis
        proof (cases "inc \<ge> as_target s - cc_progress c2")
          case True
          then have "cc_completed c' = ev_time e" using run x by auto
          moreover have "ev_time e \<noteq> 0" using Cons.prems(3) counts by (auto simp: event_counts_def word_gt_0)
          ultimately show ?thesis by simp
        next
          case False
          have "grown c1 (c2\<lparr>cc_progress := cc_progress c2 + inc\<rparr>)"
            using keep by (simp add: grown_def received_def)
          then show ?thesis
            using finish [of "c2\<lparr>cc_progress := cc_progress c2 + inc\<rparr>"] keep c1 run x False by simp
        qed
      qed
    qed
  qed
qed simp

text \<open>Unless it says that the record changed, the loop leaves it alone.\<close>

lemma challenge_loop_unchanged:
  "challenge_loop now r p s es occ c cr ch = (c', cr', ch') \<Longrightarrow> \<not> ch' \<Longrightarrow> c' = c \<and> cr' = cr \<and> \<not> ch"
proof (induction es arbitrary: occ c cr ch)
  case (Cons e es)
  have flag: "challenge_loop now r p s es occ c cr True = (c', cr', ch') \<Longrightarrow> False" for occ c cr
    using Cons.IH Cons.prems(2) by blast
  show ?case
    using Cons.prems Cons.IH flag
    by (auto simp: Let_def split: if_splits option.splits) blast+
qed simp

subsection \<open>The account\<close>

text \<open>A record only gains receipts until it is completed.\<close>

definition later :: "challengeCompletion \<Rightarrow> challengeCompletion \<Rightarrow> bool" where
  "later c c' \<longleftrightarrow> cc_completed c' \<noteq> 0 \<or> (cc_completed c = 0 \<and> grown c c')"

lemma later_refl [simp]: "later c c"
  by (simp add: later_def)

lemma later_trans: "later a b \<Longrightarrow> later b c \<Longrightarrow> later a c"
  by (auto simp: later_def intro: grown_trans)

definition all_later :: "economyAccount \<Rightarrow> economyAccount \<Rightarrow> bool" where
  "all_later a a' \<longleftrightarrow> (\<forall>k. later (completion a k) (completion a' k))"

lemma all_later_refl [simp]: "all_later a a"
  by (simp add: all_later_def)

lemma all_later_trans: "all_later a b \<Longrightarrow> all_later b c \<Longrightarrow> all_later a c"
  by (auto simp: all_later_def intro: later_trans)

text \<open>The key and the record of a rule in its current period.\<close>

abbreviation rule_key :: "challengeRule \<Rightarrow> int \<Rightarrow> challengePeriod \<Rightarrow> string" where
  "rule_key r cycle p \<equiv> challengeKey (cr_name r) (word_of_int (cycle + cp_start p))"

lemma rule_state_fields [simp]:
  "as_name (rule_state r cycle p c) = cr_name r"
  "as_start (rule_state r cycle p c) = word_of_int (cycle + cp_start p)"
  "as_end (rule_state r cycle p c) = word_of_int (cycle + cp_end p)"
  "as_target (rule_state r cycle p c) = cp_target p"
  "as_completed (rule_state r cycle p c) = cc_completed c"
  by (simp_all add: rule_state_def Let_def)

lemma event_counts_period:
  "event_counts now r p (rule_state r cycle p c) e = event_counts now r p (rule_state r cycle p d) e"
  by (simp add: event_counts_def)

lemma settled_period:
  assumes "\<And>e. e \<in> set es \<Longrightarrow> ev_time e \<le> grace now \<and> ev_time e \<le> grace now'"
  shows "settled now r p (rule_state r cycle p c) es occ x = settled now' r p (rule_state r cycle p d) es occ x"
  using assms
proof (induction es arbitrary: occ)
  case (Cons e es)
  have "event_counts now r p (rule_state r cycle p c) e = event_counts now' r p (rule_state r cycle p d) e"
    using Cons.prems [of e] by (auto simp: event_counts_def not_less)
  then show ?case using Cons by (simp add: Let_def)
qed simp

definition rule_settled ::
    "challengeSchedule \<Rightarrow> int \<Rightarrow> achievementEvent list \<Rightarrow> economyAccount \<Rightarrow> challengeRule \<Rightarrow> bool" where
  "rule_settled sched now es a r \<longleftrightarrow>
     (case active_period sched r (unix now) of
        None \<Rightarrow> True
      | Some (cycle, p) \<Rightarrow>
          cc_completed (completion a (rule_key r cycle p)) \<noteq> 0 \<or>
          settled now r p (rule_state r cycle p no_completion) es (\<lambda>_. 0) (completion a (rule_key r cycle p)))"

lemma settled_any_state:
  "settled now r p (rule_state r cycle p c) es occ x = settled now r p (rule_state r cycle p d) es occ x"
  by (induction es arbitrary: occ) (simp_all add: event_counts_period [of now r p cycle c _ d] Let_def)

lemma rule_settled_later: "rule_settled sched now es a r \<Longrightarrow> all_later a a' \<Longrightarrow> rule_settled sched now es a' r"
  by (auto simp: rule_settled_def all_later_def later_def intro: settled_grown split: option.splits)

lemma completion_update [simp]:
  "completion (a\<lparr>ea_challenges := (ea_challenges a)(k \<mapsto> c)\<rparr>) j = (if j = k then c else completion a j)"
  by (simp add: completion_def)

lemma completion_credit [simp]: "completion (credit x a) k = completion a k"
  by (simp add: completion_def)

lemma award_rule_settled:
  assumes "rule_settled sched now es a r"
  shows "award_rule sched now es r (a, cr, u, ch) = (a, cr, u, ch)"
proof (cases "active_period sched r (unix now)")
  case None
  then show ?thesis by (simp add: award_rule_def current_def)
next
  case (Some x)
  then obtain cycle p where ap: "active_period sched r (unix now) = Some (cycle, p)" by (cases x) auto
  let ?c = "completion a (rule_key r cycle p)"
  have "cc_completed ?c \<noteq> 0 \<or> settled now r p (rule_state r cycle p no_completion) es (\<lambda>_. 0) ?c"
    using assms unfolding rule_settled_def ap by (simp only: option.case prod.case)
  then have "cc_completed ?c \<noteq> 0 \<or> settled now r p (rule_state r cycle p ?c) es (\<lambda>_. 0) ?c"
    using settled_any_state [of now r p cycle no_completion es "\<lambda>_. 0" ?c ?c] by blast
  then show ?thesis
    using settled_stays by (auto simp: award_rule_def current_def ap Let_def)
qed

text \<open>
  A schedule that starts after 1970, whose cycles take time and whose periods lie in their cycle (as in
  the file the program embeds): no period starts at the moment 0, which stands for \<open>not completed\<close>.
\<close>

definition schedule_ok :: "challengeSchedule \<Rightarrow> bool" where
  "schedule_ok sched \<longleftrightarrow>
     0 < cs_start sched \<and> 0 < cs_seconds sched \<and>
     list_all (\<lambda>r. list_all (\<lambda>p. 0 \<le> cp_start p) (cr_periods r)) (cs_rules sched)"

lemma period_start:
  assumes "active_period sched r secs = Some (cycle, p)" and "schedule_ok sched"
    and "r \<in> set (cs_rules sched)" and "secs < 2 ^ 63"
  shows "as_start (rule_state r cycle p c) \<noteq> 0"
proof -
  have p: "p \<in> set (cr_periods r)" "cycle + cp_start p \<le> secs"
    and c: "cycle = cs_start sched + (secs - cs_start sched) div cs_seconds sched * cs_seconds sched"
    and d: "0 \<le> secs - cs_start sched"
    using assms(1) by (auto simp: active_period_def Let_def find_Some_iff split: if_splits)
  have "0 \<le> cp_start p" "0 < cs_start sched" "0 < cs_seconds sched"
    using p(1) assms(2,3) by (auto simp: schedule_ok_def list_all_iff)
  moreover from this have "0 \<le> (secs - cs_start sched) div cs_seconds sched * cs_seconds sched"
    using d by (simp add: pos_imp_zdiv_nonneg_iff)
  ultimately have "0 < cycle + cp_start p" unfolding c by linarith
  moreover have "uint (word_of_int x :: u64) = x" if "0 < x" "x < 2 ^ 63" for x
    using that by (simp add: uint_word_of_int_eq take_bit_int_eq_self)
  ultimately have "(word_of_int (cycle + cp_start p) :: u64) \<noteq> 0"
    using p(2) assms(4) by (metis le_less_trans less_irrefl uint_0_eq)
  then show ?thesis by (simp add: rule_state_def Let_def)
qed

lemma award_rule_effect:
  assumes run: "award_rule sched now es r (a, cr, u, ch) = (a', cr', u', ch')"
    and sched: "schedule_ok sched" "r \<in> set (cs_rules sched)" "unix now < 2 ^ 63"
  shows "all_later a a' \<and> rule_settled sched now es a' r"
proof (cases "active_period sched r (unix now)")
  case None
  then show ?thesis using run by (simp add: award_rule_def current_def rule_settled_def)
next
  case (Some x)
  then obtain cycle p where ap: "active_period sched r (unix now) = Some (cycle, p)" by (cases x) auto
  let ?k = "rule_key r cycle p"
  let ?c = "completion a ?k"
  let ?s = "rule_state r cycle p ?c"
  show ?thesis
  proof (cases "cc_completed ?c = 0")
    case False
    then show ?thesis using run by (simp add: award_rule_def current_def ap rule_settled_def)
  next
    case True
    obtain c crd rec where loop: "challenge_loop now r p ?s es (\<lambda>_. 0) ?c cr False = (c, crd, rec)"
      by (rule prod_cases3)
    note res = challenge_loop_settles [OF loop True period_start [OF ap sched]]
    have lat: "later ?c c" using res True by (auto simp: later_def)
    have good: "cc_completed c \<noteq> 0 \<or> settled now r p (rule_state r cycle p no_completion) es (\<lambda>_. 0) c"
      using res settled_any_state [of now r p cycle no_completion es _ c ?c] by blast
    have keep: "cc_progress c = cc_progress ?c \<Longrightarrow> \<not> rec \<Longrightarrow> c = ?c"
      using challenge_loop_unchanged [OF loop] by blast
    have "a' = a\<lparr>ea_challenges := (ea_challenges a)(?k \<mapsto> c)\<rparr> \<or> (a' = a \<and> c = ?c)"
      using run True loop keep by (auto simp: award_rule_def current_def ap Let_def split: if_splits)
    then show ?thesis
      using lat good ap by (auto simp: all_later_def rule_settled_def)
  qed
qed

lemma award_all_effect:
  assumes "foldl (\<lambda>st r. award_rule sched now es r st) (a, cr, u, ch) rs = (a', cr', u', ch')"
    and "schedule_ok sched" and "set rs \<subseteq> set (cs_rules sched)" and "unix now < 2 ^ 63"
  shows "all_later a a' \<and> list_all (rule_settled sched now es a') rs"
  using assms(1,3)
proof (induction rs arbitrary: a cr u ch)
  case (Cons r rs)
  obtain b cb ub hb where r: "award_rule sched now es r (a, cr, u, ch) = (b, cb, ub, hb)"
    by (rule prod_cases4)
  have rest: "foldl (\<lambda>st r. award_rule sched now es r st) (b, cb, ub, hb) rs = (a', cr', u', ch')"
    using Cons.prems r by simp
  have "all_later a b \<and> rule_settled sched now es b r"
    using award_rule_effect [OF r assms(2) _ assms(4)] Cons.prems(2) by simp
  moreover have "all_later b a' \<and> list_all (rule_settled sched now es a') rs"
    using Cons.IH [OF rest] Cons.prems(2) by simp
  ultimately show ?case by (auto intro: all_later_trans rule_settled_later)
qed simp

lemma award_all_settled:
  "list_all (rule_settled sched now es a) rs \<Longrightarrow>
   foldl (\<lambda>st r. award_rule sched now es r st) (a, cr, u, ch) rs = (a, cr, u, ch)"
  by (induction rs) (auto simp: award_rule_settled)

lemma rule_settled_moment:
  assumes "active_period sched r (unix now') = active_period sched r (unix now)"
    and "\<And>e. e \<in> set es \<Longrightarrow> ev_time e \<le> grace now \<and> ev_time e \<le> grace now'"
    and "rule_settled sched now es a r"
  shows "rule_settled sched now' es a r"
proof (cases "active_period sched r (unix now)")
  case None
  then show ?thesis using assms(1) by (simp add: rule_settled_def)
next
  case (Some x)
  then obtain cycle p where ap: "active_period sched r (unix now) = Some (cycle, p)" by (cases x) auto
  note same = settled_period [where r = r and p = p and cycle = cycle and c = no_completion
    and d = no_completion and occ = "\<lambda>_. 0", OF assms(2)]
  show ?thesis
    using assms(3) same unfolding rule_settled_def assms(1) ap by (simp only: option.case prod.case)
qed

subsection \<open>Reports\<close>

abbreviation award_fold ::
    "challengeSchedule \<Rightarrow> int \<Rightarrow> achievementEvent list \<Rightarrow> economyAccount \<Rightarrow> economyAccount \<times> int \<times> bytes \<times> bool" where
  "award_fold sched now es a \<equiv>
     foldl (\<lambda>st r. award_rule sched now es r st) (a, 0, [], False) (cs_rules sched)"

lemma awardChallenges_result:
  assumes "awardChallenges cat start sched now p es s = (Inr (cr, u), s1)"
  obtains a a1 cr' u' ch where "award_fold sched now es a = (a1, cr', u', ch)"
    "stored_account s1 p = Some (if ch then credit cr' a1 else a)" "ch \<Longrightarrow> cr = cr' \<and> u = u'"
    "\<And>b. stored_account s p = Some b \<Longrightarrow> b = a"
proof -
  obtain a o1 where v: "(case award_fold sched now es a of
        (a, cr, u, ch) \<Rightarrow> if \<not> ch then Inr (None, (0, [])) else Inr (Some (credit cr a), (cr, u)))
        = (Inr (o1, (cr, u)) :: economyError + _)"
      "stored_account s1 p = Some (case o1 of None \<Rightarrow> a | Some b \<Rightarrow> b)"
      "\<And>b. stored_account s p = Some b \<Longrightarrow> b = a"
    using disk.transact_view [OF assms [unfolded awardChallenges_def]] by blast
  obtain a1 cr' u' ch where f: "award_fold sched now es a = (a1, cr', u', ch)" by (rule prod_cases4)
  from v show ?thesis unfolding f by (intro that [OF f]) (auto split: if_splits)
qed

lemma rule_settled_credit: "rule_settled sched now es (credit x a) r = rule_settled sched now es a r"
  by (auto simp: rule_settled_def split: option.splits)

lemma award_rule_flag:
  "award_rule sched now es r (a, cr, u, ch) = (a', cr', u', ch') \<Longrightarrow> \<not> ch' \<Longrightarrow> a' = a \<and> \<not> ch"
  by (auto simp: award_rule_def Let_def split: option.splits prod.splits if_splits
      dest: challenge_loop_unchanged)

lemma award_fold_flag:
  "foldl (\<lambda>st r. award_rule sched now es r st) (a, cr, u, ch) rs = (a', cr', u', ch') \<Longrightarrow> \<not> ch' \<Longrightarrow>
   a' = a \<and> \<not> ch"
proof (induction rs arbitrary: a cr u ch)
  case (Cons r rs)
  obtain b cb ub hb where r: "award_rule sched now es r (a, cr, u, ch) = (b, cb, ub, hb)"
    by (rule prod_cases4)
  then show ?case using Cons.IH [of b cb ub hb] Cons.prems award_rule_flag [OF r] by simp
qed simp

text \<open>The moment up to which an event counts, as a number.\<close>

lemma grace_le:
  assumes "0 \<le> unix now" and "now \<le> now'" and "unix now' < 2 ^ 62"
  shows "grace now \<le> grace now'"
proof -
  have "0 \<le> unix (now + 300000000000)" "unix (now + 300000000000) \<le> unix (now' + 300000000000)"
    "unix (now' + 300000000000) < 2 ^ 63"
    using assms by (auto simp: unix_def intro!: zdiv_mono1)
  then show ?thesis
    by (simp add: grace_def word_le_def uint_word_of_int_eq take_bit_int_eq_self)
qed

text \<open>C24: A report of events none of which is more than five minutes ahead of the server's clock. Reporting
  the same events again at that moment or later, while the same periods run, earns nothing, announces
  nothing and changes no account: each event counts as often as it was reported at once, and a completed
  challenge stays completed. The schedule starts after 1970 and no period starts before its cycle, as in
  the embedded file; the clock is at a moment between 1970 and \<open>2 ^ 62\<close> seconds later. (An event
  further ahead is ignored at first and may count when it is reported again.)\<close>

theorem challenge_report_is_idempotent:
  assumes "awardChallenges cat start sched now p es s = (Inr (cr, u), s1)"
    and "schedule_ok sched" and "0 \<le> unix now" and "now \<le> now'" and "unix now' < 2 ^ 62"
    and "\<And>e. e \<in> set es \<Longrightarrow> ev_time e \<le> grace now"
    and "\<And>r. r \<in> set (cs_rules sched) \<Longrightarrow>
      active_period sched r (unix now') = active_period sched r (unix now)"
  shows "awardChallenges cat start sched now' p es s1 = (Inr (0, []), s1)"
proof -
  obtain a a1 cr' u' ch where f: "award_fold sched now es a = (a1, cr', u', ch)"
    and s1: "stored_account s1 p = Some (if ch then credit cr' a1 else a)"
    by (rule awardChallenges_result [OF assms(1)]) blast
  define b where "b = (if ch then credit cr' a1 else a)"
  have now: "unix now < 2 ^ 63"
    using assms(4,5) zdiv_mono1 [OF assms(4), of 1000000000] by (simp add: unix_def)
  have times: "ev_time e \<le> grace now \<and> ev_time e \<le> grace now'" if "e \<in> set es" for e
    using assms(6) [OF that] grace_le [OF assms(3-5)] by auto
  have "list_all (rule_settled sched now es a1) (cs_rules sched)"
    using award_all_effect [OF f assms(2) _ now] by blast
  then have "list_all (rule_settled sched now es b) (cs_rules sched)"
    using award_fold_flag [OF f] by (auto simp: b_def list_all_iff rule_settled_credit)
  then have "list_all (rule_settled sched now' es b) (cs_rules sched)"
    using rule_settled_moment [OF assms(7) times] by (auto simp: list_all_iff)
  from award_all_settled [OF this] have "award_fold sched now' es b = (b, 0, [], False)" .
  then show ?thesis
    using disk.load_again [OF s1 [folded b_def]] by (simp add: awardChallenges_def transact_def)
qed

definition ex_period :: challengePeriod where
  "ex_period = \<lparr>cp_start = 0, cp_end = 86400, cp_target = 2, cp_x = 0, cp_y = 0, cp_filters = []\<rparr>"

definition ex_rule :: challengeRule where
  "ex_rule = \<lparr>cr_name = ''win'', cr_id = 5, cr_kind = 1, cr_reward = 50, cr_periods = [ex_period]\<rparr>"

definition ex_schedule :: challengeSchedule where
  "ex_schedule = \<lparr>cs_start = 86400, cs_seconds = 86400, cs_rules = [ex_rule]\<rparr>"

definition ex_win :: achievementEvent where
  "ex_win = \<lparr>ev_name = ''win'', ev_time = 86500, ev_id = 1, ev_values = [(''Progress'', 1)]\<rparr>"

lemma ex_active: "active_period ex_schedule ex_rule 86600 = Some (86400, ex_period)"
  by (simp add: active_period_def ex_schedule_def ex_rule_def ex_period_def)

lemma ex_counts: "event_counts 86600000000000 ex_rule ex_period (rule_state ex_rule 86400 ex_period c) ex_win"
  by (simp add: event_counts_def grace_def unix_def accepts_def x_ok_def y_ok_def)
     (simp add: ex_rule_def ex_period_def ex_win_def)

definition ex_done :: challengeCompletion where
  "ex_done = \<lparr>cc_completed = 86500, cc_progress = 2, cc_receipts = (\<lambda>_. None), cc_distinct = {}\<rparr>"

lemma ex_increment: "increment ex_rule ex_win = 1" "battle_rule (cr_name ex_rule) = False"
  by (simp_all add: increment_def battle_rule_def ex_rule_def ex_win_def ev_val_def)

lemma ex_loop:
  "challenge_loop 86600000000000 ex_rule ex_period (rule_state ex_rule 86400 ex_period no_completion)
     [ex_win, ex_win] (\<lambda>_. 0) no_completion 0 False = (ex_done, 50, True)"
  by (simp add: ex_counts ex_increment step_amount_def Let_def)
     (simp add: no_completion_def received_def ex_done_def ex_period_def ex_rule_def ex_win_def wrap64_def)

definition ex_player :: economyAccount where
  "ex_player = new_account [wumpaCurrency \<mapsto> 140] {}"

lemma ex_player_challenges: "completion ex_player k = no_completion"
  by (simp add: completion_def ex_player_def new_account_def)

lemma ex_fold:
  "award_fold ex_schedule 86600000000000 [ex_win, ex_win] ex_player =
     (ex_player\<lparr>ea_challenges := (ea_challenges ex_player)(rule_key ex_rule 86400 ex_period \<mapsto> ex_done)\<rparr>, 50,
      pbBytesField [] 1 (encode (rule_state ex_rule 86400 ex_period ex_done)), True)"
proof -
  have u: "unix 86600000000000 = 86600" by (simp add: unix_def)
  have r: "cs_rules ex_schedule = [ex_rule]" by (simp add: ex_schedule_def)
  have p: "cc_progress ex_done \<noteq> cc_progress no_completion" "cc_completed no_completion = 0"
    by (simp_all add: ex_done_def no_completion_def)
  show ?thesis
    by (simp only: r foldl_Cons foldl_Nil)
       (simp add: award_rule_def current_def u ex_active ex_loop ex_player_challenges p Let_def
         del: challenge_loop.simps)
qed

lemma ex_challenge:
  "\<exists>u s1. awardChallenges Map.empty 0 ex_schedule 86600000000000 8 [ex_win, ex_win] race_store = (Inr (50, u), s1)"
proof -
  have "load Map.empty 0 8 race_store = (Inr ex_player, race_store)"
    by (rule disk.load_again) (simp add: race_store_def ex_player_def)
  then show ?thesis
    by (simp add: awardChallenges_def transact_def ex_fold)
       (simp add: race_store_def save_def)
qed

lemma challenge_report_is_idempotent_witness:
  "\<exists>u s1. awardChallenges Map.empty 0 ex_schedule 86600000000000 8 [ex_win, ex_win] race_store = (Inr (50, u), s1) \<and>
     awardChallenges Map.empty 0 ex_schedule 86700000000000 8 [ex_win, ex_win] s1 = (Inr (0, []), s1)"
proof -
  obtain u s1 where s1: "awardChallenges Map.empty 0 ex_schedule 86600000000000 8 [ex_win, ex_win] race_store = (Inr (50, u), s1)"
    using ex_challenge by blast
  have "awardChallenges Map.empty 0 ex_schedule 86700000000000 8 [ex_win, ex_win] s1 = (Inr (0, []), s1)"
    by (rule challenge_report_is_idempotent [OF s1])
      (auto simp: ex_win_def grace_def unix_def ex_schedule_def ex_rule_def ex_period_def active_period_def
        schedule_ok_def)
  with s1 show ?thesis by blast
qed

subsection \<open>Progress\<close>

lemma word_room: "\<not> inc \<ge> t - p \<Longrightarrow> p < t \<Longrightarrow> p \<le> p + inc \<and> p + inc < (t :: u64)"
  by unat_arith

lemma challenge_loop_progress:
  assumes "challenge_loop now r p s es occ c cr ch = (c', cr', ch')"
    and "cc_completed c = 0" and "cc_progress c < as_target s"
    and "\<And>e. e \<in> set es \<Longrightarrow> ev_time e \<noteq> 0"
  shows "if cc_completed c' = 0 then cc_progress c \<le> cc_progress c' \<and> cc_progress c' < as_target s \<and> cr' = cr
    else cc_progress c' = as_target s \<and> cr' = wrap64 (cr + cr_reward r) \<and>
      (\<exists>e \<in> set es. cc_completed c' = ev_time e \<and> event_counts now r p s e)"
  using assms
proof (induction es arbitrary: occ c cr ch)
  case (Cons e es)
  have rest: ?case if "challenge_loop now r p s es o1 d cr h = (c', cr', ch')"
    "cc_completed d = 0" "cc_progress c \<le> cc_progress d" "cc_progress d < as_target s" for o1 d h
    using Cons.IH [OF that(1,2,4)] Cons.prems(4) that(3) by (auto split: if_splits)
  let ?k = "receipt e"
  define o1 where "o1 = occ(?k := occ ?k + 1)"
  define c1 where "c1 = c\<lparr>cc_receipts := (cc_receipts c)(?k \<mapsto> occ ?k + 1)\<rparr>"
  have c1: "cc_completed c1 = 0" "cc_progress c1 = cc_progress c"
    using Cons.prems(2) by (simp_all add: c1_def)
  show ?case
  proof (cases "\<not> event_counts now r p s e \<or> increment r e = 0 \<or> received c ?k \<ge> o1 ?k")
    case True
    then have "\<exists>o1. challenge_loop now r p s es o1 c cr ch = (c', cr', ch')"
      using Cons.prems(1) by (auto simp: o1_def Let_def split: if_splits)
    then show ?thesis using rest Cons.prems(2,3) by blast
  next
    case False
    then have run: "fresh_step now r p s e es o1 c1 cr = (c', cr', ch')"
      using Cons.prems(1) unfolding o1_def c1_def by (simp add: Let_def)
    show ?thesis
    proof (cases "step_amount r e c1")
      case None
      then show ?thesis using rest [of o1 c1 True] c1 run Cons.prems(3) by simp
    next
      case (Some x)
      then obtain inc c2 where x: "step_amount r e c1 = Some (inc, c2)" by (cases x) auto
      note keep = step_amount_keeps [OF x]
      show ?thesis
      proof (cases "inc \<ge> as_target s - cc_progress c2")
        case True
        then have "cc_completed c' = ev_time e" "cc_progress c' = as_target s"
          "cr' = wrap64 (cr + cr_reward r)" using run x by auto
        then show ?thesis using Cons.prems(4) False by auto
      next
        case inc: False
        then have "cc_progress c \<le> cc_progress c + inc \<and> cc_progress c + inc < as_target s"
          using word_room [OF _ Cons.prems(3)] keep c1 by simp
        then show ?thesis
          using rest [of o1 "c2\<lparr>cc_progress := cc_progress c2 + inc\<rparr>" True] keep c1 run x inc by simp
      qed
    qed
  qed
qed simp

text \<open>The progress of a challenge never passes its target, so its sum never wraps around; the
  reward is credited exactly when the challenge is completed, which sets the progress to the
  target, and then only once.\<close>

theorem challenge_progress_within_target:
  assumes "challenge_loop now r p s es occ c cr ch = (c', cr', ch')"
    and "cc_completed c = 0" and "cc_progress c < as_target s"
    and "\<And>e. e \<in> set es \<Longrightarrow> ev_time e \<noteq> 0"
  shows "if cc_completed c' = 0 then cc_progress c \<le> cc_progress c' \<and> cc_progress c' < as_target s \<and> cr' = cr
    else cc_progress c' = as_target s \<and> cr' = wrap64 (cr + cr_reward r) \<and>
      (\<exists>e \<in> set es. cc_completed c' = ev_time e \<and> event_counts now r p s e)"
  by (rule challenge_loop_progress [OF assms])

lemma challenge_progress_within_target_witness:
  "cc_completed ex_done = 86500 \<and> cc_progress ex_done = cp_target ex_period \<and> (50 :: int) = wrap64 (0 + cr_reward ex_rule)"
  using challenge_progress_within_target [OF ex_loop]
  by (simp add: no_completion_def ex_period_def ex_done_def ex_win_def)

end
