(* ===== verification/ShopProps.thy ===== *)
theory ShopProps
  imports Shop EconomyProps ChallengeProps Transition
begin

text \<open>
  The handlers as steps of one system over the account files: what every sequence of tasks keeps
  of an account, and what the shop's parsers do with a request.
\<close>

subsection \<open>What an operation keeps of an account\<close>

definition refresh_ok :: "pitStopRefreshRecord \<Rightarrow> bool" where
  "refresh_ok r \<longleftrightarrow> finite (pr_receipts r) \<and> card (pr_receipts r) \<le> 2 \<and> pr_count r = of_nat (card (pr_receipts r))"

definition account_ok :: "economyAccount \<Rightarrow> bool" where
  "account_ok a \<longleftrightarrow>
     (\<forall>c v. ea_balances a c = Some v \<longrightarrow> in_i64 v) \<and> finite (ea_receipts a) \<and>
     (\<forall>r. ea_refresh a = Some r \<longrightarrow> refresh_ok r)"

definition grows :: "economyAccount \<Rightarrow> economyAccount \<Rightarrow> bool" where
  "grows a b \<longleftrightarrow>
     ea_items a \<subseteq> ea_items b \<and> ea_receipts a \<subseteq> ea_receipts b \<and> (account_ok a \<longrightarrow> account_ok b)"

lemma grows_refl [simp]: "grows a a"
  by (simp add: grows_def)

lemma grows_trans [trans]: "grows a b \<Longrightarrow> grows b c \<Longrightarrow> grows a c"
  by (auto simp: grows_def)

lemma grows_credit: "grows a (credit x a)"
  by (auto simp: grows_def account_ok_def credit_def)

lemma grows_same:
  "ea_items b = ea_items a \<Longrightarrow> ea_receipts b = ea_receipts a \<Longrightarrow> ea_refresh b = ea_refresh a \<Longrightarrow>
   ea_balances b = ea_balances a \<Longrightarrow> grows a b"
  by (simp add: grows_def account_ok_def)

lemma grows_items: "grows a (a\<lparr>ea_items := ea_items a \<union> I\<rparr>)"
  by (auto simp: grows_def account_ok_def)

lemma grows_receipt: "grows a (a\<lparr>ea_receipts := insert k (ea_receipts a)\<rparr>)"
  by (auto simp: grows_def account_ok_def)

lemma buy_skus_grows: "buy_skus cat skus (a, t) = Inr (a', t') \<Longrightarrow> grows a a'"
proof (induction cat skus "(a, t)" arbitrary: a t rule: buy_skus.induct)
  case (2 cat i ids a t)
  then obtain sku price where "cat i = Some sku" "skuPrice cat a sku = Inr price"
    "\<not> (price < 0 \<or> price > coins a)"
    and run: "buy_skus cat ids ((credit (- price) a)\<lparr>ea_items := ea_items (credit (- price) a) \<union> set (sku_items sku)\<rparr>,
      wrap64 (t + price)) = Inr (a', t')"
    by (auto simp: Let_def split: option.splits sum.splits if_splits)
  from 2(1) [OF this(1,2,3) refl _ run] have
    "grows ((credit (- price) a)\<lparr>ea_items := ea_items (credit (- price) a) \<union> set (sku_items sku)\<rparr>) a'"
    by simp
  then show ?case using grows_credit grows_items grows_trans by blast
qed simp

lemma pay_race_grows: "grows a (fst (pay_race r e a))"
proof -
  let ?b = "if ev_val e ''Online'' \<noteq> 0
    then a\<lparr>ea_online := (ea_online a)(day_key e \<mapsto> played_on (day_key e) a + ev_val e ''Time'')\<rparr> else a"
  have "grows a ?b" by (rule grows_same) simp_all
  also have "grows ?b (?b\<lparr>ea_receipts := insert (receipt e) (ea_receipts ?b)\<rparr>)" by (rule grows_receipt)
  also have "grows \<dots> (credit x \<dots>)" for x by (rule grows_credit)
  finally show ?thesis by (simp add: pay_race_def Let_def)
qed

lemma race_loop_grows: "race_loop rates now es (a, t) = (a', t') \<Longrightarrow> grows a a'"
  by (induction es arbitrary: a t)
    (auto simp: race_loop_Cons simp del: race_loop.simps(2) split: if_splits
      intro: grows_trans [OF pay_race_grows])

lemma award_rule_same:
  "award_rule sched now es r (a, cr, u, ch) = (a', cr', u', ch') \<Longrightarrow>
   ea_items a' = ea_items a \<and> ea_receipts a' = ea_receipts a \<and> ea_refresh a' = ea_refresh a \<and>
   ea_balances a' = ea_balances a"
  by (auto simp: award_rule_def Let_def split: option.splits prod.splits if_splits)

lemma award_fold_same:
  "foldl (\<lambda>st r. award_rule sched now es r st) (a, cr, u, ch) rs = (a', cr', u', ch') \<Longrightarrow>
   ea_items a' = ea_items a \<and> ea_receipts a' = ea_receipts a \<and> ea_refresh a' = ea_refresh a \<and>
   ea_balances a' = ea_balances a"
proof (induction rs arbitrary: a cr u ch)
  case (Cons r rs)
  obtain b cb ub hb where r: "award_rule sched now es r (a, cr, u, ch) = (b, cb, ub, hb)"
    by (rule prod_cases4)
  then show ?case using Cons.IH [of b cb ub hb] Cons.prems award_rule_same [OF r] by simp
qed simp

lemma refresh_loop_ok:
  "refresh_loop now st en es (r, v) = (r', v') \<Longrightarrow> refresh_ok r \<Longrightarrow> refresh_ok r'"
proof (induction es arbitrary: r v)
  case (Cons e es)
  have small: "of_nat (card (pr_receipts r)) < (2 :: u64) \<Longrightarrow> card (pr_receipts r) < 2" if "refresh_ok r"
    using that by (cases "card (pr_receipts r) = 2") (auto simp: refresh_ok_def)
  have one: "refresh_ok (r\<lparr>pr_count := pr_count r + 1, pr_receipts := insert k (pr_receipts r)\<rparr>)"
    if "refresh_ok r" "k \<notin> pr_receipts r" "pr_count r < 2" for k
    using that small by (auto simp: refresh_ok_def)
  show ?case
    using Cons.prems Cons.IH one by (auto split: if_splits)
qed simp

lemma refresh_account_grows:
  assumes "refresh_account now es a = (Some a', x)"
  shows "grows a a'"
proof -
  obtain day st en where d: "pitStopDay now = (day, st, en)" by (rule prod_cases3)
  define r0 where "r0 = (case ea_refresh a of
      Some r \<Rightarrow> if pr_day r \<noteq> day then \<lparr>pr_day = day, pr_count = 0, pr_receipts = {}\<rparr> else r
    | None \<Rightarrow> \<lparr>pr_day = day, pr_count = 0, pr_receipts = {}\<rparr>)"
  obtain r v where l: "refresh_loop now st en es (r0, False) = (r, v)" by fastforce
  have a': "a' = a\<lparr>ea_refresh := Some r\<rparr>"
    using assms d l by (auto simp: refresh_account_def r0_def Let_def split: if_splits)
  have "account_ok a \<Longrightarrow> refresh_ok r0"
    by (auto simp: r0_def account_ok_def refresh_ok_def split: option.splits)
  then show ?thesis
    using refresh_loop_ok [OF l] by (auto simp: a' grows_def account_ok_def)
qed

subsection \<open>Operations as steps\<close>

definition store_ok :: "economyStore \<Rightarrow> bool" where
  "store_ok s \<longleftrightarrow>
     (\<forall>p bs c v. ed_wallets s p = Content (Some bs) \<longrightarrow> bs c = Some v \<longrightarrow> in_i64 v) \<and>
     (\<forall>p a. stored_account s p = Some a \<longrightarrow> account_ok a)"

definition advances :: "economyStore \<Rightarrow> economyStore \<Rightarrow> bool" where
  "advances s s' \<longleftrightarrow>
     (store_ok s \<longrightarrow> store_ok s') \<and>
     (\<forall>p a. stored_account s p = Some a \<longrightarrow> (\<exists>b. stored_account s' p = Some b \<and> grows a b))"

lemma advances_refl [simp]: "advances s s"
  by (auto simp: advances_def intro: grows_refl)

lemma advances_trans [trans]: "advances s t \<Longrightarrow> advances t u \<Longrightarrow> advances s u"
  unfolding advances_def using grows_trans by meson

text \<open>The account a player starts with is in order when the legacy wallet is.\<close>

lemma load_ok:
  assumes "load cat start p s = (Inr a, s')" and "store_ok s" and "in_i64 start"
  shows "account_ok a"
proof (cases "ed_accounts s p")
  case Missing
  then have "migrate_account cat start p s = Inr a"
    using assms(1) by (auto simp: load_def split: sum.splits prod.splits)
  then obtain bs items where a: "a = new_account bs items" and bs: "\<And>c v. bs c = Some v \<Longrightarrow> in_i64 v"
    using assms(2,3)
    by (fastforce simp: migrate_account_def Let_def store_ok_def
        split: sum.splits stored_file.splits option.splits if_splits)
  then show ?thesis by (auto simp: account_ok_def new_account_def)
next
  case (Content sa)
  then have "stored_account s p = Some a"
    using assms(1) by (auto simp: load_def stored_account_def split: if_splits)
  then show ?thesis using assms(2) by (auto simp: store_ok_def)
qed (use assms(1) in \<open>simp add: load_def\<close>)

lemma transact_wallets: "transact (load cat start p) (save p) f s = (r, s') \<Longrightarrow> ed_wallets s' = ed_wallets s"
  using load_result(1) [of cat start p s] save_result(1) [of p]
  by (fastforce simp: transact_def same_others_def split: sum.splits prod.splits option.splits)

lemma transact_advances:
  assumes run: "transact (load cat start p) (save p) f s = (r, s')" and start: "in_i64 start"
    and keep: "\<And>a b x. f a = Inr (Some b, x) \<Longrightarrow> grows a b"
  shows "advances s s'"
proof -
  have ok: "store_ok s'" if "store_ok s"
  proof -
    have "account_ok a" if "stored_account s' q = Some a" for q a
      using disk.transact_invariant [where P = account_ok, OF run _ _ _ that] \<open>store_ok s\<close>
        load_ok [OF _ \<open>store_ok s\<close> start] keep
      by (auto simp: store_ok_def grows_def)
    then show ?thesis using that transact_wallets [OF run] by (simp add: store_ok_def)
  qed
  have "\<exists>b. stored_account s' q = Some b \<and> grows a b" if a: "stored_account s q = Some a" for q a
  proof (cases "q = p")
    case True
    show ?thesis
    proof (cases r)
      case (Inl e)
      then show ?thesis using disk.transact_stored(2) [OF run] a True by auto
    next
      case (Inr x)
      obtain o1 where "f a = Inr (o1, x)" "stored_account s' p = Some (case o1 of None \<Rightarrow> a | Some b \<Rightarrow> b)"
        using disk.transact_stored(1) [OF run a [unfolded True] Inr] by blast
      then show ?thesis using True keep by (cases o1) auto
    qed
  qed (use disk.transact_others [OF run] a in auto)
  with ok show ?thesis by (auto simp: advances_def)
qed

lemma snapshot_transact: "snapshot cat start p = transact (load cat start p) (save p) (\<lambda>a. Inr (None, a))"
  by (rule ext) (auto simp: snapshot_def transact_def split: prod.splits sum.splits)

lemma operations_advance:
  assumes "in_i64 start"
  shows "snapshot cat start p s = (r1, s') \<Longrightarrow> advances s s'"
    and "purchase cat start p skus s = (r2, s') \<Longrightarrow> advances s s'"
    and "awardRaces cat start rates now p es s = (r3, s') \<Longrightarrow> advances s s'"
    and "reportPitStopRefresh cat start now p es s = (r4, s') \<Longrightarrow> advances s s'"
    and "awardChallenges cat start sched now p es s = (r5, s') \<Longrightarrow> advances s s'"
proof -
  note adv = transact_advances [OF _ assms]
  show "snapshot cat start p s = (r1, s') \<Longrightarrow> advances s s'"
    by (erule adv [OF trans [OF fun_cong [OF snapshot_transact, symmetric]]]) simp
  show "purchase cat start p skus s = (r2, s') \<Longrightarrow> advances s s'"
    by (erule adv [OF trans [OF fun_cong [OF purchase_transact, symmetric]]])
       (auto split: sum.splits intro: buy_skus_grows)
  show "awardRaces cat start rates now p es s = (r3, s') \<Longrightarrow> advances s s'"
    unfolding awardRaces_def
    by (erule adv) (auto split: prod.splits if_splits intro: race_loop_grows)
  show "reportPitStopRefresh cat start now p es s = (r4, s') \<Longrightarrow> advances s s'"
    unfolding reportPitStopRefresh_def Let_def
    by (auto split: if_splits elim!: adv intro: refresh_account_grows)
  show "awardChallenges cat start sched now p es s = (r5, s') \<Longrightarrow> advances s s'"
    unfolding awardChallenges_def
    by (erule adv) (auto split: prod.splits if_splits dest!: award_fold_same
      intro: grows_trans [OF grows_same grows_credit])
qed

lemma onMarketplace_advances:
  assumes "in_i64 start" and "onMarketplace cat start p txn task payload s = Some (Return (b, after, s'))"
  shows "advances s s'"
  using assms(2) operations_advance [OF assms(1)]
  by (auto simp: onMarketplace_def onBalances_def onInventory_def onPurchase_def failed_def Let_def
      split: if_splits option.splits outcome.splits prod.splits sum.splits)

lemma report_events_advances:
  assumes "in_i64 start" and "report_events cat start rates sched clock p events s = (r, s')"
  shows "advances s s'"
proof -
  note ops = operations_advance(3-5) [OF assms(1)]
  obtain r1 s1 where races: "awardRaces cat start rates (clock 0) p events s = (r1, s1)" by fastforce
  obtain r2 s2 where refresh: "reportPitStopRefresh cat start (clock 1) p events s1 = (r2, s2)" by fastforce
  obtain r3 s3 where chall: "awardChallenges cat start sched (clock 2) p events s2 = (r3, s3)" by fastforce
  have "s' = s1 \<or> s' = s2 \<or> s' = s3"
    using assms(2) races refresh chall by (auto simp: report_events_def split: sum.splits)
  moreover note ops(1) [OF races]
  moreover have s2: "advances s s2" using ops(1) [OF races] ops(2) [OF refresh] by (rule advances_trans)
  moreover have "advances s s3" using s2 ops(3) [OF chall] by (rule advances_trans)
  ultimately show ?thesis by blast
qed

lemma onAchievements_advances:
  assumes "in_i64 start" and "onAchievements cat start rates sched clock p txn task payload s = (b, after, s')"
  shows "advances s s'"
  using assms(2) operations_advance(1) [OF assms(1)] report_events_advances [OF assms(1)]
  by (auto simp: onAchievements_def failed_def split: if_splits prod.splits sum.splits)

lemma run_after_advances:
  "in_i64 start \<Longrightarrow> run_after cat start p after s = (ps, s') \<Longrightarrow> advances s s'"
  using operations_advance(1) [of start cat p s]
  by (auto simp: run_after_def pushCurrentBalance_def
      split: afterReply.splits if_splits prod.splits sum.splits option.splits)

subsection \<open>Every sequence of tasks\<close>

text \<open>The steps: any shop or achievements task of any player, at any time, and what follows a reply.\<close>

inductive shop_step :: "catalog \<Rightarrow> int \<Rightarrow> raceRates \<Rightarrow> challengeSchedule \<Rightarrow> economyStore \<Rightarrow> economyStore \<Rightarrow> bool"
  for cat start rates sched where
  marketplace: "onMarketplace cat start p txn task payload s = Some (Return (b, after, s')) \<Longrightarrow>
    shop_step cat start rates sched s s'"
| achievements: "onAchievements cat start rates sched clock p txn task payload s = (b, after, s') \<Longrightarrow>
    shop_step cat start rates sched s s'"
| after_reply: "run_after cat start p after s = (pushes, s') \<Longrightarrow> shop_step cat start rates sched s s'"

inductive_cases shop_stepE: "shop_step cat start rates sched s s'"

lemma shop_step_advances: "in_i64 start \<Longrightarrow> shop_step cat start rates sched s s' \<Longrightarrow> advances s s'"
  by (auto elim!: shop_stepE intro: onMarketplace_advances onAchievements_advances run_after_advances)

lemma shop_run_advances:
  "(shop_step cat start rates sched)\<^sup>*\<^sup>* s s' \<Longrightarrow> in_i64 start \<Longrightarrow> advances s s'"
  by (induction rule: rtranclp_induct) (auto intro: advances_trans shop_step_advances)

interpretation shop: invariant_system store_ok "shop_step cat (wrap64 start) rates sched" store_ok
  for cat start rates sched
  by unfold_locales (auto dest!: shop_step_advances [rotated] simp: advances_def)

text \<open>C25: What a player has bought or earned stays: whatever tasks any players send, and whether or
  not they fail, the items of an account and the receipts of its paid races are never lost.\<close>

theorem items_are_never_lost:
  assumes "(shop_step cat start rates sched)\<^sup>*\<^sup>* s s'" and "in_i64 start"
    and "stored_account s p = Some a"
  shows "\<exists>b. stored_account s' p = Some b \<and> ea_items a \<subseteq> ea_items b \<and> ea_receipts a \<subseteq> ea_receipts b"
  using shop_run_advances [OF assms(1,2)] assms(3) by (fastforce simp: advances_def grows_def)



text \<open>C26: In every store reached by tasks from one whose accounts are in order, the balances of every
  account are 64-bit integers, and the daily counter of the shop is the number of distinct
  requests it has recorded, at most two.\<close>

theorem accounts_stay_in_order:
  assumes "reach store_ok (shop_step cat start rates sched) s" and "in_i64 start"
    and "stored_account s p = Some a"
  shows "(case ea_balances a c of None \<Rightarrow> True | Some v \<Rightarrow> in_i64 v) \<and>
    (case ea_refresh a of None \<Rightarrow> True
     | Some r \<Rightarrow> pr_count r = of_nat (card (pr_receipts r)) \<and> card (pr_receipts r) \<le> 2)"
proof -
  have "store_ok s"
    using shop.reach_inv [of cat start rates sched s] assms(1,2) by (simp add: wrap64_id)
  then have "account_ok a" using assms(3) by (simp add: store_ok_def)
  then show ?thesis by (auto simp: account_ok_def refresh_ok_def split: option.splits)
qed

subsection \<open>Requests\<close>

definition balances_request :: "bytes \<Rightarrow> bytes" where
  "balances_request sb = [80, tagU8, 245] @ w_structv sb"

lemma parse_request:
  "length sb < 2 ^ 32 \<Longrightarrow> parseBalancesRequest (balances_request sb) = balances_loop sb 0 '''' 0"
  using structPayload_written [of sb 80 245 "[]"] by (simp add: parseBalancesRequest_def balances_request_def)

text \<open>A field that claims a length of \<open>2 ^ 64 - 11\<close> bytes.\<close>

definition huge_field :: "byte \<Rightarrow> bytes" where "huge_field t = t # appendVarint (- 11)"

lemma huge_bytes: "huge_field t = [t, 0xF5, 0xFF, 0xFF, 0xFF, 0xFF, 0xFF, 0xFF, 0xFF, 0xFF, 0x01]"
  by (simp add: huge_field_def appendVarint.simps) (simp add: word_le_def)

lemma huge_facts:
  "huge_field t ! 0 = t" "length (huge_field t) = 11"
  "readVarint (huge_field t) (Suc 0) = Some (-11, 11)"
proof -
  have "length (appendVarint (-11 :: u64)) = 10" using huge_bytes [of 0] by (simp add: huge_field_def)
  then show "readVarint (huge_field t) (Suc 0) = Some (-11, 11)"
    using readVarint_hit [of 1 "huge_field t" "- 11" "[]"] by (simp add: huge_field_def)
qed (simp_all add: huge_bytes)

lemma huge_context_panics: "balances_loop (huge_field 0x0A) 0 ctx mx = Some Panic"
  by (simp add: balances_loop.simps [of _ 0] huge_facts Let_def wrap64_def)

lemma huge_other_spins: "balances_loop (huge_field 0x1A) 0 ctx mx = None"
proof -
  have "\<not> (sb = huge_field 0x1A \<and> i = 0)" if "balances_loop sb i ctx mx = Some y" for sb i ctx mx y
  proof (rule balances_loop.raw_induct
      [where P = "\<lambda>sb i ctx mx y. \<not> (sb = huge_field 0x1A \<and> i = 0)", OF _ that], goal_cases)
    case (1 f sb i ctx mx y)
    show ?case
    proof
      assume a: "sb = huge_field 0x1A \<and> i = 0"
      then have "f (huge_field 0x1A) 0 ctx mx = Some y"
        using 1(2) by (simp add: huge_facts Let_def wrap64_def)
      from 1(1) [OF this] show False by simp
    qed
  qed
  then show ?thesis by (cases "balances_loop (huge_field 0x1A) 0 ctx mx") blast+
qed

text \<open>C27: A balances request with a field of length \<open>2 ^ 64 - 11\<close> makes the handler panic when the
  field is the context, and loop for ever when it is another one: the length is checked after
  it was converted to a signed integer and moves the offset back.\<close>

theorem balances_request_not_safe:
  "onMarketplace cat start p txn 245 (balances_request (huge_field 0x0A)) s = Some Panic \<and>
   onMarketplace cat start p txn 245 (balances_request (huge_field 0x1A)) s = None"
  by (simp add: onMarketplace_def parse_request huge_facts huge_context_panics huge_other_spins)

definition purchase_request :: "u32 list \<Rightarrow> bytes" where
  "purchase_request skus =
     [80, tagU8, 154] @ w_strv octane @ w_u32 (of_nat (length skus)) @ concat (map w_u32 skus) @
     w_u32 (of_nat (length skus)) @ concat (map w_u32 (replicate (length skus) 1))"

lemma octane_valid: "nul_free octane"
  by (simp add: octane_def lit_def nul_free_def)

lemma parse_purchase_request:
  assumes "skus \<noteq> []" and "length skus \<le> 255"
  shows "parsePurchaseSkus (purchase_request skus) = Some skus"
proof -
  let ?n = "of_nat (length skus) :: u32"
  have n: "unat ?n = length skus" using assms(2) by (simp add: unat_of_nat take_bit_nat_eq_self)
  then have pos: "?n \<noteq> 0" "\<not> ?n > 255" using assms by (auto simp: word_less_nat_alt)
  let ?r = "\<lparr>rbuf = purchase_request skus, roff = 3\<rparr>"
  have "remaining ?r = w_strv octane @ w_u32 ?n @ concat (map w_u32 skus) @ w_u32 ?n @
      concat (map w_u32 (replicate (length skus) 1)) @ []"
    by (simp add: remaining_def purchase_request_def)
  then obtain r1 where 1: "rd_str ?r = (Inr octane, r1)" "remaining r1 = w_u32 ?n @ concat (map w_u32 skus) @
      w_u32 ?n @ concat (map w_u32 (replicate (length skus) 1)) @ []"
    by (rule str.read_next [OF _ octane_valid])
  obtain r2 where 2: "rd_u32 r1 = (Inr ?n, r2)" "remaining r2 = concat (map w_u32 skus) @
      w_u32 ?n @ concat (map w_u32 (replicate (length skus) 1)) @ []"
    by (rule u32.read_next [OF 1(2) TrueI])
  obtain r3 where 3: "rd_n rd_u32 (length skus) r2 = (Inr skus, r3)"
      "remaining r3 = w_u32 ?n @ concat (map w_u32 (replicate (length skus) 1)) @ []"
    by (rule u32.read_next_n [OF 2(2)]) (simp add: list_all_iff)
  obtain r4 where 4: "rd_u32 r3 = (Inr ?n, r4)"
      "remaining r4 = concat (map w_u32 (replicate (length skus) 1)) @ []"
    by (rule u32.read_next [OF 3(2) TrueI])
  obtain r5 where 5: "rd_n rd_u32 (length (replicate (length skus) (1 :: u32))) r4 = (Inr (replicate (length skus) 1), r5)"
    by (rule u32.read_next_n [OF 4(2)]) (simp add: list_all_iff)
  show ?thesis
    using 5 pos by (simp add: parsePurchaseSkus_def 1(1) 2(1) 3(1) 4(1) n list_ex_iff)
qed

text \<open>A purchase request of 1 to 255 items that the account can pay for is answered with success, and
  the push that follows carries the new balance: the old coins less what the items cost.\<close>

theorem purchase_is_answered_and_pushed:
  assumes "skus \<noteq> []" and "length skus \<le> 255" and "purchase cat start p skus s = (Inr debit, s1)"
    and "stored_account s p = Some a" and "in_i64 (coins a)"
  shows "onMarketplace cat start p txn 154 (purchase_request skus) s =
      Some (Return (Some (taskReply txn 154 0 None), BalanceAfter, s1)) \<and>
    run_after cat start p BalanceAfter s1 =
      ([pushPayload 76 (w_structv (balanceUpdatePayload p (coins a - debit)))], s1)"
proof -
  obtain a1 where a1: "buy_skus cat skus (a, 0) = Inr (a1, debit)" "stored_account s1 p = Some a1"
    using disk.transact_stored(1) [OF assms(3) [unfolded purchase_transact] assms(4)]
    by (auto split: sum.splits)
  have "coins a1 = coins a - debit"
    using buy_skus_spends [OF a1(1) assms(5)] assms(5) by simp
  then have "pushCurrentBalance cat start p s1 =
      (Some (pushPayload 76 (w_structv (balanceUpdatePayload p (coins a - debit)))), s1)"
    using disk.load_again [OF a1(2), of cat start]
    by (simp add: pushCurrentBalance_def snapshot_def coins_def wumpaCurrency_def)
  then show ?thesis
    using assms(3) by (simp add: onMarketplace_def onPurchase_def parse_purchase_request [OF assms(1,2)] run_after_def)
qed

lemma ex_buy_task:
  "\<exists>s1. purchase ex_catalog 0 8 [1, 2] ex_store = (Inr 130, s1) \<and>
     onMarketplace ex_catalog 0 8 1 154 (purchase_request [1, 2]) ex_store =
       Some (Return (Some (taskReply 1 154 0 None), BalanceAfter, s1))"
  using ex_buy by (auto simp: onMarketplace_def onPurchase_def parse_purchase_request)

lemma purchase_is_answered_and_pushed_witness:
  "\<exists>s1. onMarketplace ex_catalog 0 8 1 154 (purchase_request [1, 2]) ex_store =
       Some (Return (Some (taskReply 1 154 0 None), BalanceAfter, s1)) \<and>
     run_after ex_catalog 0 8 BalanceAfter s1 =
       ([pushPayload 76 (w_structv (balanceUpdatePayload 8 10))], s1)"
proof -
  obtain s1 where s1: "purchase ex_catalog 0 8 [1, 2] ex_store = (Inr 130, s1)" using ex_buy by blast
  have "in_i64 (coins ex_account)" by (simp add: ex_coins in_i64_def)
  from purchase_is_answered_and_pushed [OF _ _ s1 ex_stored this, of 1] show ?thesis
    by (auto simp: ex_coins)
qed

lemma ex_store_ok: "store_ok ex_store"
  by (auto simp: store_ok_def stored_account_def ex_store_def account_file_def account_ok_def
      ex_account_def new_account_def in_i64_def wumpaCurrency_def split: if_splits)

lemma items_are_never_lost_witness:
  "\<exists>s1 b. onMarketplace ex_catalog 0 8 1 154 (purchase_request [1, 2]) ex_store =
       Some (Return (Some (taskReply 1 154 0 None), BalanceAfter, s1)) \<and>
     stored_account s1 8 = Some b \<and> 9 \<in> ea_items b"
proof -
  obtain s1 where s1: "onMarketplace ex_catalog 0 8 1 154 (purchase_request [1, 2]) ex_store =
       Some (Return (Some (taskReply 1 154 0 None), BalanceAfter, s1))" using ex_buy_task by blast
  then have "(shop_step ex_catalog 0 ex_rates ex_schedule)\<^sup>*\<^sup>* ex_store s1"
    by (blast intro: shop_step.marketplace)
  from items_are_never_lost [OF this _ ex_stored] s1 show ?thesis
    by (auto simp: in_i64_def ex_account_def new_account_def)
qed

lemma accounts_stay_in_order_witness:
  "\<exists>s1 b. onMarketplace ex_catalog 0 8 1 154 (purchase_request [1, 2]) ex_store =
       Some (Return (Some (taskReply 1 154 0 None), BalanceAfter, s1)) \<and>
     stored_account s1 8 = Some b \<and> (case ea_balances b 10 of None \<Rightarrow> True | Some v \<Rightarrow> in_i64 v)"
proof -
  obtain s1 where s1: "onMarketplace ex_catalog 0 8 1 154 (purchase_request [1, 2]) ex_store =
       Some (Return (Some (taskReply 1 154 0 None), BalanceAfter, s1))"
    "purchase ex_catalog 0 8 [1, 2] ex_store = (Inr 130, s1)" using ex_buy_task by blast
  have r: "reach store_ok (shop_step ex_catalog 0 ex_rates ex_schedule) s1"
    by (rule reach.intros(2) [where s = ex_store])
      (auto intro: reach.intros(1) ex_store_ok shop_step.marketplace [OF s1(1)])
  obtain b where b: "stored_account s1 8 = Some b"
    using disk.transact_stored(1) [OF s1(2) [unfolded purchase_transact] ex_stored] by (auto split: sum.splits)
  from accounts_stay_in_order [OF r _ b, of 10] s1 b show ?thesis by (auto simp: in_i64_def)
qed

end
