(* ===== verification/Stats.thy ===== *)
theory Stats
  imports MatchMaking Economy Calendar "HOL-Library.Product_Lexorder"
begin

text \<open>
  Leaderboards of Crash Team Racing (\<open>ctr_stats.go\<close>, service 4). The file holds one row per board
  and player. Go walks the rows of a board in an unspecified order: \<open>walk\<close> is an argument that
  lists the players of a board. \<open>clock i\<close> is the time when the \<open>i\<close>-th row of a request is read.
\<close>

subsection \<open>Rows\<close>

record ctrStat =
  cs_board :: u32
  cs_pid :: u64
  cs_score :: int
  cs_driver :: u32
  cs_name :: string
  cs_updated :: u32
  cs_rank :: u64

type_synonym ctrStatWrite = "ctrStat \<times> byte"
type_synonym statRows = "u32 \<Rightarrow> u64 \<Rightarrow> ctrStat option"

record ctrStatsStore =
  st_file :: "statRows option stored_file"
  st_writes :: "bool list"

datatype statsError =
    TooManyWrites | InvalidWrite | UnsupportedOperation byte | MissingDriver | InvalidRecord u32
  | EmptyWrite | ScoreOverflow | UnreadableStore | NullStore | UnsavedStore
  | IdentityRequired | UnsupportedTask | InvalidArguments

definition timeBoard :: "u32 \<Rightarrow> bool" where
  "timeBoard board \<longleftrightarrow> board > 1000 \<and> board < 1159"

definition ringBoard :: "u32 \<Rightarrow> bool" where
  "ringBoard board \<longleftrightarrow> board \<ge> 89 \<and> board \<le> 133 \<and> board \<noteq> 100"

definition octaneBoard :: "u32 \<Rightarrow> bool" where
  "octaneBoard board \<longleftrightarrow> timeBoard board \<or> ringBoard board"

definition statsEnd :: "bdReader \<Rightarrow> bool" where
  "statsEnd r \<longleftrightarrow>
     roff r = length (rbuf r) \<or> (roff r + 1 = length (rbuf r) \<and> rbuf r ! roff r = 0)"

subsection \<open>Reading writes\<close>

definition rd_write_head :: "bdReader \<Rightarrow> (wire_err + u32 \<times> u64 \<times> byte \<times> int) \<times> bdReader" where
  "rd_write_head = rd_pair rd_u32 (rd_pair rd_u64 (rd_pair rd_u8 statsInt64))"

definition bad_record :: "u32 \<Rightarrow> byte \<Rightarrow> int \<Rightarrow> bool" where
  "bad_record board op score \<longleftrightarrow>
     op \<noteq> 4 \<or> score < 0 \<or> (timeBoard board \<and> (score = 0 \<or> score > 2 ^ 32 - 1))"

text \<open>One row of a request.\<close>

definition rd_write :: "u64 \<Rightarrow> string \<Rightarrow> int \<Rightarrow> bdReader \<Rightarrow> (statsError + ctrStatWrite) \<times> bdReader" where
  "rd_write p name now r =
     (case rd_write_head r of (Inl _, r) \<Rightarrow> (Inl InvalidWrite, r) | (Inr (board, entity, op, score), r) \<Rightarrow>
      if entity \<noteq> p \<or> p = 0 then (Inl InvalidWrite, r)
      else if op \<noteq> 0 \<and> op \<noteq> 1 \<and> op \<noteq> 4 then (Inl (UnsupportedOperation op), r)
      else
        let row = \<lparr>cs_board = board, cs_pid = p, cs_score = score, cs_driver = 0, cs_name = name,
                   cs_updated = word_of_int (unix now), cs_rank = 0\<rparr> in
        if octaneBoard board then
          (case rd_u32 r of
             (Inl _, r) \<Rightarrow> (Inl MissingDriver, r)
           | (Inr driver, r) \<Rightarrow>
               if bad_record board op score then (Inl (InvalidRecord board), r)
               else (Inr (row\<lparr>cs_driver := driver\<rparr>, op), r))
        else (Inr (row, op), r))"

function writes_loop ::
    "u64 \<Rightarrow> string \<Rightarrow> (nat \<Rightarrow> int) \<Rightarrow> ctrStatWrite list \<Rightarrow> bdReader \<Rightarrow> statsError + ctrStatWrite list" where
  "writes_loop p name clock out r =
     (if statsEnd r then Inr out
      else if length out \<ge> 128 then Inl TooManyWrites
      else
        (case rd_write p name (clock (length out)) r of
           (Inl e, r) \<Rightarrow> Inl e
         | (Inr w, r) \<Rightarrow> writes_loop p name clock (out @ [w]) r))"
  by pat_completeness auto
termination by (relation "measure (\<lambda>(p, name, clock, out, r). 128 - length out)") auto

declare writes_loop.simps [simp del]

definition parseStatWrites ::
    "u64 \<Rightarrow> string \<Rightarrow> (nat \<Rightarrow> int) \<Rightarrow> bdReader \<Rightarrow> statsError + ctrStatWrite list" where
  "parseStatWrites p name clock r =
     (case writes_loop p name clock [] r of
        Inl e \<Rightarrow> Inl e | Inr out \<Rightarrow> if out = [] then Inl EmptyWrite else Inr out)"

subsection \<open>The store\<close>

definition load_stats :: "ctrStatsStore \<Rightarrow> statsError + statRows" where
  "load_stats s =
     (case st_file s of
        Missing \<Rightarrow> Inr (\<lambda>_ _. None)
      | Unreadable \<Rightarrow> Inl UnreadableStore
      | Content None \<Rightarrow> Inl NullStore
      | Content (Some rows) \<Rightarrow> Inr rows)"

definition old_score :: "statRows \<Rightarrow> u32 \<Rightarrow> u64 \<Rightarrow> int" where
  "old_score rows b p = (case rows b p of None \<Rightarrow> 0 | Some r \<Rightarrow> cs_score r)"

definition set_row :: "statRows \<Rightarrow> ctrStat \<Rightarrow> statRows" where
  "set_row rows r = rows(cs_board r := (rows (cs_board r))(cs_pid r \<mapsto> r))"

definition apply_write :: "statRows \<Rightarrow> ctrStatWrite \<Rightarrow> statsError + statRows" where
  "apply_write rows w =
     (case w of (row, op) \<Rightarrow>
        let old = old_score rows (cs_board row) (cs_pid row); score = cs_score row in
        if op = 1 then
          (if (score > 0 \<and> old > (2 ^ 63 - 1) - score) \<or> (score < 0 \<and> old < - (2 ^ 63) - score)
           then Inl ScoreOverflow
           else Inr (set_row rows (row\<lparr>cs_score := score + old\<rparr>)))
        else if op = 4 \<and> rows (cs_board row) (cs_pid row) \<noteq> None \<and> old \<ge> score then Inr rows
        else Inr (set_row rows row))"

fun apply_writes :: "statRows \<Rightarrow> ctrStatWrite list \<Rightarrow> statsError + statRows" where
  "apply_writes rows [] = Inr rows"
| "apply_writes rows (w # ws) =
     (case apply_write rows w of Inl e \<Rightarrow> Inl e | Inr rows \<Rightarrow> apply_writes rows ws)"

text \<open>The file is replaced by renaming a complete one, or it stays as it is.\<close>

definition write_stats :: "ctrStatWrite list \<Rightarrow> ctrStatsStore \<Rightarrow> (statsError + unit) \<times> ctrStatsStore" where
  "write_stats ws s =
     (case load_stats s of
        Inl e \<Rightarrow> (Inl e, s)
      | Inr rows \<Rightarrow>
          (case apply_writes rows ws of
             Inl e \<Rightarrow> (Inl e, s)
           | Inr rows \<Rightarrow>
               (case st_writes s of
                  False # l \<Rightarrow> (Inl UnsavedStore, s\<lparr>st_writes := l\<rparr>)
                | l \<Rightarrow> (Inr (), s\<lparr>st_writes := tl l, st_file := Content (Some rows)\<rparr>))))"

text \<open>Highest score first, equal scores by player.\<close>

definition rank_order :: "ctrStat \<Rightarrow> int \<times> u64" where
  "rank_order r = (- cs_score r, cs_pid r)"

fun number_rows :: "nat \<Rightarrow> ctrStat list \<Rightarrow> ctrStat list" where
  "number_rows n [] = []"
| "number_rows n (r # rs) = r\<lparr>cs_rank := of_nat (n + 1)\<rparr> # number_rows (n + 1) rs"

definition ranked :: "ctrStat list \<Rightarrow> ctrStat list" where
  "ranked rows = number_rows 0 (sort_key rank_order rows)"

definition read_stats :: "(u32 \<Rightarrow> u64 list) \<Rightarrow> u32 \<Rightarrow> ctrStatsStore \<Rightarrow> statsError + ctrStat list" where
  "read_stats walk board s =
     (case load_stats s of
        Inl e \<Rightarrow> Inl e
      | Inr rows \<Rightarrow> Inr (ranked (List.map_filter (rows board) (walk board))))"

subsection \<open>Replies\<close>

definition stat_bytes :: "ctrStat \<Rightarrow> bytes" where
  "stat_bytes r =
     w_u64 (cs_pid r) @ w_i64 (cs_score r) @ w_u64 (cs_rank r) @ w_strv (lit (take 63 (cs_name r))) @
     w_u32 (cs_updated r) @ (if octaneBoard (cs_board r) then w_u32 (cs_driver r) else [])"

definition statsReply :: "u64 \<Rightarrow> byte \<Rightarrow> ctrStat list \<Rightarrow> u32 \<Rightarrow> bytes" where
  "statsReply txn task rows tot =
     w_u64 txn @ w_u32 0 @ w_u8 task @ w_u32 (of_nat (length rows)) @
     (if rows = [] then [] else w_u32 tot @ concat (map stat_bytes rows))"

datatype statsQuery = ByRank u64 u32 | ByPlayer "u64 set"

definition read_query :: "byte \<Rightarrow> bdReader \<Rightarrow> (statsError + statsQuery) \<times> bdReader" where
  "read_query task r =
     (if task = 4 then
        (case rd_u64 r of (Inl _, r) \<Rightarrow> (Inl InvalidArguments, r) | (Inr start, r) \<Rightarrow>
        (case rd_u32 r of (Inl _, r) \<Rightarrow> (Inl InvalidArguments, r) | (Inr limit, r) \<Rightarrow>
         if limit > 1000 then (Inl InvalidArguments, r)
         else (Inr (ByRank (if start = 0 then 1 else start) limit), r)))
      else
        (case rd_u32 r of (Inl _, r) \<Rightarrow> (Inl InvalidArguments, r) | (Inr n, r) \<Rightarrow>
         if n > 1000 then (Inl InvalidArguments, r)
         else
           (case rd_n rd_u64 (unat n) r of
              (Inl _, r) \<Rightarrow> (Inl InvalidArguments, r) | (Inr ids, r) \<Rightarrow> (Inr (ByPlayer (set ids)), r))))"

definition select_rows :: "statsQuery \<Rightarrow> ctrStat list \<Rightarrow> ctrStat list \<times> u32" where
  "select_rows q every =
     (case q of
        ByRank start limit \<Rightarrow>
          (take (unat limit) (filter (\<lambda>r. cs_rank r \<ge> start) every), of_nat (length every))
      | ByPlayer ids \<Rightarrow>
          (let rows = filter (\<lambda>r. cs_pid r \<in> ids) every in (rows, of_nat (length rows))))"

text \<open>What the task fails with, or its reply.\<close>

definition stats_task ::
    "(u64 \<Rightarrow> playerID option) \<Rightarrow> (u32 \<Rightarrow> u64 list) \<Rightarrow> (nat \<Rightarrow> int) \<Rightarrow> lobbyUser \<Rightarrow> u64 \<Rightarrow> byte \<Rightarrow>
     bdReader \<Rightarrow> ctrStatsStore \<Rightarrow> (statsError + bytes) \<times> ctrStatsStore" where
  "stats_task online walk clock l txn task r s =
     (case online (lu_n l) of
        None \<Rightarrow> (Inl IdentityRequired, s)
      | Some player \<Rightarrow>
          if pl_title player \<noteq> 5775 \<or> pid l = 0 then (Inl IdentityRequired, s)
          else if task = 1 then
            (case parseStatWrites (pid l) (pl_username player) clock r of
               Inl e \<Rightarrow> (Inl e, s)
             | Inr ws \<Rightarrow>
                 (case write_stats ws s of
                    (Inl e, s) \<Rightarrow> (Inl e, s)
                  | (Inr _, s) \<Rightarrow> (Inr (taskReply txn task 0 None), s)))
          else if task \<noteq> 4 \<and> task \<noteq> 13 then (Inl UnsupportedTask, s)
          else
            (case rd_u32 r of (Inl _, _) \<Rightarrow> (Inl InvalidArguments, s) | (Inr board, r) \<Rightarrow>
            (case read_query task r of (Inl e, _) \<Rightarrow> (Inl e, s) | (Inr q, r) \<Rightarrow>
            (case rd_u32 r of (Inl _, _) \<Rightarrow> (Inl InvalidArguments, s) | (Inr cols, r) \<Rightarrow>
             if cols \<noteq> 0 \<or> \<not> statsEnd r then (Inl InvalidArguments, s)
             else
               (case read_stats walk board s of
                  Inl e \<Rightarrow> (Inl e, s)
                | Inr every \<Rightarrow>
                    (case select_rows q every of
                       (rows, tot) \<Rightarrow> (Inr (statsReply txn task rows tot), s)))))))"

definition onCTRStats ::
    "(u64 \<Rightarrow> playerID option) \<Rightarrow> (u32 \<Rightarrow> u64 list) \<Rightarrow> (nat \<Rightarrow> int) \<Rightarrow> lobbyUser \<Rightarrow> u64 \<Rightarrow> byte \<Rightarrow>
     bdReader \<Rightarrow> ctrStatsStore \<Rightarrow> bytes \<times> ctrStatsStore" where
  "onCTRStats online walk clock l txn task r s =
     (case stats_task online walk clock l txn task r s of
        (Inl _, s) \<Rightarrow> (taskReply txn task errUnhandled None, s)
      | (Inr reply, s) \<Rightarrow> (reply, s))"

end
