(* ===== verification/StatsProps.thy ===== *)
theory StatsProps
  imports Stats "HOL-Library.Multiset"
begin

text \<open>Players write only their own rows, the best time is kept, and ranks follow the scores.\<close>

subsection \<open>Rows in order\<close>

text \<open>
  A row is stored under its board and its player, its score is a 64-bit integer, and a time is
  positive and fits 32 bits.
\<close>

definition row_ok :: "ctrStat \<Rightarrow> bool" where
  "row_ok r \<longleftrightarrow> in_i64 (cs_score r) \<and> (timeBoard (cs_board r) \<longrightarrow> 0 < cs_score r \<and> cs_score r < 2 ^ 32)"

definition rows_ok :: "statRows \<Rightarrow> bool" where
  "rows_ok rows \<longleftrightarrow> (\<forall>b p r. rows b p = Some r \<longrightarrow> cs_board r = b \<and> cs_pid r = p \<and> row_ok r)"

definition write_ok :: "u64 \<Rightarrow> ctrStatWrite \<Rightarrow> bool" where
  "write_ok p w \<longleftrightarrow> cs_pid (fst w) = p \<and> row_ok (fst w) \<and> (octaneBoard (cs_board (fst w)) \<longrightarrow> snd w = 4)"

lemma sint_in_i64: "in_i64 (sint (w :: u64))"
  using sint_greater_eq [of w] sint_less [of w] by (simp add: in_i64_def)

lemma statsInt64_range: "statsInt64 r = (Inr v, r') \<Longrightarrow> in_i64 v"
  by (auto simp: statsInt64_def rd_map_def sint_in_i64 split: prod.splits sum.splits)

lemma rd_write_ok: "rd_write p name now r = (Inr w, r') \<Longrightarrow> write_ok p w"
  by (auto simp: rd_write_def rd_write_head_def rd_pair_def write_ok_def row_ok_def bad_record_def
      octaneBoard_def Let_def dest: statsInt64_range split: prod.splits sum.splits if_splits)

lemma writes_loop_ok:
  "writes_loop p name clock out r = Inr ws \<Longrightarrow> list_all (write_ok p) out \<Longrightarrow> list_all (write_ok p) ws"
proof (induction p name clock out r rule: writes_loop.induct)
  case (1 p name clock out r)
  show ?case
  proof (cases "statsEnd r")
    case True
    then show ?thesis using 1(2,3) by (simp add: writes_loop.simps)
  next
    case False
    then obtain w r1 where w: "rd_write p name (clock (length out)) r = (Inr w, r1)"
      "writes_loop p name clock (out @ [w]) r1 = Inr ws" "\<not> 128 \<le> length out"
      using 1(2) by (subst (asm) writes_loop.simps) (auto split: if_splits prod.splits sum.splits)
    show ?thesis
      using 1(1) [OF False w(3) w(1) [symmetric] refl w(2)] 1(3) rd_write_ok [OF w(1)] by simp
  qed
qed

lemma parseStatWrites_ok: "parseStatWrites p name clock r = Inr ws \<Longrightarrow> list_all (write_ok p) ws"
  by (auto simp: parseStatWrites_def dest: writes_loop_ok split: sum.splits if_splits)

lemma set_row_ok: "rows_ok rows \<Longrightarrow> row_ok r \<Longrightarrow> rows_ok (set_row rows r)"
  by (auto simp: rows_ok_def set_row_def split: if_splits)

lemma set_row_other: "q \<noteq> cs_pid r \<Longrightarrow> set_row rows r b q = rows b q"
  by (simp add: set_row_def)

lemma apply_write_cases:
  assumes "apply_write rows (row, op) = Inr rows'"
  obtains (same) "rows' = rows"
  | (sum) "op = 1" "in_i64 (cs_score row) \<Longrightarrow> in_i64 (old_score rows (cs_board row) (cs_pid row)) \<Longrightarrow>
        in_i64 (cs_score row + old_score rows (cs_board row) (cs_pid row))"
      "rows' = set_row rows (row\<lparr>cs_score := cs_score row + old_score rows (cs_board row) (cs_pid row)\<rparr>)"
  | (new) "op \<noteq> 1" "rows' = set_row rows row"
proof (cases "op = 1")
  case True
  then show ?thesis
    using assms by (intro sum) (auto simp: apply_write_def Let_def in_i64_def split: if_splits)
next
  case False
  then show ?thesis
    using assms same new by (auto simp: apply_write_def Let_def split: if_splits)
qed

lemma apply_write_ok:
  assumes "apply_write rows w = Inr rows'" and "write_ok p w" and "rows_ok rows"
  shows "rows_ok rows' \<and> (\<forall>b q. q \<noteq> p \<longrightarrow> rows' b q = rows b q)"
proof -
  obtain row op where w: "w = (row, op)" by fastforce
  have old: "in_i64 (old_score rows b q)" for b q
    using assms(3) by (auto simp: old_score_def rows_ok_def row_ok_def in_i64_def split: option.splits)
  from assms(1) [unfolded w] show ?thesis
  proof (cases rule: apply_write_cases)
    case sum
    let ?row = "row\<lparr>cs_score := cs_score row + old_score rows (cs_board row) (cs_pid row)\<rparr>"
    have "\<not> timeBoard (cs_board row)" using assms(2) sum(1) w by (auto simp: write_ok_def octaneBoard_def)
    then have "row_ok ?row" using sum(2) old assms(2) w by (simp add: row_ok_def write_ok_def)
    then show ?thesis
      using set_row_ok [OF assms(3)] assms(2) w sum(3) by (auto simp: write_ok_def set_row_other)
  next
    case new
    then show ?thesis
      using set_row_ok [OF assms(3)] assms(2) w by (auto simp: write_ok_def set_row_other)
  qed (use assms(3) in simp)
qed

lemma apply_writes_ok:
  "apply_writes rows ws = Inr rows' \<Longrightarrow> list_all (write_ok p) ws \<Longrightarrow> rows_ok rows \<Longrightarrow>
   rows_ok rows' \<and> (\<forall>b q. q \<noteq> p \<longrightarrow> rows' b q = rows b q)"
proof (induction ws arbitrary: rows)
  case (Cons w ws)
  then obtain r1 where r1: "apply_write rows w = Inr r1" "apply_writes r1 ws = Inr rows'"
    by (auto split: sum.splits)
  from apply_write_ok [OF r1(1)] Cons.prems(2,3) Cons.IH [OF r1(2)] show ?case by auto
qed simp

lemma write_stats_load:
  assumes "write_stats ws s = (r, s')"
  shows "r = Inr u \<Longrightarrow> \<exists>rows rows'. load_stats s = Inr rows \<and> apply_writes rows ws = Inr rows' \<and> load_stats s' = Inr rows'"
    and "r = Inl e \<Longrightarrow> load_stats s' = load_stats s"
  using assms
  by (auto simp: write_stats_def load_stats_def [of s'] split: sum.splits list.splits bool.splits)
     (auto simp: load_stats_def)

text \<open>C28: Whatever a client sends to the leaderboard service, only rows of its own player change, and rows
  stay in order: every row is stored under its board and player, scores are 64-bit integers
  (sums never wrap around), and times are positive and fit 32 bits.\<close>

theorem stats_change_only_own_rows:
  assumes "onCTRStats online walk clock l txn task r s = (reply, s')"
    and "load_stats s = Inr rows" and "rows_ok rows"
  shows "\<exists>rows'. load_stats s' = Inr rows' \<and> rows_ok rows' \<and>
    (\<forall>b q. q = pid l \<or> rows' b q = rows b q)"
proof -
  obtain res where t: "stats_task online walk clock l txn task r s = (res, s')"
    using assms(1) by (auto simp: onCTRStats_def split: prod.splits sum.splits)
  have "s' = s \<or> (\<exists>ws res. list_all (write_ok (pid l)) ws \<and> write_stats ws s = (res, s'))"
    using t by (auto simp: stats_task_def dest: parseStatWrites_ok
      split: option.splits prod.splits sum.splits if_splits)
  then show ?thesis
  proof
    assume "\<exists>ws res. list_all (write_ok (pid l)) ws \<and> write_stats ws s = (res, s')"
    then obtain ws res where w: "list_all (write_ok (pid l)) ws" "write_stats ws s = (res, s')" by blast
    show ?thesis
    proof (cases res)
      case (Inl e)
      then show ?thesis using write_stats_load(2) [OF w(2)] assms(2,3) by auto
    next
      case (Inr u)
      then obtain rows' where r': "apply_writes rows ws = Inr rows'" "load_stats s' = Inr rows'"
        using write_stats_load(1) [OF w(2)] assms(2) by auto
      then show ?thesis using apply_writes_ok [OF r'(1) w(1) assms(3)] by blast
    qed
  qed (use assms in auto)
qed

subsection \<open>Best records\<close>

definition candidates :: "statRows \<Rightarrow> ctrStatWrite list \<Rightarrow> u32 \<Rightarrow> u64 \<Rightarrow> ctrStat set" where
  "candidates rows ws b p = set_option (rows b p) \<union> {r. (r, 4) \<in> set ws \<and> cs_board r = b \<and> cs_pid r = p}"

definition best_of :: "ctrStat set \<Rightarrow> ctrStat option \<Rightarrow> bool" where
  "best_of C x \<longleftrightarrow>
     (case x of None \<Rightarrow> C = {} | Some r \<Rightarrow> r \<in> C \<and> (\<forall>c \<in> C. cs_score c \<le> cs_score r))"

lemma apply_writes_best:
  "apply_writes rows ws = Inr rows' \<Longrightarrow> list_all (\<lambda>w. snd w = 4) ws \<Longrightarrow> best_of (candidates rows ws b p) (rows' b p)"
proof (induction ws arbitrary: rows)
  case Nil
  then show ?case by (auto simp: best_of_def candidates_def split: option.splits)
next
  case (Cons w ws)
  then obtain r1 where r1: "apply_write rows w = Inr r1" "apply_writes r1 ws = Inr rows'"
    by (auto split: sum.splits)
  obtain r where w: "w = (r, 4)" using Cons.prems(2) by (cases w) auto
  have IH: "best_of (candidates r1 ws b p) (rows' b p)" using Cons.IH [OF r1(2)] Cons.prems(2) by simp
  show ?case
  proof (cases "cs_board r = b \<and> cs_pid r = p")
    case False
    then have "candidates rows (w # ws) b p = candidates r1 ws b p"
      using r1(1) w by (auto simp: candidates_def apply_write_def Let_def set_row_def split: if_splits)
    then show ?thesis using IH by simp
  next
    case True
    show ?thesis
    proof (cases "rows b p \<noteq> None \<and> old_score rows b p \<ge> cs_score r")
      case keep: True
      then have "candidates rows (w # ws) b p = insert r (candidates r1 ws b p)"
        using r1(1) w True by (auto simp: candidates_def apply_write_def Let_def)
      moreover have "\<exists>c \<in> candidates r1 ws b p. cs_score r \<le> cs_score c"
        using keep r1(1) w True by (auto simp: candidates_def apply_write_def Let_def old_score_def)
      ultimately show ?thesis using IH
        by (auto simp: best_of_def split: option.splits intro: order_trans)
    next
      case new: False
      then have "r1 = set_row rows r" using r1(1) w True by (auto simp: apply_write_def Let_def)
      then have "candidates r1 ws b p = insert r (candidates (\<lambda>_ _. None) ws b p)"
        and "candidates rows (w # ws) b p = set_option (rows b p) \<union> insert r (candidates (\<lambda>_ _. None) ws b p)"
        using w True by (auto simp: candidates_def set_row_def)
      moreover have "\<forall>c \<in> set_option (rows b p). cs_score c \<le> cs_score r"
        using new by (auto simp: old_score_def)
      ultimately show ?thesis using IH
        by (auto simp: best_of_def split: option.splits intro: order_trans)
    qed
  qed
qed

text \<open>C29: A report of records (operation 4) that succeeds leaves for each board and player the best of the
  row that was there and the rows reported, in whatever order they came.\<close>

theorem best_record_is_kept:
  assumes "write_stats ws s = (Inr u, s')" and "load_stats s = Inr rows"
    and "list_all (\<lambda>w. snd w = 4) ws"
  shows "\<exists>rows'. load_stats s' = Inr rows' \<and> best_of (candidates rows ws b p) (rows' b p)"
proof -
  obtain rows' where "apply_writes rows ws = Inr rows'" "load_stats s' = Inr rows'"
    using write_stats_load(1) [OF assms(1) refl] assms(2) by auto
  then show ?thesis using apply_writes_best assms(3) by blast
qed

subsection \<open>Ranks\<close>

lemma number_rows_nth:
  "i < length rs \<Longrightarrow> number_rows n rs ! i = (rs ! i)\<lparr>cs_rank := of_nat (n + i + 1)\<rparr>"
  by (induction rs arbitrary: n i) (auto simp: nth_Cons split: nat.split)

lemma length_number_rows [simp]: "length (number_rows n rs) = length rs"
  by (induction rs arbitrary: n) auto

lemma length_ranked [simp]: "length (ranked rows) = length rows"
  by (simp add: ranked_def)

lemma ranked_nth:
  "i < length rows \<Longrightarrow> ranked rows ! i = (sort_key rank_order rows ! i)\<lparr>cs_rank := of_nat (i + 1)\<rparr>"
  by (simp add: ranked_def number_rows_nth)

lemma filter_from_rank:
  "start \<noteq> 0 \<Longrightarrow> n + length rs < 2 ^ 64 \<Longrightarrow>
   filter (\<lambda>r. cs_rank r \<ge> start) (number_rows n rs) = drop (unat start - 1 - n) (number_rows n rs)"
proof (induction rs arbitrary: n)
  case (Cons r rs)
  have u: "unat (of_nat (n + 1) :: u64) = n + 1"
    using Cons.prems by (simp add: unat_of_nat take_bit_nat_eq_self del: of_nat_add of_nat_Suc)
  have c: "start \<le> of_nat (n + 1) \<longleftrightarrow> unat start - 1 - n = 0"
    unfolding word_le_nat_alt u by auto
  have rest: "filter (\<lambda>r. cs_rank r \<ge> start) (number_rows (n + 1) rs) =
      drop (unat start - 1 - (n + 1)) (number_rows (n + 1) rs)"
    using Cons by simp
  show ?case
  proof (cases "start \<le> of_nat (n + 1)")
    case True
    then have "unat start - 1 - n = 0" "unat start - 1 - (n + 1) = 0" using c by simp_all
    then show ?thesis using rest True by simp
  next
    case False
    then have "unat start - 1 - n = Suc (unat start - 1 - (n + 1))" using c by simp
    then show ?thesis using rest False by simp
  qed
qed simp

lemma sort_key_perm:
  assumes "mset xs = mset ys" and "inj_on f (set ys)"
  shows "sort_key f xs = sort_key f (ys :: 'a list)"
proof (rule properties_for_sort_key)
  show "mset (sort_key f ys) = mset xs" using assms(1) by simp
  have only: "filter (\<lambda>x. f k = f x) zs = replicate (count (mset zs) k) k"
    if "k \<in> set ys" "set zs = set ys" for k zs
  proof -
    have "filter (\<lambda>x. f k = f x) zs = filter ((=) k) zs"
      using that assms(2) by (intro filter_cong) (auto dest: inj_onD)
    also have "\<dots> = replicate (count (mset zs) k) k"
      using replicate_count_mset_eq_filter_eq [of zs k] by simp
    finally show ?thesis .
  qed
  show "filter (\<lambda>x. f k = f x) (sort_key f ys) = filter (\<lambda>x. f k = f x) xs" if "k \<in> set (sort_key f ys)" for k
    using that only [of k "sort_key f ys"] only [of k xs] assms(1) mset_eq_setD [OF assms(1)] by simp
qed simp

lemma ranked_pages:
  "start \<noteq> 0 \<Longrightarrow> length rows < 2 ^ 64 \<Longrightarrow>
   fst (select_rows (ByRank start limit) (ranked rows)) = take (unat limit) (drop (unat start - 1) (ranked rows))"
  using filter_from_rank [of start 0 "sort_key rank_order rows"] by (simp add: select_rows_def ranked_def)

text \<open>The rows of a board, in the order in which the map was walked.\<close>

abbreviation board_rows :: "(u64 \<Rightarrow> ctrStat option) \<Rightarrow> u64 list \<Rightarrow> ctrStat list" where
  "board_rows board ps \<equiv> List.map_filter board ps"

lemma board_rows_pids:
  "(\<And>p r. board p = Some r \<Longrightarrow> cs_pid r = p) \<Longrightarrow> set ps \<subseteq> dom board \<Longrightarrow> map cs_pid (board_rows board ps) = ps"
  by (induction ps) (auto simp: map_filter_simps)

lemma rank_order_inj:
  assumes "distinct (map cs_pid rs)" shows "inj_on rank_order (set rs)"
  using assms by (auto simp: inj_on_def rank_order_def distinct_map)

lemma board_rows_perm:
  "distinct ps \<Longrightarrow> distinct qs \<Longrightarrow> set ps = set qs \<Longrightarrow> mset (board_rows board ps) = mset (board_rows board qs)"
  using set_eq_iff_mset_eq_distinct [of ps qs]
  by (simp add: List.map_filter_def)

text \<open>C30: A board is read with the highest score first, ranked from 1, each player's row once, and in the
  same order however Go walks its map; a query by rank returns exactly the rows from the rank asked
  for, up to the limit.\<close>

theorem leaderboard_follows_scores:
  assumes "load_stats s = Inr rows" and "rows_ok rows" and "length (walk b) < 2 ^ 64"
    and "distinct (walk b)" and "set (walk b) = dom (rows b)"
    and "distinct (walk' b)" and "set (walk' b) = dom (rows b)"
  shows "\<exists>every. read_stats walk b s = Inr every \<and> read_stats walk' b s = Inr every \<and>
    mset (map cs_pid every) = mset (walk b) \<and>
    list_all (\<lambda>r. \<exists>old. rows b (cs_pid r) = Some old \<and> r = old\<lparr>cs_rank := cs_rank r\<rparr>) every \<and>
    sorted (map (\<lambda>r. - cs_score r) every) \<and>
    map cs_rank every = map (\<lambda>i. of_nat (i + 1)) [0..<length every] \<and>
    (start = 0 \<or> fst (select_rows (ByRank start limit) every) = take (unat limit) (drop (unat start - 1) every))"
proof -
  let ?rs = "board_rows (rows b) (walk b)"
  let ?sorted = "sort_key rank_order ?rs"
  have keyed: "rows b p = Some r \<Longrightarrow> cs_pid r = p" for p r using assms(2) by (auto simp: rows_ok_def)
  have p: "map cs_pid ?rs = walk b" "map cs_pid (board_rows (rows b) (walk' b)) = walk' b"
    using board_rows_pids [of "rows b"] keyed assms(5,7) by blast+
  have "sort_key rank_order (board_rows (rows b) (walk' b)) = ?sorted"
    using p assms(4-7) by (intro sort_key_perm board_rows_perm rank_order_inj) auto
  then have same: "read_stats walk b s = Inr (ranked ?rs)" "read_stats walk' b s = Inr (ranked ?rs)"
    using assms(1) by (simp_all add: read_stats_def ranked_def)
  have len: "length ?rs = length (walk b)" using arg_cong [OF p(1), of length] by simp
  have strip: "map f (ranked ?rs) = map f ?sorted" if "\<And>r n. f (r\<lparr>cs_rank := n\<rparr>) = f r" for f :: "ctrStat \<Rightarrow> 'x"
    using that by (intro nth_equalityI) (auto simp: ranked_nth)
  have "mset (map cs_pid (ranked ?rs)) = mset (walk b)"
    using arg_cong [OF p(1), of mset] by (simp add: strip)
  moreover have "sorted (map rank_order ?sorted)" by simp
  then have "sorted (map (\<lambda>r. - cs_score r) (ranked ?rs))"
    unfolding strip [of "\<lambda>r. - cs_score r", simplified]
    by (auto simp: sorted_iff_nth_mono rank_order_def less_eq_prod_def dest: order_less_imp_le)
  moreover have "map cs_rank (ranked ?rs) = map (\<lambda>i. of_nat (i + 1)) [0..<length (ranked ?rs)]"
    by (intro nth_equalityI) (auto simp: ranked_nth)
  moreover have "list_all (\<lambda>r. \<exists>old. rows b (cs_pid r) = Some old \<and> r = old\<lparr>cs_rank := cs_rank r\<rparr>) (ranked ?rs)"
  proof -
    have "\<exists>old. rows b (cs_pid r) = Some old \<and> r = old\<lparr>cs_rank := cs_rank r\<rparr>" if r: "r \<in> set (ranked ?rs)" for r
    proof -
      obtain i where i: "i < length ?rs" "r = (?sorted ! i)\<lparr>cs_rank := of_nat (i + 1)\<rparr>"
        using r by (auto simp: in_set_conv_nth ranked_nth)
      have "?sorted ! i \<in> set ?rs" using i(1) nth_mem [of i ?sorted] by simp
      then obtain p where p: "rows b p = Some (?sorted ! i)" by (auto simp: List.map_filter_def)
      then show ?thesis using keyed [OF p] i(2) by simp
    qed
    then show ?thesis by (simp add: list_all_iff)
  qed
  moreover have "start = 0 \<or> fst (select_rows (ByRank start limit) (ranked ?rs)) =
      take (unat limit) (drop (unat start - 1) (ranked ?rs))"
    using ranked_pages [of start ?rs] len assms(3) by auto
  ultimately show ?thesis using same by blast
qed

subsection \<open>An example\<close>

text \<open>What a client sends for one row of a board with drivers.\<close>

definition row_bytes :: "ctrStat \<Rightarrow> bytes" where
  "row_bytes r = w_u32 (cs_board r) @ w_u64 (cs_pid r) @ w_u8 4 @ w_i64 (cs_score r) @ w_u32 (cs_driver r)"

lemma rd_write_head_hit:
  assumes "remaining r = w_u32 b @ w_u64 e @ w_u8 op @ w_i64 sc @ rest" and "in_i64 sc"
  shows "rd_write_head r = (Inr (b, e, op, sc), advance 25 r)"
  using codec.get_put [OF codec_pair [OF u32.codec_axioms codec_pair [OF u64.codec_axioms
        codec_pair [OF u8.codec_axioms i64.codec_axioms]]], of "(b, e, op, sc)" r rest] assms
  by (simp add: rd_write_head_def w_u32_def w_u64_def w_u8_def w_i64_def)

definition ex_row :: ctrStat where
  "ex_row = \<lparr>cs_board = 1001, cs_pid = 7, cs_score = 5000, cs_driver = 3, cs_name = ''ana'',
     cs_updated = 9, cs_rank = 0\<rparr>"

definition ex_request :: bdReader where
  "ex_request = \<lparr>rbuf = row_bytes ex_row, roff = 0\<rparr>"

lemma ex_stat_writes: "parseStatWrites 7 ''ana'' (\<lambda>_. 9000000000) ex_request = Inr [(ex_row, 4)]"
proof -
  let ?r1 = "advance 25 ex_request"
  have rem: "remaining ex_request = w_u32 1001 @ w_u64 7 @ w_u8 4 @ w_i64 5000 @ w_u32 3"
    by (simp add: ex_request_def row_bytes_def ex_row_def remaining_def)
  have hd: "rd_write_head ex_request = (Inr (1001, 7, 4, 5000), ?r1)"
    using rd_write_head_hit [OF rem] by (simp add: in_i64_def)
  have "remaining ?r1 = w_u32 3"
    using remaining_advance [of ex_request "w_u32 1001 @ w_u64 7 @ w_u8 4 @ w_i64 5000" "w_u32 3"] rem
    by (simp add: w_u32_def w_u64_def w_u8_def w_i64_def)
  then have dr: "rd_u32 ?r1 = (Inr 3, advance 5 ?r1)"
    using u32.get_put [OF TrueI, of ?r1 3 "[]"] by (simp add: w_u32_def)
  have end1: "\<not> statsEnd ex_request" "statsEnd (advance 5 ?r1)"
    by (simp_all add: statsEnd_def ex_request_def row_bytes_def advance_def w_u32_def w_u64_def w_u8_def w_i64_def)
  have "rd_write 7 ''ana'' 9000000000 ex_request = (Inr (ex_row, 4), advance 5 ?r1)"
    by (simp add: rd_write_def hd dr octaneBoard_def timeBoard_def bad_record_def unix_def ex_row_def)
  then show ?thesis
    using end1 by (simp add: parseStatWrites_def writes_loop.simps [of _ _ _ "[]"] writes_loop.simps [of _ _ _ "[_]"])
qed

definition ex_user :: lobbyUser where
  "ex_user = \<lparr>lu_n = 1, lu_player = Some \<lparr>pl_username = ''ana'', pl_pid = 7, pl_sub = [], pl_kind = [], pl_title = 5775\<rparr>\<rparr>"

definition ex_online :: "u64 \<Rightarrow> playerID option" where
  "ex_online = [1 \<mapsto> \<lparr>pl_username = ''ana'', pl_pid = 7, pl_sub = [], pl_kind = [], pl_title = 5775\<rparr>]"

definition ex_rows :: statRows where
  "ex_rows = (\<lambda>b. if b = 1001 then [7 \<mapsto> ex_row\<lparr>cs_score := 4000\<rparr>, 8 \<mapsto> ex_row\<lparr>cs_pid := 8, cs_score := 4500\<rparr>] else Map.empty)"

definition ex_stats :: ctrStatsStore where
  "ex_stats = \<lparr>st_file = Content (Some ex_rows), st_writes = []\<rparr>"

lemma ex_load: "load_stats ex_stats = Inr ex_rows"
  by (simp add: load_stats_def ex_stats_def)

lemma ex_rows_ok: "rows_ok ex_rows"
  by (auto simp: rows_ok_def ex_rows_def row_ok_def in_i64_def ex_row_def split: if_splits)

lemma ex_write: "\<exists>s1. write_stats [(ex_row, 4)] ex_stats = (Inr (), s1)"
proof -
  have "apply_writes ex_rows [(ex_row, 4)] = Inr (set_row ex_rows ex_row)"
    by (simp add: apply_write_def Let_def) (simp add: old_score_def ex_rows_def ex_row_def)
  then show ?thesis
    by (simp add: write_stats_def ex_load del: apply_writes.simps) (simp add: ex_stats_def)
qed

lemma ex_stats_task:
  "\<exists>s1. onCTRStats ex_online (\<lambda>_. []) (\<lambda>_. 9000000000) ex_user 5 1 ex_request ex_stats = (taskReply 5 1 0 None, s1) \<and>
     write_stats [(ex_row, 4)] ex_stats = (Inr (), s1)"
proof -
  obtain s1 where "write_stats [(ex_row, 4)] ex_stats = (Inr (), s1)" using ex_write by blast
  then show ?thesis
    by (simp add: onCTRStats_def stats_task_def ex_online_def ex_user_def pid_def ex_stat_writes)
qed

lemma stats_change_only_own_rows_witness:
  "\<exists>s1 rows. onCTRStats ex_online (\<lambda>_. []) (\<lambda>_. 9000000000) ex_user 5 1 ex_request ex_stats = (taskReply 5 1 0 None, s1) \<and>
     load_stats s1 = Inr rows \<and> rows_ok rows \<and> rows 1001 8 = ex_rows 1001 8"
proof -
  obtain s1 where s1: "onCTRStats ex_online (\<lambda>_. []) (\<lambda>_. 9000000000) ex_user 5 1 ex_request ex_stats = (taskReply 5 1 0 None, s1)"
    using ex_stats_task by blast
  have "pid ex_user = 7" by (simp add: pid_def ex_user_def)
  then have other: "8 \<noteq> pid ex_user" by simp
  from stats_change_only_own_rows [OF s1 ex_load ex_rows_ok]
  obtain rows where rows: "load_stats s1 = Inr rows \<and> rows_ok rows \<and>
      (\<forall>b q. q = pid ex_user \<or> rows b q = ex_rows b q)" by (rule exE)
  from rows have "8 = pid ex_user \<or> rows 1001 8 = ex_rows 1001 8" by blast
  with other have "rows 1001 8 = ex_rows 1001 8" by simp
  with rows have "load_stats s1 = Inr rows \<and> rows_ok rows \<and> rows 1001 8 = ex_rows 1001 8" by simp
  then show ?thesis by (intro exI) (rule conjI [OF s1])
qed

lemma best_record_is_kept_witness:
  "\<exists>s1 rows. write_stats [(ex_row, 4)] ex_stats = (Inr (), s1) \<and> load_stats s1 = Inr rows \<and>
     map_option cs_score (rows 1001 7) = Some 5000"
proof -
  obtain s1 where s1: "write_stats [(ex_row, 4)] ex_stats = (Inr (), s1)" using ex_write by blast
  have four: "list_all (\<lambda>w. snd w = 4) [(ex_row, 4)]" by simp
  from best_record_is_kept [OF s1 ex_load four, of 1001 7]
  obtain rows where rows: "load_stats s1 = Inr rows \<and> best_of (candidates ex_rows [(ex_row, 4)] 1001 7) (rows 1001 7)"
    by (rule exE)
  have sc: "cs_score ex_row = 5000" "cs_board ex_row = 1001" "cs_pid ex_row = 7" by (simp_all add: ex_row_def)
  then have "candidates ex_rows [(ex_row, 4)] 1001 7 = {ex_row\<lparr>cs_score := 4000\<rparr>, ex_row}"
    unfolding candidates_def by (auto simp: ex_rows_def)
  with rows have best: "best_of {ex_row\<lparr>cs_score := 4000\<rparr>, ex_row} (rows 1001 7)" by simp
  then have "map_option cs_score (rows 1001 7) = Some 5000"
    using sc(1) by (cases "rows 1001 7") (auto simp: best_of_def)
  with rows have "load_stats s1 = Inr rows \<and> map_option cs_score (rows 1001 7) = Some 5000" by simp
  then show ?thesis by (intro exI) (rule conjI [OF s1])
qed

lemma leaderboard_follows_scores_witness:
  "\<exists>every. read_stats (\<lambda>_. [7, 8]) 1001 ex_stats = Inr every \<and> read_stats (\<lambda>_. [8, 7]) 1001 ex_stats = Inr every \<and>
     map cs_rank every = map (\<lambda>i. of_nat (i + 1)) [0..<length every]"
  using leaderboard_follows_scores [OF ex_load ex_rows_ok, of "\<lambda>_. [7, 8]" 1001 "\<lambda>_. [8, 7]"]
  by (auto simp: ex_rows_def)

end
