(* ===== verification/Friends.thy ===== *)
theory Friends
  imports MatchMaking JsonText "HOL-Library.AList"
begin

text \<open>
  Who is online (\<open>friends.go\<close>), console friends (\<open>accountlookup.go\<close>), what is reported to the
  account server (\<open>presence.go\<close>) and rich presence (\<open>ctr_presence.go\<close>). The identity files, the
  lines of the proxy's log with their decoded friend lists, the answers of the account server and
  the order in which Go walks its maps (\<open>walk\<close>, the connections) are arguments. Times are in
  nanoseconds. Strings are byte strings; letters are folded as in ASCII.
\<close>

subsection \<open>Hexadecimal\<close>

definition hex_value :: "char \<Rightarrow> nat option" where
  "hex_value c =
     (let n = of_char (lower c) in
      if 48 \<le> n \<and> n \<le> 57 then Some (n - 48)
      else if 97 \<le> n \<and> n \<le> 102 then Some (n - 87) else None)"

fun hex_loop :: "string \<Rightarrow> nat \<Rightarrow> nat option" where
  "hex_loop [] v = Some v"
| "hex_loop (c # cs) v = (case hex_value c of None \<Rightarrow> None | Some d \<Rightarrow> hex_loop cs (16 * v + d))"

text \<open>\<open>strconv.ParseUint(s, 16, 64)\<close>.\<close>

definition parse_hex :: "string \<Rightarrow> u64 option" where
  "parse_hex s =
     (if s = [] then None
      else (case hex_loop s 0 of
              None \<Rightarrow> None | Some v \<Rightarrow> if v < 2 ^ 64 then Some (of_nat v) else None))"

subsection \<open>State\<close>

record richPresence =
  rp_platform :: bytes
  rp_flag :: byte
  rp_data :: bytes

record resolved =
  rv_pid :: u64
  rv_ok :: bool
  rv_at :: int

text \<open>
  \<open>so_players\<close> is the \<open>player\<close> field of each connection; \<open>so_pending\<close> keeps the ticket of a
  connection whose identity file was missing.
\<close>

record social =
  so_players :: "u64 \<Rightarrow> playerID option"
  so_online :: "u64 \<Rightarrow> playerID option"
  so_pending :: "u64 \<Rightarrow> bytes option"
  so_rich :: "u64 \<Rightarrow> richPresence option"
  so_userData :: "string \<Rightarrow> bytes option"
  so_aliases :: "u64 \<Rightarrow> string option"
  so_aliasLoaded :: int
  so_cache :: "(u64 \<times> resolved) list"
  so_down :: int

subsection \<open>Identities\<close>

text \<open>\<open>files\<close> gives the decoded identity file of a ticket key, if it can be read and decoded.\<close>

definition tryIdentity :: "(bytes \<Rightarrow> playerID option) \<Rightarrow> u64 \<Rightarrow> bytes \<Rightarrow> social \<Rightarrow> bool \<times> social" where
  "tryIdentity files n ticket s =
     (case files (subslice 33 41 ticket) of
        None \<Rightarrow> (False, s)
      | Some who \<Rightarrow>
          if pl_username who = '''' then (False, s)
          else
            let who = (if length ticket \<ge> 9 then who\<lparr>pl_title := le_word (subslice 5 9 ticket)\<rparr>
                       else who\<lparr>pl_title := 0\<rparr>)
            in (True, s\<lparr>so_players := (so_players s)(n \<mapsto> who),
                        so_online := (so_online s)(n \<mapsto> who),
                        so_pending := (so_pending s)(n := None)\<rparr>))"

definition loadIdentity :: "(bytes \<Rightarrow> playerID option) \<Rightarrow> u64 \<Rightarrow> bytes \<Rightarrow> social \<Rightarrow> social" where
  "loadIdentity files n ticket s =
     (if length ticket < 41 then s
      else
        (case tryIdentity files n ticket s of
           (True, s) \<Rightarrow> s
         | (False, s) \<Rightarrow> s\<lparr>so_pending := (so_pending s)(n \<mapsto> ticket)\<rparr>))"

text \<open>The list that \<open>retryPending\<close> makes under the lock, and its loop without it.\<close>

definition pending_list :: "u64 list \<Rightarrow> social \<Rightarrow> (u64 \<times> bytes) list" where
  "pending_list walk s = List.map_filter (\<lambda>n. map_option (\<lambda>t. (n, t)) (so_pending s n)) walk"

fun try_all :: "(bytes \<Rightarrow> playerID option) \<Rightarrow> (u64 \<times> bytes) list \<Rightarrow> social \<Rightarrow> social" where
  "try_all files [] s = s"
| "try_all files ((n, ticket) # todo) s = try_all files todo (snd (tryIdentity files n ticket s))"

definition retryPending :: "(bytes \<Rightarrow> playerID option) \<Rightarrow> u64 list \<Rightarrow> social \<Rightarrow> social" where
  "retryPending files walk s = try_all files (pending_list walk s) s"

definition dropPresence :: "u64 \<Rightarrow> social \<Rightarrow> social" where
  "dropPresence p s = s\<lparr>so_rich := (so_rich s)(p := None)\<rparr>"

definition dropOnline :: "u64 list \<Rightarrow> u64 \<Rightarrow> social \<Rightarrow> social" where
  "dropOnline walk conn s =
     (let p = (case so_online s conn of None \<Rightarrow> 0 | Some who \<Rightarrow> pl_pid who);
          elsewhere = list_ex (\<lambda>other. other \<noteq> conn \<and>
            (case so_online s other of None \<Rightarrow> False | Some q \<Rightarrow> pl_pid q = p)) walk;
          p = (if elsewhere then 0 else p);
          s = s\<lparr>so_online := (so_online s)(conn := None), so_pending := (so_pending s)(conn := None)\<rparr>
      in if p \<noteq> 0 then dropPresence p s else s)"

subsection \<open>Friend identifiers\<close>

text \<open>A friend in a line of the log: identifier, nickname and the identifiers of the devices.\<close>

type_synonym log_friend = "string \<times> string \<times> string list"

definition add_alias :: "string \<Rightarrow> string \<Rightarrow> (u64 \<Rightarrow> string option) \<Rightarrow> (u64 \<Rightarrow> string option)" where
  "add_alias name ident m = (case parse_hex ident of None \<Rightarrow> m | Some v \<Rightarrow> m(v \<mapsto> name))"

definition friend_aliases :: "log_friend \<Rightarrow> (u64 \<Rightarrow> string option) \<Rightarrow> (u64 \<Rightarrow> string option)" where
  "friend_aliases f m =
     (case f of (ident, name, devices) \<Rightarrow>
        if name = '''' then m else fold (add_alias name) (ident # devices) m)"

text \<open>
  \<open>log_lines\<close> has one entry per line of the file with the marker: its decoded list, if it could
  be decoded. It is \<open>None\<close> when the file cannot be opened.
\<close>

definition refreshAliases :: "int \<Rightarrow> log_friend list option list option \<Rightarrow> social \<Rightarrow> social" where
  "refreshAliases now log_lines s =
     (if now - so_aliasLoaded s < 60 * 1000000000 then s
      else
        let s = s\<lparr>so_aliasLoaded := now\<rparr> in
        (case log_lines of
           None \<Rightarrow> s
         | Some ls \<Rightarrow>
             s\<lparr>so_aliases :=
                 fold (\<lambda>l m. case l of None \<Rightarrow> m | Some fs \<Rightarrow> fold friend_aliases fs m) ls (so_aliases s)\<rparr>))"

definition onlineUser :: "u64 list \<Rightarrow> u64 \<Rightarrow> string \<Rightarrow> social \<Rightarrow> playerID option" where
  "onlineUser walk ident alias s =
     find (\<lambda>p. (pl_pid p \<noteq> 0 \<and> pl_pid p = ident) \<or> (alias \<noteq> '''' \<and> equal_fold (pl_username p) alias))
       (List.map_filter (so_online s) walk)"

subsection \<open>The account server\<close>

text \<open>
  \<open>answer\<close> is the HTTP response: its status and, when it could be decoded, the player of its body
  (0 when the body has none). The results are the player, whether one was found, and whether the
  server could be reached.
\<close>

definition fetchResolve :: "(nat \<times> u64 option) option \<Rightarrow> u64 \<times> bool \<times> bool" where
  "fetchResolve answer =
     (case answer of
        None \<Rightarrow> (0, False, False)
      | Some (status, body) \<Rightarrow>
          if status = 404 then (0, False, True)
          else if status = 200 then
            (case body of
               None \<Rightarrow> (0, False, True)
             | Some p \<Rightarrow> if p = 0 then (0, False, True) else (p, True, True))
          else (0, False, False))"

definition resolveHitTTL :: int where "resolveHitTTL = 5 * 60 * 1000000000"
definition resolveMissTTL :: int where "resolveMissTTL = 30 * 1000000000"
definition resolveMaxKeep :: nat where "resolveMaxKeep = 4096"

definition cached :: "int \<Rightarrow> u64 \<Rightarrow> social \<Rightarrow> resolved option" where
  "cached now ident s =
     (case map_of (so_cache s) ident of
        None \<Rightarrow> None
      | Some r \<Rightarrow>
          if now - rv_at r < (if rv_ok r then resolveHitTTL else resolveMissTTL) then Some r else None)"

definition pidForConsoleID ::
    "int \<Rightarrow> (u64 \<Rightarrow> (nat \<times> u64 option) option) \<Rightarrow> u64 \<Rightarrow> social \<Rightarrow> (u64 \<times> bool) \<times> social" where
  "pidForConsoleID now server ident s =
     (case cached now ident s of
        Some r \<Rightarrow> ((rv_pid r, rv_ok r), s)
      | None \<Rightarrow>
          if now < so_down s then ((0, False), s)
          else
            (case fetchResolve (server ident) of (p, ok, reachable) \<Rightarrow>
               if \<not> reachable then ((0, False), s\<lparr>so_down := now + resolveMissTTL\<rparr>)
               else
                 let c = (if length (so_cache s) \<ge> resolveMaxKeep then [] else so_cache s) in
                 ((p, ok), s\<lparr>so_cache := AList.update ident \<lparr>rv_pid = p, rv_ok = ok, rv_at = now\<rparr> c\<rparr>)))"

text \<open>Everything a lookup depends on.\<close>

record world =
  wo_files :: "bytes \<Rightarrow> playerID option"
  wo_walk :: "u64 list"
  wo_now :: int
  wo_log :: "log_friend list option list option"
  wo_server :: "u64 \<Rightarrow> (nat \<times> u64 option) option"

definition onlinePlayerFor :: "world \<Rightarrow> u64 \<Rightarrow> social \<Rightarrow> playerID option \<times> social" where
  "onlinePlayerFor w ident s =
     (let s = refreshAliases (wo_now w) (wo_log w) (retryPending (wo_files w) (wo_walk w) s);
          name = (case so_aliases s ident of None \<Rightarrow> '''' | Some n \<Rightarrow> n) in
      (case onlineUser (wo_walk w) ident name s of
         Some p \<Rightarrow> (Some p, s)
       | None \<Rightarrow>
           (case pidForConsoleID (wo_now w) (wo_server w) ident s of
              ((p, True), s) \<Rightarrow> (onlineUser (wo_walk w) p '''' s, s)
            | ((_, False), s) \<Rightarrow> (None, s))))"

definition nicknameOnline :: "world \<Rightarrow> u64 \<Rightarrow> social \<Rightarrow> string \<times> social" where
  "nicknameOnline w ident s =
     (case onlinePlayerFor w ident s of
        (Some p, s) \<Rightarrow> (pl_username p, s) | (None, s) \<Rightarrow> ('''', s))"

definition pidOnline :: "world \<Rightarrow> u64 \<Rightarrow> social \<Rightarrow> u64 \<times> social" where
  "pidOnline w ident s =
     (case onlinePlayerFor w ident s of (Some p, s) \<Rightarrow> (pl_pid p, s) | (None, s) \<Rightarrow> (0, s))"

subsection \<open>Friend tasks\<close>

fun name_hits :: "world \<Rightarrow> u64 list \<Rightarrow> social \<Rightarrow> (u64 \<times> string) list \<times> social" where
  "name_hits w [] s = ([], s)"
| "name_hits w (i # is) s =
     (case nicknameOnline w i s of (name, s) \<Rightarrow>
      case name_hits w is s of (hits, s) \<Rightarrow>
        (if name \<noteq> '''' then (i, name) # hits else hits, s))"

definition onGetUserNames :: "world \<Rightarrow> u64 \<Rightarrow> byte \<Rightarrow> bdReader \<Rightarrow> social \<Rightarrow> bytes \<times> social" where
  "onGetUserNames w txn task r s =
     (case name_hits w (rd_u64s r) s of (hits, s) \<Rightarrow>
        (taskReply txn task 0
           (Some (concat (map (\<lambda>(i, name). w_u64 i @ w_strv (lit name)) hits), of_nat (length hits))), s))"

definition data_key :: "string \<Rightarrow> bytes \<Rightarrow> string" where
  "data_key name ctx = to_lower name @ ''|'' @ str_of ctx"

fun data_hits :: "world \<Rightarrow> bytes \<Rightarrow> u64 list \<Rightarrow> social \<Rightarrow> (u64 \<times> bytes) list \<times> social" where
  "data_hits w ctx [] s = ([], s)"
| "data_hits w ctx (i # is) s =
     (case nicknameOnline w i s of (name, s) \<Rightarrow>
        let found = (if name = '''' then None else so_userData s (data_key name ctx)) in
      case data_hits w ctx is s of (hits, s) \<Rightarrow>
        (case found of None \<Rightarrow> hits | Some d \<Rightarrow> (i, d) # hits, s))"

definition rd_str_or_empty :: "bdReader \<Rightarrow> bytes \<times> bdReader" where
  "rd_str_or_empty r = (case rd_str r of (Inl _, r) \<Rightarrow> ([], r) | (Inr v, r) \<Rightarrow> (v, r))"

text \<open>The reply, if the task is known; \<open>l\<close> is the caller.\<close>

definition onUserData :: "world \<Rightarrow> lobbyUser \<Rightarrow> u64 \<Rightarrow> byte \<Rightarrow> bdReader \<Rightarrow> social \<Rightarrow> bytes option \<times> social" where
  "onUserData w l txn task r s =
     (case rd_str_or_empty r of (ctx, r) \<Rightarrow>
      if task = 1 then
        (case (rd_blob r, lu_player l) of
           ((Inr d, _), Some p) \<Rightarrow>
             (Some (taskReply txn task 0 None),
              s\<lparr>so_userData := (so_userData s)(data_key (pl_username p) ctx \<mapsto> d)\<rparr>)
         | _ \<Rightarrow> (Some (taskReply txn task 0 None), s))
      else if task = 4 then
        let r = (if roff r < length (rbuf r) \<and> rbuf r ! roff r = tagBool then advance 2 r else r) in
        (case data_hits w ctx (rd_u64s r) s of (hits, s) \<Rightarrow>
           (Some (taskReply txn task 0
              (Some (concat (map (\<lambda>(i, d). w_u64 i @ w_blobv d) hits), of_nat (length hits)))), s))
      else (None, s))"

subsection \<open>Reported players\<close>

definition d3AppID :: string where "d3AppID = ''01001b300b9be000''"
definition ctrAppID :: string where "ctrAppID = ''0100f9f00c696000''"

definition appIDForTitle :: "u32 \<Rightarrow> string" where
  "appIDForTitle title = (if title = 5775 then ctrAppID else d3AppID)"

fun by_app :: "playerID list \<Rightarrow> u64 set \<times> (string \<times> u64 list) list \<Rightarrow> u64 set \<times> (string \<times> u64 list) list" where
  "by_app [] st = st"
| "by_app (p # ps) (seen, out) =
     (if pl_pid p \<noteq> 0 \<and> pl_pid p \<notin> seen then
        let app = appIDForTitle (pl_title p); old = (case map_of out app of None \<Rightarrow> [] | Some l \<Rightarrow> l) in
        by_app ps (insert (pl_pid p) seen, AList.update app (old @ [pl_pid p]) out)
      else by_app ps (seen, out))"

definition onlinePIDsByApp :: "u64 list \<Rightarrow> social \<Rightarrow> (string \<times> u64 list) list" where
  "onlinePIDsByApp walk s = snd (by_app (List.map_filter (so_online s) walk) ({}, []))"

definition onlinePIDs :: "u64 list \<Rightarrow> social \<Rightarrow> u64 list" where
  "onlinePIDs walk s = concat (map snd (onlinePIDsByApp walk s))"

definition onlinePIDSet :: "world \<Rightarrow> social \<Rightarrow> u64 set \<times> social" where
  "onlinePIDSet w s =
     (let s = retryPending (wo_files w) (wo_walk w) s in (set (onlinePIDs (wo_walk w) s), s))"

subsection \<open>Rich presence\<close>

definition set_presence :: "u64 \<Rightarrow> bdReader \<Rightarrow> social \<Rightarrow> social" where
  "set_presence me r s =
     (case rd_u64 r of (Inl _, _) \<Rightarrow> s | (Inr i, r) \<Rightarrow>
     (case rd_str r of (Inl _, _) \<Rightarrow> s | (Inr plat, r) \<Rightarrow>
     (case rd_u8 r of (Inl _, _) \<Rightarrow> s | (Inr flag, r) \<Rightarrow>
     (case rd_blob r of (Inl _, _) \<Rightarrow> s | (Inr d, r) \<Rightarrow>
        let i = (if i = 0 then me else i) in
        if i = 0 then s
        else s\<lparr>so_rich := (so_rich s)(i \<mapsto> \<lparr>rp_platform = plat, rp_flag = flag, rp_data = d\<rparr>)\<rparr>))))"

text \<open>What is answered for one requested account.\<close>

definition presence_hit :: "u64 \<Rightarrow> u64 set \<Rightarrow> (u64 \<Rightarrow> richPresence option) \<Rightarrow> accountID \<Rightarrow> u64 \<times> richPresence" where
  "presence_hit me live rich a =
     (let i = (if acc_id a = 0 then me else acc_id a);
          none = \<lparr>rp_platform = acc_platform a, rp_flag = 0, rp_data = []\<rparr> in
      (i, if i = me \<or> i \<in> live then (case rich i of None \<Rightarrow> none | Some p \<Rightarrow> p) else none))"

definition presence_bytes :: "u64 \<times> richPresence \<Rightarrow> bytes" where
  "presence_bytes h =
     w_u64 (fst h) @ w_strv (rp_platform (snd h)) @ w_u8 (rp_flag (snd h)) @ w_blobv (rp_data (snd h))"

definition onRichPresence :: "world \<Rightarrow> lobbyUser \<Rightarrow> u64 \<Rightarrow> byte \<Rightarrow> bdReader \<Rightarrow> social \<Rightarrow> bytes \<times> social" where
  "onRichPresence w l txn task r s =
     (case rd_str_or_empty r of (ctx, r) \<Rightarrow>
      if task = 3 then (taskReply txn task 0 None, set_presence (pid l) r s)
      else if task = 4 \<or> task = 5 then
        (case onlinePIDSet w s of (live, s) \<Rightarrow>
           let hits = map (presence_hit (pid l) live (so_rich s)) (rd_accountIDs r) in
           (taskReply txn task 0 (Some (concat (map presence_bytes hits), of_nat (length hits))), s))
      else (taskReply txn task 0 None, s))"

end
