(* ===== verification/FriendsProps.thy ===== *)
theory FriendsProps
  imports Friends Transition
begin

text \<open>Who is shown as online, and what is shown of them.\<close>

subsection \<open>Online players\<close>

definition online_pids :: "u64 list \<Rightarrow> social \<Rightarrow> u64 set" where
  "online_pids walk s = pl_pid ` set (List.map_filter (so_online s) walk) - {0}"

lemma mem_online_pids:
  "p \<in> online_pids walk s \<longleftrightarrow> p \<noteq> 0 \<and> (\<exists>n who. n \<in> set walk \<and> so_online s n = Some who \<and> pl_pid who = p)"
  by (auto simp: online_pids_def List.map_filter_def image_iff)

text \<open>The invariant of the loop: every player seen is in one list, once.\<close>

definition listed :: "u64 set \<Rightarrow> (string \<times> u64 list) list \<Rightarrow> bool" where
  "listed seen out \<longleftrightarrow>
     distinct (map fst out) \<and> distinct (concat (map snd out)) \<and> set (concat (map snd out)) = seen"

lemma concat_update:
  "distinct (map fst out) \<Longrightarrow>
   mset (concat (map snd (AList.update k (v @ [x]) out))) =
     mset (concat (map snd out)) + {#x#}" if "v = (case map_of out k of None \<Rightarrow> [] | Some l \<Rightarrow> l)"
  using that
proof (induction out)
  case (Cons e out)
  obtain j l where e: "e = (j, l)" by (cases e)
  show ?case
  proof (cases "j = k")
    case True
    then show ?thesis using Cons.prems e by simp
  next
    case False
    then show ?thesis using Cons e by simp
  qed
qed simp

lemma listed_step:
  assumes "listed seen out" and "x \<notin> seen"
  shows "listed (insert x seen)
    (AList.update k ((case map_of out k of None \<Rightarrow> [] | Some l \<Rightarrow> l) @ [x]) out)"
proof -
  let ?v = "case map_of out k of None \<Rightarrow> [] | Some l \<Rightarrow> l"
  let ?new = "AList.update k (?v @ [x]) out"
  have m: "mset (concat (map snd ?new)) = mset (concat (map snd out) @ [x])"
    using concat_update [of ?v out k x] assms(1) by (simp add: listed_def)
  have "distinct (concat (map snd out) @ [x])" using assms by (auto simp: listed_def)
  then have "distinct (concat (map snd ?new))" using mset_eq_imp_distinct_iff [OF m] by blast
  moreover have "set (concat (map snd ?new)) = insert x seen"
    using mset_eq_setD [OF m] assms(1) by (auto simp: listed_def)
  moreover have "distinct (map fst ?new)" using assms(1) by (simp add: listed_def distinct_update)
  ultimately show ?thesis by (simp add: listed_def)
qed

lemma by_app_listed:
  "listed seen out \<Longrightarrow> by_app ps (seen, out) = (seen', out') \<Longrightarrow>
   listed seen' out' \<and> seen' = seen \<union> (pl_pid ` set ps - {0})"
proof (induction ps arbitrary: seen out)
  case (Cons p ps)
  show ?case
  proof (cases "pl_pid p \<noteq> 0 \<and> pl_pid p \<notin> seen")
    case True
    then have run: "by_app ps (insert (pl_pid p) seen,
        AList.update (appIDForTitle (pl_title p))
          ((case map_of out (appIDForTitle (pl_title p)) of None \<Rightarrow> [] | Some l \<Rightarrow> l) @ [pl_pid p]) out) = (seen', out')"
      using Cons.prems(2) by (simp add: Let_def)
    show ?thesis
      using Cons.IH [OF listed_step [OF Cons.prems(1)] run] True by auto
  next
    case False
    then show ?thesis using Cons.IH [OF Cons.prems(1)] Cons.prems(2) by auto
  qed
qed simp

text \<open>Each player who is online is reported to the account server exactly once, under one game, however
  many connections the player has and however Go walks its map; nobody else is reported.\<close>

theorem online_players_reported_once:
  "distinct (onlinePIDs walk s) \<and> set (onlinePIDs walk s) = online_pids walk s \<and>
   distinct (map fst (onlinePIDsByApp walk s))"
proof -
  obtain seen out where b: "by_app (List.map_filter (so_online s) walk) ({}, []) = (seen, out)" by fastforce
  have "listed {} []" by (simp add: listed_def)
  from by_app_listed [OF this b] show ?thesis
    by (simp add: onlinePIDs_def onlinePIDsByApp_def b listed_def online_pids_def)
qed

subsection \<open>Presence\<close>

definition blank :: "richPresence \<Rightarrow> bool" where "blank p \<longleftrightarrow> rp_data p = [] \<and> rp_flag p = 0"

text \<open>C31: A presence query answers every account asked for, in order, and shows stored data only of the
  caller and of players who are online: a player who left does not look joinable.\<close>

theorem presence_shows_only_online_players:
  assumes "task = 4 \<or> task = 5" and "rd_str_or_empty r = (ctx, r1)"
  shows "\<exists>hits s'. onRichPresence w l txn task r s =
      (taskReply txn task 0 (Some (concat (map presence_bytes hits), of_nat (length hits))), s') \<and>
    map fst hits = map (\<lambda>a. if acc_id a = 0 then pid l else acc_id a) (rd_accountIDs r1) \<and>
    list_all (\<lambda>h. blank (snd h) \<or> fst h = pid l \<or> fst h \<in> online_pids (wo_walk w) s') hits"
proof -
  obtain live s' where live: "onlinePIDSet w s = (live, s')" by fastforce
  have pids: "live = online_pids (wo_walk w) s'"
    using live online_players_reported_once [of "wo_walk w" s'] by (auto simp: onlinePIDSet_def Let_def)
  let ?hits = "map (presence_hit (pid l) live (so_rich s')) (rd_accountIDs r1)"
  have "map fst ?hits = map (\<lambda>a. if acc_id a = 0 then pid l else acc_id a) (rd_accountIDs r1)"
    by (simp add: presence_hit_def Let_def)
  moreover have "list_all (\<lambda>h. blank (snd h) \<or> fst h = pid l \<or> fst h \<in> online_pids (wo_walk w) s') ?hits"
    by (auto simp: list_all_iff presence_hit_def blank_def pids Let_def)
  moreover have "onRichPresence w l txn task r s =
      (taskReply txn task 0 (Some (concat (map presence_bytes ?hits), of_nat (length ?hits))), s')"
    using assms live by (auto simp: onRichPresence_def Let_def)
  ultimately show ?thesis by blast
qed

definition ex_query :: bdReader where
  "ex_query = \<lparr>rbuf = w_strv [] @ w_u32 1 @ w_u64 9 @ w_strv [7], roff = 0\<rparr>"

lemma presence_shows_only_online_players_witness:
  "\<exists>(w :: world) (l :: lobbyUser) (s :: social) r1 hits s'. rd_str_or_empty ex_query = ([], r1) \<and>
     onRichPresence w l 5 4 ex_query s =
       (taskReply 5 4 0 (Some (concat (map presence_bytes hits), of_nat (length hits))), s') \<and>
     map fst hits = map (\<lambda>a. if acc_id a = 0 then pid l else acc_id a) (rd_accountIDs r1)"
proof -
  have "remaining ex_query = w_strv [] @ w_u32 1 @ w_u64 9 @ w_strv [7]"
    by (simp add: ex_query_def remaining_def)
  then obtain r1 where r1: "rd_str ex_query = (Inr [], r1)"
    by (rule str.read_next) (simp add: nul_free_def)
  then have c: "rd_str_or_empty ex_query = ([], r1)" by (simp add: rd_str_or_empty_def)
  from presence_shows_only_online_players [OF _ c, of 4 undefined undefined 5 undefined] c show ?thesis by (simp, blast)
qed

subsection \<open>Connections that close\<close>

text \<open>
  The connections that have closed, and the entries that running calls of \<open>retryPending\<close> took
  from the pending map and have not tried yet. A connection's number is never used again. The steps are
  all that the program does with its two maps of connections, and \<open>other\<close> for what it does besides.
\<close>

record lobbyWorld =
  lw_social :: social
  lw_todo :: "(u64 \<times> bytes) list"
  lw_closed :: "u64 set"

inductive lobby_step :: "lobbyWorld \<Rightarrow> lobbyWorld \<Rightarrow> bool" where
  identify: "n \<notin> lw_closed w \<Longrightarrow>
    lobby_step w (w\<lparr>lw_social := loadIdentity files n ticket (lw_social w)\<rparr>)"
| capture: "lobby_step w (w\<lparr>lw_todo := lw_todo w @ pending_list walk (lw_social w)\<rparr>)"
| attempt: "lw_todo w = (n, ticket) # todo \<Longrightarrow>
    lobby_step w (w\<lparr>lw_todo := todo, lw_social := snd (tryIdentity files n ticket (lw_social w))\<rparr>)"
| close: "n \<notin> lw_closed w \<Longrightarrow>
    lobby_step w (w\<lparr>lw_social := dropOnline walk n (lw_social w), lw_closed := insert n (lw_closed w)\<rparr>)"
| other: "so_online s' = so_online (lw_social w) \<Longrightarrow> so_pending s' = so_pending (lw_social w) \<Longrightarrow>
    lobby_step w (w\<lparr>lw_social := s'\<rparr>)"

inductive_cases lobby_stepE: "lobby_step w w'"

text \<open>The same system when a retry runs without anything else in between.\<close>

inductive atomic_step :: "lobbyWorld \<Rightarrow> lobbyWorld \<Rightarrow> bool" where
  a_identify: "n \<notin> lw_closed w \<Longrightarrow>
    atomic_step w (w\<lparr>lw_social := loadIdentity files n ticket (lw_social w)\<rparr>)"
| a_retry: "atomic_step w (w\<lparr>lw_social := retryPending files walk (lw_social w)\<rparr>)"
| a_close: "n \<notin> lw_closed w \<Longrightarrow>
    atomic_step w (w\<lparr>lw_social := dropOnline walk n (lw_social w), lw_closed := insert n (lw_closed w)\<rparr>)"

inductive_cases atomic_stepE: "atomic_step w w'"

definition start_social :: social where
  "start_social = \<lparr>so_players = Map.empty, so_online = Map.empty, so_pending = Map.empty,
     so_rich = Map.empty, so_userData = Map.empty, so_aliases = Map.empty, so_aliasLoaded = 0,
     so_cache = [], so_down = 0\<rparr>"

definition start_lobby :: lobbyWorld where
  "start_lobby = \<lparr>lw_social = start_social, lw_todo = [], lw_closed = {}\<rparr>"

definition present :: "social \<Rightarrow> u64 \<Rightarrow> bool" where
  "present s n \<longleftrightarrow> so_online s n \<noteq> None \<or> so_pending s n \<noteq> None"

lemma tryIdentity_present:
  "tryIdentity files n ticket s = (ok, s') \<Longrightarrow> present s' m \<Longrightarrow> m = n \<or> present s m"
  by (auto simp: tryIdentity_def present_def Let_def split: option.splits if_splits)

lemma loadIdentity_present: "present (loadIdentity files n ticket s) m \<Longrightarrow> m = n \<or> present s m"
proof -
  obtain ok s1 where t: "tryIdentity files n ticket s = (ok, s1)" by fastforce
  assume "present (loadIdentity files n ticket s) m"
  then have "m = n \<or> present s m \<or> present s1 m"
    using t by (auto simp: loadIdentity_def present_def split: if_splits bool.splits)
  then show ?thesis using tryIdentity_present [OF t] by blast
qed

lemma try_all_present: "present (try_all files todo s) m \<Longrightarrow> m \<in> fst ` set todo \<or> present s m"
proof (induction files todo s rule: try_all.induct)
  case (2 files n ticket todo s)
  then show ?case
    using tryIdentity_present [of files n ticket s] by (cases "tryIdentity files n ticket s") auto
qed simp

lemma pending_list_present: "m \<in> fst ` set (pending_list walk s) \<Longrightarrow> present s m"
  by (auto simp: pending_list_def List.map_filter_def present_def)

lemma retryPending_present: "present (retryPending files walk s) m \<Longrightarrow> present s m"
  using try_all_present [of files "pending_list walk s" s m] pending_list_present
  by (auto simp: retryPending_def)

lemma dropOnline_present: "present (dropOnline walk n s) m \<Longrightarrow> m \<noteq> n \<and> present s m"
  by (auto simp: dropOnline_def present_def dropPresence_def Let_def split: if_splits)

definition none_closed_present :: "lobbyWorld \<Rightarrow> bool" where
  "none_closed_present w \<longleftrightarrow> (\<forall>n \<in> lw_closed w. \<not> present (lw_social w) n)"

interpretation atomic: invariant_system "\<lambda>w. w = start_lobby" atomic_step none_closed_present
proof
  show "w = start_lobby \<Longrightarrow> none_closed_present w" for w
    by (simp add: none_closed_present_def start_lobby_def)
  show "none_closed_present w'" if inv: "none_closed_present w" and step: "atomic_step w w'" for w w'
    using step
  proof cases
    case (a_identify n files ticket)
    then show ?thesis using inv loadIdentity_present by (fastforce simp: none_closed_present_def)
  next
    case (a_retry files walk)
    then show ?thesis using inv retryPending_present by (fastforce simp: none_closed_present_def)
  next
    case (a_close n walk)
    then show ?thesis using inv dropOnline_present by (fastforce simp: none_closed_present_def)
  qed
qed

text \<open>As long as the retries for missing identity files do not run at the same time as other
  operations, a closed connection never shows its player as online.\<close>

theorem closed_connections_are_offline:
  assumes "reach (\<lambda>w. w = start_lobby) atomic_step w" and "n \<in> lw_closed w"
  shows "so_online (lw_social w) n = None \<and> so_pending (lw_social w) n = None"
  using atomic.reach_inv [OF assms(1)] assms(2) by (auto simp: none_closed_present_def present_def)

lemma closed_connections_are_offline_witness:
  "\<exists>w. reach (\<lambda>w. w = start_lobby) atomic_step w \<and> so_online (lw_social w) 3 = None"
proof -
  let ?w = "start_lobby\<lparr>lw_social := dropOnline [] 3 (lw_social start_lobby), lw_closed := insert 3 (lw_closed start_lobby)\<rparr>"
  have "3 \<notin> lw_closed start_lobby" by (simp add: start_lobby_def)
  then have "atomic_step start_lobby ?w" by (rule a_close)
  then have r: "reach (\<lambda>w. w = start_lobby) atomic_step ?w"
    by (rule reach.intros(2) [OF reach_start])
  have "so_online (lw_social ?w) 3 = None \<and> so_pending (lw_social ?w) 3 = None"
    by (rule closed_connections_are_offline [OF r]) simp
  with r show ?thesis by blast
qed

subsection \<open>A player who stays online\<close>

text \<open>
  The sequence: connection \<open>n\<close> waits for its identity file, a retry takes its entry, the file
  appears, the connection closes, and the retry tries the entry.
\<close>

definition ghost_ticket :: bytes where "ghost_ticket = replicate 128 7"

definition ghost_waiting :: "u64 \<Rightarrow> lobbyWorld" where
  "ghost_waiting n = start_lobby\<lparr>lw_social := loadIdentity Map.empty n ghost_ticket (lw_social start_lobby)\<rparr>"

definition ghost_taken :: "u64 \<Rightarrow> lobbyWorld" where
  "ghost_taken n = (ghost_waiting n)
     \<lparr>lw_todo := lw_todo (ghost_waiting n) @ pending_list [n] (lw_social (ghost_waiting n))\<rparr>"

definition ghost_closed :: "u64 \<Rightarrow> lobbyWorld" where
  "ghost_closed n = (ghost_taken n)
     \<lparr>lw_social := dropOnline [n] n (lw_social (ghost_taken n)),
      lw_closed := insert n (lw_closed (ghost_taken n))\<rparr>"

definition ghost_back :: "(bytes \<Rightarrow> playerID option) \<Rightarrow> u64 \<Rightarrow> lobbyWorld" where
  "ghost_back files n = (ghost_closed n)
     \<lparr>lw_todo := [], lw_social := snd (tryIdentity files n ghost_ticket (lw_social (ghost_closed n)))\<rparr>"

lemma ghost_todo: "lw_todo (ghost_closed n) = [(n, ghost_ticket)]"
  by (simp add: ghost_closed_def ghost_taken_def ghost_waiting_def start_lobby_def start_social_def
      loadIdentity_def tryIdentity_def pending_list_def map_filter_simps ghost_ticket_def)

lemma ghost_reached: "reach (\<lambda>w. w = start_lobby) lobby_step (ghost_back files n)"
proof -
  note go = reach.intros(2) [of "\<lambda>w. w = start_lobby" lobby_step]
  have "lobby_step start_lobby (ghost_waiting n)"
    unfolding ghost_waiting_def by (rule identify) (simp add: start_lobby_def)
  from go [OF reach_start this]
  have r: "reach (\<lambda>w. w = start_lobby) lobby_step (ghost_waiting n)" .
  have "lobby_step (ghost_waiting n) (ghost_taken n)"
    unfolding ghost_taken_def by (rule capture)
  from go [OF r this] have r: "reach (\<lambda>w. w = start_lobby) lobby_step (ghost_taken n)" .
  have "lobby_step (ghost_taken n) (ghost_closed n)"
    unfolding ghost_closed_def
    by (rule close) (simp add: ghost_taken_def ghost_waiting_def start_lobby_def)
  from go [OF r this] have r: "reach (\<lambda>w. w = start_lobby) lobby_step (ghost_closed n)" .
  have "lobby_step (ghost_closed n) (ghost_back files n)"
    unfolding ghost_back_def by (rule attempt [OF ghost_todo])
  from go [OF r this] show ?thesis .
qed

definition ghost_player :: playerID where
  "ghost_player = \<lparr>pl_username = ''ana'', pl_pid = 7, pl_sub = [], pl_kind = [], pl_title = 0\<rparr>"

lemma ghost_online: "so_online (lw_social (ghost_back (\<lambda>_. Some ghost_player) n)) n \<noteq> None"
  by (simp add: ghost_back_def tryIdentity_def ghost_player_def ghost_ticket_def Let_def)

text \<open>Once a closed connection shows a player online, it does so for ever: only its own end removes the entry.\<close>

lemma tryIdentity_keeps_online: "so_online s n \<noteq> None \<Longrightarrow> so_online (snd (tryIdentity files m ticket s)) n \<noteq> None"
  by (auto simp: tryIdentity_def Let_def split: option.splits)

lemma loadIdentity_keeps_online: "so_online s n \<noteq> None \<Longrightarrow> so_online (loadIdentity files m ticket s) n \<noteq> None"
  using tryIdentity_keeps_online [of s n files m ticket]
  by (auto simp: loadIdentity_def split: prod.splits bool.splits)

definition ghost :: "u64 \<Rightarrow> lobbyWorld \<Rightarrow> bool" where
  "ghost n w \<longleftrightarrow> n \<in> lw_closed w \<and> so_online (lw_social w) n \<noteq> None"

lemma ghost_step: "lobby_step w w' \<Longrightarrow> ghost n w \<Longrightarrow> ghost n w'"
  unfolding ghost_def
  by (erule lobby_stepE)
     (auto simp: loadIdentity_keeps_online dropOnline_def dropPresence_def Let_def
       intro: tryIdentity_keeps_online [simplified])

lemma ghost_stays: "lobby_step\<^sup>*\<^sup>* w w' \<Longrightarrow> ghost n w \<Longrightarrow> ghost n w'"
  by (induction rule: rtranclp_induct) (auto intro: ghost_step)

text \<open>C32: When a retry for a missing identity file runs while the connection closes, the player of the
  closed connection can end up online, and from then on in every later state, whatever connections come,
  are identified, retried or close.\<close>

theorem closed_connection_can_stay_online:
  "\<exists>w. reach (\<lambda>w. w = start_lobby) lobby_step w \<and> n \<in> lw_closed w \<and> so_online (lw_social w) n \<noteq> None \<and>
     (\<forall>w'. lobby_step\<^sup>*\<^sup>* w w' \<longrightarrow> n \<in> lw_closed w' \<and> so_online (lw_social w') n \<noteq> None)"
proof (intro exI conjI)
  let ?w = "ghost_back (\<lambda>_. Some ghost_player) n"
  show "reach (\<lambda>w. w = start_lobby) lobby_step ?w" by (rule ghost_reached)
  show c: "n \<in> lw_closed ?w" by (simp add: ghost_back_def ghost_closed_def)
  show on: "so_online (lw_social ?w) n \<noteq> None" by (rule ghost_online)
  show "\<forall>w'. lobby_step\<^sup>*\<^sup>* ?w w' \<longrightarrow> n \<in> lw_closed w' \<and> so_online (lw_social w') n \<noteq> None"
    using ghost_stays [of ?w _ n] c on unfolding ghost_def by blast
qed

lemma closed_connection_can_stay_online_witness:
  "\<exists>w w'. lobby_step w w' \<and> 3 \<in> lw_closed w' \<and> so_online (lw_social w') 3 \<noteq> None"
proof -
  obtain w where "so_online (lw_social w) 3 \<noteq> None"
    "\<forall>w'. lobby_step\<^sup>*\<^sup>* w w' \<longrightarrow> 3 \<in> lw_closed w' \<and> so_online (lw_social w') 3 \<noteq> None"
    using closed_connection_can_stay_online [of 3] by blast
  moreover have "lobby_step w (w\<lparr>lw_todo := lw_todo w @ pending_list [] (lw_social w)\<rparr>)" by (rule capture)
  ultimately show ?thesis by (meson r_into_rtranclp)
qed

subsection \<open>Setting presence\<close>

text \<open>A request to set presence stores it for whatever account it names: nothing checks that the account
  is the caller's, and the caller need not be identified.\<close>

theorem presence_set_for_any_account:
  assumes "remaining r = w_strv ctx @ w_u64 i @ w_strv plat @ w_u8 flag @ w_blobv d @ rest"
    and "nul_free ctx" and "nul_free plat" and "length d < 2 ^ 32" and "i \<noteq> 0"
  shows "onRichPresence w l txn 3 r s =
    (taskReply txn 3 0 None,
     s\<lparr>so_rich := (so_rich s)(i \<mapsto> \<lparr>rp_platform = plat, rp_flag = flag, rp_data = d\<rparr>)\<rparr>)"
proof -
  obtain r1 where 1: "rd_str r = (Inr ctx, r1)" "remaining r1 = w_u64 i @ w_strv plat @ w_u8 flag @ w_blobv d @ rest"
    by (rule str.read_next [OF assms(1,2)])
  obtain r2 where 2: "rd_u64 r1 = (Inr i, r2)" "remaining r2 = w_strv plat @ w_u8 flag @ w_blobv d @ rest"
    by (rule u64.read_next [OF 1(2) TrueI])
  obtain r3 where 3: "rd_str r2 = (Inr plat, r3)" "remaining r3 = w_u8 flag @ w_blobv d @ rest"
    by (rule str.read_next [OF 2(2) assms(3)])
  obtain r4 where 4: "rd_u8 r3 = (Inr flag, r4)" "remaining r4 = w_blobv d @ rest"
    by (rule u8.read_next [OF 3(2) TrueI])
  obtain r5 where 5: "rd_blob r4 = (Inr d, r5)"
    by (rule blob.read_next [OF 4(2) assms(4)])
  show ?thesis
    using assms(5) by (simp add: onRichPresence_def rd_str_or_empty_def set_presence_def 1(1) 2(1) 3(1) 4(1) 5)
qed

lemma presence_set_for_any_account_witness:
  "\<exists>r l. lu_player l = None \<and>
     so_rich (snd (onRichPresence \<lparr>wo_files = Map.empty, wo_walk = [], wo_now = 0, wo_log = None, wo_server = (\<lambda>_. None)\<rparr>
       l 5 3 r start_social)) 9 = Some \<lparr>rp_platform = [7], rp_flag = 1, rp_data = [1, 2]\<rparr>"
proof -
  let ?r = "\<lparr>rbuf = w_strv [] @ w_u64 9 @ w_strv [7] @ w_u8 1 @ w_blobv [1, 2], roff = 0\<rparr>"
  let ?l = "\<lparr>lu_n = 1, lu_player = None\<rparr>"
  have "remaining ?r = w_strv [] @ w_u64 9 @ w_strv [7] @ w_u8 1 @ w_blobv [1, 2] @ []"
    by (simp add: remaining_def)
  from presence_set_for_any_account [OF this, of _ ?l 5 start_social]
  have "so_rich (snd (onRichPresence \<lparr>wo_files = Map.empty, wo_walk = [], wo_now = 0, wo_log = None, wo_server = (\<lambda>_. None)\<rparr>
       ?l 5 3 ?r start_social)) 9 = Some \<lparr>rp_platform = [7], rp_flag = 1, rp_data = [1, 2]\<rparr>"
    by (simp add: nul_free_def)
  moreover have "lu_player ?l = None" by simp
  ultimately show ?thesis by blast
qed

subsection \<open>The cache of console friends\<close>

text \<open>The cache never holds more than 4096 answers, and a fresh answer needs no request.\<close>

lemma length_update: "length (AList.update k v xs) \<le> Suc (length xs)"
  by (induction xs) auto

lemma cache_bounded:
  assumes "length (so_cache s) \<le> resolveMaxKeep" and "pidForConsoleID now server ident s = (r, s')"
  shows "length (so_cache s') \<le> resolveMaxKeep"
proof -
  have "so_cache s' = so_cache s \<or>
      (\<exists>v. so_cache s' = AList.update ident v (if length (so_cache s) \<ge> resolveMaxKeep then [] else so_cache s))"
    using assms(2) unfolding pidForConsoleID_def
    by (auto simp: Let_def split: option.splits prod.splits if_splits)
  moreover have "length (AList.update ident v (if length (so_cache s) \<ge> resolveMaxKeep then [] else so_cache s)) \<le> resolveMaxKeep" for v
    using length_update [of ident v "so_cache s"] by (simp add: resolveMaxKeep_def)
  ultimately show ?thesis using assms(1) by auto
qed

lemma cached_answer: "cached now ident s = Some r \<Longrightarrow> pidForConsoleID now server ident s = ((rv_pid r, rv_ok r), s)"
  by (simp add: pidForConsoleID_def)

end
