(* ===== verification/Identity.thy ===== *)
theory Identity
  imports MatchMaking Texts Base64 Sha256
begin

text \<open>
  Who logs in (\<open>identity.go\<close>) and whether a ticket is issued (\<open>gates.go\<close>). The JSON documents of
  a request are given decoded, as is the answer of the account server; times are in nanoseconds.
\<close>

abbreviation raw_url_decode :: "string \<Rightarrow> bytes option" where
  "raw_url_decode \<equiv> b64_decode url_alphabet False"

abbreviation raw_url_encode :: "bytes \<Rightarrow> string" where
  "raw_url_encode \<equiv> b64_encode url_alphabet False"

subsection \<open>The player of a request\<close>

text \<open>\<open>nil\<close> and an empty result are the same to its callers.\<close>

definition b64any :: "string \<Rightarrow> bytes" where
  "b64any s =
     (let s = trim_right (CHR ''='') s in
      case raw_url_decode s of
        Some b \<Rightarrow> b
      | None \<Rightarrow> (case b64_decode std_alphabet False s of Some b \<Rightarrow> b | None \<Rightarrow> []))"

text \<open>The claims of a token: subject, \<open>nnex\<close>, and whether it has a device claim.\<close>

record tokenClaims =
  tc_sub :: string
  tc_nnex :: string
  tc_device :: bool

definition claim_identity :: "tokenClaims \<Rightarrow> playerID \<Rightarrow> playerID" where
  "claim_identity c p =
     (let p = p\<lparr>pl_sub := tc_sub c\<rparr>;
          p = (if tc_device c then p\<lparr>pl_kind := ''ryujinx''\<rparr> else p);
          nn = trim_prefix ''nx2.'' (tc_nnex c);
          nn = (if dot \<in> set nn \<and> hd nn \<noteq> dot then takeWhile (\<lambda>x. x \<noteq> dot) nn else nn);
          dec = str_of (b64any nn)
      in if dec = '''' then p
         else
           let f = split_n dot 3 dec;
               p = (case parse_uint 64 (f ! 0) of Some v \<Rightarrow> p\<lparr>pl_pid := of_nat v\<rparr> | None \<Rightarrow> p)
           in if pl_username p = '''' \<and> length f > 1 then p\<lparr>pl_username := f ! 1\<rparr> else p)"

text \<open>
  \<open>extra\<close> is the decoded \<open>extra_data\<close> of the body, its user name and token; \<open>claims\<close> decodes the
  JSON of a token's second part.
\<close>

definition playerIdentity :: "(string \<times> string) option \<Rightarrow> (bytes \<Rightarrow> tokenClaims option) \<Rightarrow> playerID \<times> string" where
  "playerIdentity extra claims =
     (let p = \<lparr>pl_username = '''', pl_pid = 0, pl_sub = '''', pl_kind = ''switch'', pl_title = 0\<rparr> in
      case extra of
        None \<Rightarrow> (p, '''')
      | Some (username, token) \<Rightarrow>
          let p = p\<lparr>pl_username := username\<rparr>; parts = split_on dot token in
          if length parts < 2 then (p, '''')
          else
            (case claims (b64any (parts ! 1)) of
               None \<Rightarrow> (p, '''')
             | Some c \<Rightarrow> (claim_identity c p, tc_nnex c)))"

subsection \<open>Tokens\<close>

definition revokedNexPayloads :: "string list" where
  "revokedNexPayloads = [''1800000006.Kazuu.1787343209'']"

definition nex_mac :: "bytes \<Rightarrow> bytes \<Rightarrow> string" where
  "nex_mac secret raw = raw_url_encode (hmacSHA256 secret (lit ''nex:'' @ raw))"

text \<open>The player of a payload that has not expired.\<close>

definition payload_pid :: "int \<Rightarrow> string \<Rightarrow> u64 option" where
  "payload_pid now payload =
     (let f = split_n dot 3 payload in
      if length f \<noteq> 3 then None
      else
        (case parse_uint 64 (f ! 0) of
           None \<Rightarrow> None
         | Some p \<Rightarrow>
             (case parse_int64 (f ! 2) of
                None \<Rightarrow> None
              | Some e \<Rightarrow> if unix now > e then None else Some (of_nat p))))"

definition nextendoPIDFromToken :: "bytes \<Rightarrow> int \<Rightarrow> string \<Rightarrow> u64 option" where
  "nextendoPIDFromToken secret now s =
     (if secret = [] \<or> \<not> has_prefix ''nx2.'' s then None
      else
        let parts = split_on dot (drop 4 s) in
        if length parts \<noteq> 2 then None
        else
          (case raw_url_decode (parts ! 0) of
             None \<Rightarrow> None
           | Some raw \<Rightarrow>
               if nex_mac secret raw \<noteq> parts ! 1 then None
               else if str_of raw \<in> set revokedNexPayloads then None
               else payload_pid now (str_of raw)))"

text \<open>
  \<open>NEXTENDO_SECRET\<close>, or the decoded content of the key file when it has at least 16 bytes.
\<close>

definition loadNextendoSecret :: "string \<Rightarrow> bytes option \<Rightarrow> bytes" where
  "loadNextendoSecret env key_file =
     (if env \<noteq> '''' then lit env
      else (case key_file of Some k \<Rightarrow> if length k \<ge> 16 then k else [] | None \<Rightarrow> []))"

subsection \<open>Admission\<close>

record gates =
  ga_secret :: bytes
  ga_requireAccount :: bool
  ga_requireSignedToken :: bool

definition loadGates :: "string \<Rightarrow> bytes option \<Rightarrow> string \<Rightarrow> string \<Rightarrow> gates" where
  "loadGates secret key_file account signedToken =
     \<lparr>ga_secret = loadNextendoSecret secret key_file, ga_requireAccount = (account = ''1''),
      ga_requireSignedToken = (signedToken = ''1'' \<or> signedToken = ''true'')\<rparr>"

text \<open>The account server's decoded answer; without one everybody is allowed.\<close>

definition nextendoOnlineCheck :: "(bool \<times> string) option \<Rightarrow> bool \<times> string" where
  "nextendoOnlineCheck answer = (case answer of None \<Rightarrow> (True, '''') | Some a \<Rightarrow> a)"

datatype refusal = NotProven | NoAccount | OnlineCheck string

definition proven :: "gates \<Rightarrow> int \<Rightarrow> playerID \<Rightarrow> string \<Rightarrow> bool" where
  "proven g now p nnex \<longleftrightarrow>
     nnex \<noteq> '''' \<and> ga_secret g \<noteq> [] \<and> nextendoPIDFromToken (ga_secret g) now nnex = Some (pl_pid p)"

definition admitPlayer :: "gates \<Rightarrow> int \<Rightarrow> (bool \<times> string) option \<Rightarrow> playerID \<Rightarrow> string \<Rightarrow> refusal option" where
  "admitPlayer g now answer p nnex =
     (if ga_requireSignedToken g \<and> \<not> proven g now p nnex then Some NotProven
      else if pl_pid p = 0 then (if ga_requireAccount g then Some NoAccount else None)
      else
        (case nextendoOnlineCheck answer of (allow, reason) \<Rightarrow>
           if \<not> allow \<and> ga_requireAccount g then Some (OnlineCheck reason) else None))"

end
