(* ===== verification/Login.thy ===== *)
theory Login
  imports Identity Handshake Friends
begin

text \<open>
  The login server (\<open>auth.go\<close>), the signature of its replies (\<open>ctr_signing.go\<close>) and the second
  login of Crash Team Racing (\<open>ctr_umbrella.go\<close>). The session directory holds the issued tickets by
  file name and the identities by the 8-byte key in a ticket. \<open>clock i\<close> is the \<open>i\<close>-th reading of the
  clock; the random bytes, the output of OpenSSL and the verification of RSA-PSS are arguments.
\<close>

record sessDir =
  sd_tickets :: "((string \<times> string) \<times> bytes) list"
  sd_ids :: "bytes \<Rightarrow> playerID option"

definition ticketMagic :: u32 where "ticketMagic = 0xEFBDADDE"

subsection \<open>Tickets\<close>

definition titleOf :: "string \<Rightarrow> u32" where
  "titleOf s =
     (case parse_uint 32 s of Some v \<Rightarrow> if v \<noteq> 0 then of_nat v else 5745 | None \<Rightarrow> 5745)"

text \<open>128 bytes; without random bytes the key stays zero.\<close>

definition clientTicket :: "(nat \<Rightarrow> int) \<Rightarrow> u32 \<Rightarrow> u64 \<Rightarrow> bytes option \<Rightarrow> bytes" where
  "clientTicket clock title p rnd =
     (let (user, expiry) = (if title = 5775 then (p, p) else (1, word_of_int (unix (clock 1) + 86400)));
          key = (case rnd of Some k \<Rightarrow> k | None \<Rightarrow> replicate 64 0)
      in le32 ticketMagic @ [1] @ le32 title @ le32 0 @ le32 (word_of_int (unix (clock 0))) @
         le64 user @ le64 expiry @ key @ take 24 key @ replicate 7 0)"

text \<open>
  The files of a login: the ticket under the time and four bytes of its key, and the identity. The
  title is not stored. \<open>mkdir\<close>, \<open>tkt\<close> and \<open>idf\<close> tell whether the directory could be made and the
  files written.
\<close>

definition fmt_int :: "int \<Rightarrow> string" where
  "fmt_int v = (if v < 0 then CHR ''-'' # dec_string (nat (- v)) else dec_string (nat v))"

definition store_session ::
    "bool \<Rightarrow> bool \<Rightarrow> bool \<Rightarrow> int \<Rightarrow> bytes \<Rightarrow> playerID \<Rightarrow> sessDir \<Rightarrow> sessDir" where
  "store_session mkdir tkt idf now ticket p d =
     (if \<not> mkdir then d
      else
        let d = (if tkt then d\<lparr>sd_tickets := AList.update
                   (fmt_int (unix now), hex_string (subslice 33 37 ticket)) ticket (sd_tickets d)\<rparr> else d)
        in if idf then d\<lparr>sd_ids := (sd_ids d)(subslice 33 41 ticket \<mapsto> p\<lparr>pl_title := 0\<rparr>)\<rparr> else d)"

subsection \<open>The reply\<close>

definition authTask :: "string \<Rightarrow> string" where
  "authTask s = (case parse_int64 s of Some v \<Rightarrow> fmt_int (wrap64 (v + 1)) | None \<Rightarrow> ''79'')"

definition extra_json :: "u64 \<Rightarrow> string" where
  "extra_json p =
     json_members [(''extended_data'', json_string (''nextendo:'' @ fmt_u64 p)),
                   (''nso_subscription_status'', json_string ''1'')]"

definition auth_json :: "string \<Rightarrow> string \<Rightarrow> bytes \<Rightarrow> u64 \<Rightarrow> string" where
  "auth_json task seed ticket p =
     json_members [(''auth_task'', json_string (authTask task)), (''code'', json_string ''700''),
                   (''iv_seed'', json_string (if seed = '''' then ''0'' else seed)),
                   (''client_ticket'', json_string (std_encode ticket)),
                   (''server_ticket'', json_string (std_encode ticket)),
                   (''extra_data'', json_string (extra_json p))]"

text \<open>The signature from OpenSSL's output, checked before it is used.\<close>

definition ctr_sign :: "(bytes \<Rightarrow> bytes option) \<Rightarrow> (bytes \<Rightarrow> bytes \<Rightarrow> bool) \<Rightarrow> bytes \<Rightarrow> string option" where
  "ctr_sign openssl verifyPSS body =
     (case openssl (sha256 body) of
        None \<Rightarrow> None
      | Some sig \<Rightarrow>
          if length sig \<noteq> 256 then None
          else if \<not> verifyPSS (sha256 body) sig then None
          else Some (std_encode sig))"

record authRequest =
  ar_task :: string
  ar_seed :: string
  ar_title :: string
  ar_extra :: "(string \<times> string) option"

datatype authReply = Forbidden refusal | SigningFailed | Granted string "string option"

text \<open>What one login depends on besides its request.\<close>

record loginEnv =
  le_gates :: gates
  le_claims :: "bytes \<Rightarrow> tokenClaims option"
  le_answer :: "(bool \<times> string) option"
  le_clock :: "nat \<Rightarrow> int"
  le_random :: "bytes option"
  le_writes :: "bool \<times> bool \<times> bool"
  le_signer :: "(bytes \<Rightarrow> string option) option"

definition serveLogin :: "loginEnv \<Rightarrow> authRequest \<Rightarrow> sessDir \<Rightarrow> authReply \<times> sessDir" where
  "serveLogin env q d =
     (case playerIdentity (ar_extra q) (le_claims env) of (p, nnex) \<Rightarrow>
      case admitPlayer (le_gates env) (le_clock env 3) (le_answer env) p nnex of
        Some r \<Rightarrow> (Forbidden r, d)
      | None \<Rightarrow>
          let title = titleOf (ar_title q);
              ticket = clientTicket (le_clock env) title (pl_pid p) (le_random env);
              d = (case le_writes env of (mkdir, tkt, idf) \<Rightarrow>
                     store_session mkdir tkt idf (le_clock env 2) ticket p d);
              body = auth_json (ar_task q) (ar_seed q) ticket (pl_pid p)
          in if title = 5775 then
               (case le_signer env of
                  None \<Rightarrow> (Granted body None, d)
                | Some sign \<Rightarrow>
                    (case sign (lit body) of
                       None \<Rightarrow> (SigningFailed, d)
                     | Some s \<Rightarrow> (Granted body (Some s), d)))
             else (Granted body None, d))"

subsection \<open>Umbrella\<close>

definition jsonUint32 :: "string \<Rightarrow> u32 option" where
  "jsonUint32 b =
     map_option of_nat (parse_uint 32 (trim_right dquote (dropWhile (\<lambda>c. c = dquote) b)))"

datatype umbrellaReply = Deny nat | IssueToken u64 string int

definition ctr_ticket :: "bytes \<Rightarrow> bool" where
  "ctr_ticket t \<longleftrightarrow>
     length t = 128 \<and> le_word (take 4 t) = ticketMagic \<and> le_word (subslice 5 9 t) = (5775 :: u32)"

text \<open>
  \<open>q\<close> is the decoded request, the ticket and the text of the title, if the body could be decoded.
\<close>

definition handleCTRUmbrella ::
    "bool \<Rightarrow> (string \<times> string) option \<Rightarrow> (nat \<Rightarrow> int) \<Rightarrow> bytes option \<Rightarrow> sessDir \<Rightarrow> umbrellaReply" where
  "handleCTRUmbrella post q clock rnd d =
     (if \<not> post then Deny 405
      else
        (case q of
           None \<Rightarrow> Deny 400
         | Some (t64, title) \<Rightarrow>
             (case jsonUint32 title of
                None \<Rightarrow> Deny 400
              | Some title \<Rightarrow>
                  if title \<noteq> 5775 then Deny 400
                  else
                    (case std_decode t64 of
                       None \<Rightarrow> Deny 401
                     | Some ticket \<Rightarrow>
                         if \<not> ctr_ticket ticket then Deny 401
                         else if \<not> list_ex (\<lambda>(_, b). b = ticket) (sd_tickets d) then Deny 401
                         else if clock 0 - uint (le_word (subslice 13 17 ticket) :: u32) * 1000000000
                                 > 24 * 3600 * 1000000000 then Deny 401
                         else
                           (case sd_ids d (subslice 33 41 ticket) of
                              None \<Rightarrow> Deny 401
                            | Some p \<Rightarrow>
                                if pl_pid p = 0 then Deny 401
                                else
                                  (case rnd of
                                     None \<Rightarrow> Deny 500
                                   | Some token \<Rightarrow>
                                       IssueToken (pl_pid p) (raw_url_encode token)
                                         (unix (clock 1 + 3600 * 1000000000))))))))"

end
