(* ===== verification/LoginProps.thy ===== *)
theory LoginProps
  imports Login
begin

text \<open>Tokens are enforced, and a ticket that was issued works in every later step of a login.\<close>

subsection \<open>Tokens\<close>

text \<open>A token that proves a player at a moment.\<close>

definition proves :: "bytes \<Rightarrow> int \<Rightarrow> string \<Rightarrow> u64 \<Rightarrow> bool" where
  "proves secret now token p \<longleftrightarrow>
     (\<exists>part raw. token = ''nx2.'' @ part @ [dot] @ nex_mac secret raw \<and> raw_url_decode part = Some raw \<and>
        str_of raw \<notin> set revokedNexPayloads \<and> payload_pid now (str_of raw) = Some p)"

lemma nextendoPIDFromToken_proves:
  assumes "nextendoPIDFromToken secret now s = Some p"
  shows "secret \<noteq> [] \<and> proves secret now s p"
proof -
  define parts where "parts = split_on dot (drop 4 s)"
  have len: "length parts = 2" and "secret \<noteq> []" and pre: "has_prefix ''nx2.'' s"
    using assms by (auto simp: nextendoPIDFromToken_def parts_def Let_def split: if_splits)
  from pre have pre: "take 4 s = ''nx2.''" by (simp add: has_prefix_def numeral_eq_Suc)
  from len obtain a b where ab: "parts = [a, b]" by (auto simp: numeral_2_eq_2 length_Suc_conv)
  then have "drop 4 s = a @ dot # b" using split_on_two [of dot "drop 4 s" a b] by (simp add: parts_def)
  then have s: "s = ''nx2.'' @ a @ [dot] @ b" using append_take_drop_id [of 4 s] pre by simp
  obtain raw where "raw_url_decode a = Some raw" "nex_mac secret raw = b"
    "str_of raw \<notin> set revokedNexPayloads" "payload_pid now (str_of raw) = Some p"
    using assms ab unfolding nextendoPIDFromToken_def parts_def [symmetric]
    by (auto simp: Let_def split: if_splits option.splits)
  then show ?thesis using s \<open>secret \<noteq> []\<close> unfolding proves_def by blast
qed

text \<open>C8: When signed tokens are required, a ticket is issued only to a player whose number a token proves
  under the server's secret: with the right code, not revoked and not expired.\<close>

theorem signed_token_is_enforced:
  assumes "ga_requireSignedToken (le_gates env)"
    and "serveLogin env q d = (Granted body sg, d')"
    and "playerIdentity (ar_extra q) (le_claims env) = (p, nnex)"
  shows "ga_secret (le_gates env) \<noteq> [] \<and>
    proves (ga_secret (le_gates env)) (le_clock env 3) nnex (pl_pid p)"
proof -
  have "admitPlayer (le_gates env) (le_clock env 3) (le_answer env) p nnex = None"
    using assms(2,3) by (auto simp: serveLogin_def split: option.splits)
  then have "proven (le_gates env) (le_clock env 3) p nnex"
    using assms(1) by (auto simp: admitPlayer_def split: if_splits)
  then show ?thesis using nextendoPIDFromToken_proves by (auto simp: proven_def)
qed

text \<open>The token the account server makes for a player.\<close>

definition nex_payload :: "u64 \<Rightarrow> string \<Rightarrow> nat \<Rightarrow> string" where
  "nex_payload p name expiry = fmt_u64 p @ [dot] @ name @ [dot] @ dec_string expiry"

definition mint :: "bytes \<Rightarrow> string \<Rightarrow> string" where
  "mint secret payload =
     ''nx2.'' @ raw_url_encode (lit payload) @ [dot] @ nex_mac secret (lit payload)"

lemma url_plain: "c \<in> set (raw_url_encode bs) \<Longrightarrow> c \<in> set url_alphabet"
  using url_alphabet_ok sixbits unat_byte_less
  by (induction url_alphabet False bs rule: b64_encode.induct) (auto simp: alphabet_ok_def intro!: nth_mem)

lemma url_no_dot: "dot \<notin> set (raw_url_encode bs)"
  using url_plain by (auto simp: url_alphabet_def)

lemma split_payload:
  "dot \<notin> set name \<Longrightarrow> split_n dot 3 (nex_payload p name e) = [fmt_u64 p, name, dec_string e]"
  using no_dot [of "unat p"]
  by (simp add: nex_payload_def fmt_u64_def numeral_3_eq_3 takeWhile_append2 dropWhile_append2)
     (auto simp: takeWhile_append dropWhile_append)

lemma parse_int64_dec: "e < 2 ^ 63 \<Longrightarrow> parse_int64 (dec_string e) = Some (int e)"
proof -
  obtain c cs where c: "dec_string e = c # cs" by (cases "dec_string e") simp_all
  then have "digit_value c \<noteq> None" using digits_dec_string [of c e] by simp
  then have "c \<noteq> CHR ''-''" "c \<noteq> CHR ''+''" by (auto simp: digit_value_def)
  then have "split_sign (dec_string e) = (False, dec_string e)" using c by (simp add: split_sign_def)
  moreover assume "e < 2 ^ 63"
  ultimately show ?thesis by (simp add: parse_int64_def in_i64_def)
qed

text \<open>A token that was made for a player is accepted until it expires, and shows the same player.\<close>

lemma minted_token_accepted:
  assumes "secret \<noteq> []" and "dot \<notin> set name" and "e < 2 ^ 63" and "unix now \<le> int e"
    and "nex_payload p name e \<notin> set revokedNexPayloads"
  shows "nextendoPIDFromToken secret now (mint secret (nex_payload p name e)) = Some p"
proof -
  let ?pay = "nex_payload p name e"
  have "dot \<notin> set (nex_mac secret (lit ?pay))" by (simp add: nex_mac_def url_no_dot)
  then have parts: "split_on dot (drop 4 (mint secret ?pay)) = [raw_url_encode (lit ?pay), nex_mac secret (lit ?pay)]"
    using url_no_dot by (simp add: mint_def split_on_join split_on_none)
  have "parse_uint 64 (fmt_u64 p) = Some (unat p)"
    unfolding fmt_u64_def by (rule parse_uint_dec_string) (use unsigned_less [of p, where ?'a = nat] in simp)
  then have pay: "payload_pid now ?pay = Some p"
    using assms(3,4) by (simp add: payload_pid_def split_payload [OF assms(2)] parse_int64_dec Let_def)
  have "has_prefix ''nx2.'' (mint secret ?pay)" by (simp add: has_prefix_def mint_def)
  then show ?thesis
    using assms(1,5) pay by (simp add: nextendoPIDFromToken_def parts b64_round_trip url_alphabet_ok)
qed

subsection \<open>A login\<close>

lemma ticket_layout:
  assumes "t = le32 m @ [v] @ le32 title @ le32 z @ le32 secs @ le64 u @ le64 e @ key @ lobby @ replicate 7 0"
    and "length key = 64" and "length lobby = 24"
  shows "length t = 128" and "le_word (take 4 t) = m" and "le_word (subslice 5 9 t) = title"
    and "le_word (subslice 13 17 t) = secs" and "subslice 33 41 t = take 8 key"
    and "subslice 33 57 t = take 24 key" and "subslice 97 121 t = lobby"
  using assms(2,3) by (simp_all add: assms(1) subslice_def le_word_le_bytes)

lemma issued_ticket:
  fixes clock title p rnd
  assumes "rnd = Some key" and "length key = 64"
  defines "t \<equiv> clientTicket clock title p rnd"
  shows "length t = 128" and "le_word (take 4 t) = ticketMagic" and "le_word (subslice 5 9 t) = title"
    and "le_word (subslice 13 17 t) = (word_of_int (unix (clock 0)) :: u32)"
    and "subslice 33 41 t = take 8 key" and "subslice 33 57 t = take 24 key"
    and "subslice 97 121 t = take 24 key"
proof -
  obtain u e where "t = le32 ticketMagic @ [1] @ le32 title @ le32 0 @ le32 (word_of_int (unix (clock 0))) @
      le64 u @ le64 e @ key @ take 24 key @ replicate 7 0"
    using assms(1) by (cases "title = 5775") (simp_all add: t_def clientTicket_def)
  note layout = ticket_layout [OF this assms(2)]
  from layout assms(2) show "length t = 128" "le_word (take 4 t) = ticketMagic" "le_word (subslice 5 9 t) = title"
    "le_word (subslice 13 17 t) = (word_of_int (unix (clock 0)) :: u32)" "subslice 33 41 t = take 8 key"
    "subslice 33 57 t = take 24 key" "subslice 97 121 t = take 24 key" by simp_all
qed

text \<open>
  Later logins. A login writes its ticket under the second and the first four bytes of its key, and its
  identity under the first eight; without random bytes the key is zero. \<open>later_logins key d d'\<close>: from
  the directory \<open>d\<close> any logins with any outcome, none with a key that starts with the same four bytes,
  lead to \<open>d'\<close>.
\<close>

definition login_key :: "loginEnv \<Rightarrow> bytes" where
  "login_key env = (case le_random env of Some k \<Rightarrow> k | None \<Rightarrow> replicate 64 0)"

inductive later_logins :: "bytes \<Rightarrow> sessDir \<Rightarrow> sessDir \<Rightarrow> bool" for key :: bytes where
  none: "later_logins key d d"
| login: "later_logins key d d1 \<Longrightarrow> length (login_key env) = 64 \<Longrightarrow> take 4 (login_key env) \<noteq> take 4 key \<Longrightarrow>
    serveLogin env q d1 = (r, d2) \<Longrightarrow> later_logins key d d2"

lemma hex_char_inj: "a < 16 \<Longrightarrow> b < 16 \<Longrightarrow> hex_char a = hex_char b \<longleftrightarrow> a = b"
proof -
  have "distinct (map hex_char [0..<16])" by code_simp
  then show "a < 16 \<Longrightarrow> b < 16 \<Longrightarrow> hex_char a = hex_char b \<longleftrightarrow> a = b"
    by (auto simp: distinct_map inj_on_def)
qed

lemma hex_string_Cons:
  "hex_string (x # xs) = hex_char (unat x div 16) # hex_char (unat x mod 16) # hex_string xs"
  by (simp add: hex_string_def)

lemma hex_byte_inj:
  fixes x y :: byte
  shows "hex_char (unat x div 16) = hex_char (unat y div 16) \<and>
    hex_char (unat x mod 16) = hex_char (unat y mod 16) \<longleftrightarrow> x = y"
proof -
  have lt: "unat z div 16 < 16" for z :: byte using unat_byte_less [of z] by auto
  have "unat x = unat y" if "unat x div 16 = unat y div 16" "unat x mod 16 = unat y mod 16"
    using that by (metis div_mult_mod_eq)
  then show ?thesis using lt by (auto simp: hex_char_inj word_unat_eq_iff)
qed

lemma hex_string_inj: "hex_string a = hex_string b \<longleftrightarrow> a = b"
proof (induction a arbitrary: b)
  case Nil
  then show ?case by (cases b) (simp_all add: hex_string_def)
next
  case (Cons x xs)
  show ?case
  proof (cases b)
    case Nil
    then show ?thesis by (simp add: hex_string_def)
  next
    case (Cons y ys)
    then show ?thesis using Cons.IH [of ys] hex_byte_inj [of x y] by (simp add: hex_string_Cons) metis
  qed
qed

text \<open>The parts of a ticket that name its files.\<close>

lemma ticket_names:
  fixes rnd clock title p
  assumes "length (case rnd of Some k \<Rightarrow> k | None \<Rightarrow> replicate 64 0) = 64"
  defines "t \<equiv> clientTicket clock title p rnd"
  shows "subslice 33 37 t = take 4 (case rnd of Some k \<Rightarrow> k | None \<Rightarrow> replicate 64 0)"
    and "subslice 33 41 t = take 8 (case rnd of Some k \<Rightarrow> k | None \<Rightarrow> replicate 64 0)"
proof -
  obtain a b key where t: "t = a @ key @ b" and a: "length a = 33" and key: "key = (case rnd of Some k \<Rightarrow> k | None \<Rightarrow> replicate 64 0)"
  proof -
    let ?key = "case rnd of Some k \<Rightarrow> k | None \<Rightarrow> replicate 64 0"
    obtain u e where ue: "(if title = 5775 then (p, p) else (1, word_of_int (unix (clock 1) + 86400))) = (u, e)"
      by (metis surj_pair)
    have "t = (le32 ticketMagic @ [1] @ le32 title @ le32 0 @ le32 (word_of_int (unix (clock 0))) @
        le64 u @ le64 e) @ ?key @ (take 24 ?key @ replicate 7 0)"
      by (simp only: t_def clientTicket_def ue Let_def prod.case append_assoc)
    then show thesis by (rule that) (simp_all add: length_le_bytes)
  qed
  have len: "length key = 64" using assms(1) key by simp
  show "subslice 33 37 t = take 4 (case rnd of Some k \<Rightarrow> k | None \<Rightarrow> replicate 64 0)"
    and "subslice 33 41 t = take 8 (case rnd of Some k \<Rightarrow> k | None \<Rightarrow> replicate 64 0)"
    unfolding key [symmetric] t by (simp_all add: subslice_def a len)
qed

text \<open>What a login leaves behind is not touched by later ones.\<close>

lemma later_logins_keep:
  assumes "later_logins key d d2" and "length key = 64"
    and "map_of (sd_tickets d) (sec, hex_string (take 4 key)) = Some t" and "sd_ids d (take 8 key) = Some p"
  shows "map_of (sd_tickets d2) (sec, hex_string (take 4 key)) = Some t \<and> sd_ids d2 (take 8 key) = Some p"
  using assms
proof (induction rule: later_logins.induct)
  case (login d d1 env q r d2)
  have ne: "take 8 (login_key env) \<noteq> take 8 key"
    using login.hyps(3) by (metis min.absorb1 nle_le numeral_le_iff semiring_norm(69,71) take_take)
  obtain ticket who where names: "subslice 33 37 ticket = take 4 (login_key env)"
      "subslice 33 41 ticket = take 8 (login_key env)"
    and d2: "d2 = d1 \<or> (\<exists>mk tkt idf now. d2 = store_session mk tkt idf now ticket who d1)"
  proof -
    obtain p nnex where pn: "playerIdentity (ar_extra q) (le_claims env) = (p, nnex)" by fastforce
    let ?t = "clientTicket (le_clock env) (titleOf (ar_title q)) (pl_pid p) (le_random env)"
    have "d2 = d1 \<or> (\<exists>mk tkt idf now. d2 = store_session mk tkt idf now ?t p d1)"
      using login.hyps(4) unfolding serveLogin_def pn
      by (auto simp: Let_def split: option.splits if_splits prod.splits)
    then show thesis
      by (rule that [rotated 2])
        (use ticket_names [of "le_random env"] login.hyps(2) in \<open>simp_all add: login_key_def\<close>)
  qed
  have "map_of (sd_tickets d1) (sec, hex_string (take 4 key)) = Some t \<and> sd_ids d1 (take 8 key) = Some p"
    using login.IH login.prems by blast
  then show ?case
    using d2 ne [symmetric] login.hyps(3) [symmetric]
    by (elim disjE exE) (simp_all add: store_session_def names update_conv hex_string_inj Let_def)
qed simp

text \<open>What a granted login leaves, in every later directory.\<close>

lemma granted_files:
  fixes env q d
  assumes "serveLogin env q d = (Granted body sg, d')"
    and "playerIdentity (ar_extra q) (le_claims env) = (p, nnex)"
    and "le_random env = Some key" and "length key = 64" and "le_writes env = (True, True, True)"
    and "later_logins key d' d2"
  defines "t \<equiv> clientTicket (le_clock env) (titleOf (ar_title q)) (pl_pid p) (le_random env)"
  shows "body = auth_json (ar_task q) (ar_seed q) t (pl_pid p)"
    and "t \<in> set (map snd (sd_tickets d2))"
    and "sd_ids d2 (subslice 33 41 t) = Some (p\<lparr>pl_title := 0\<rparr>)"
proof -
  note f = issued_ticket [OF assms(3,4), of "le_clock env" "titleOf (ar_title q)" "pl_pid p", folded t_def]
  have names: "subslice 33 37 t = take 4 key" "subslice 33 41 t = take 8 key"
    using ticket_names [of "Some key" "le_clock env" "titleOf (ar_title q)" "pl_pid p"] assms(3,4)
    by (simp_all add: t_def)
  have d': "d' = store_session True True True (le_clock env 2) t p d"
    using assms(1,2,5) by (auto simp: serveLogin_def t_def Let_def split: option.splits if_splits)
  show "body = auth_json (ar_task q) (ar_seed q) t (pl_pid p)"
    using assms(1,2,5) by (auto simp: serveLogin_def t_def Let_def split: option.splits if_splits)
  have "map_of (sd_tickets d') (fmt_int (unix (le_clock env 2)), hex_string (take 4 key)) = Some t"
    "sd_ids d' (take 8 key) = Some (p\<lparr>pl_title := 0\<rparr>)"
    by (simp_all add: d' store_session_def names update_conv Let_def)
  note kept = later_logins_keep [OF assms(6,4) this]
  from kept show "sd_ids d2 (subslice 33 41 t) = Some (p\<lparr>pl_title := 0\<rparr>)" by (simp add: names)
  from kept show "t \<in> set (map snd (sd_tickets d2))" by (force dest: map_of_SomeD)
qed

text \<open>The lobby finds the player of a granted login under the ticket, when he has a user name; the
  connection of a login without one waits for its player.\<close>

lemma granted_player:
  fixes env q d
  assumes "serveLogin env q d = (Granted body sg, d')"
    and "playerIdentity (ar_extra q) (le_claims env) = (p, nnex)"
    and "le_random env = Some key" and "length key = 64" and "le_writes env = (True, True, True)"
    and "later_logins key d' d2"
  defines "t \<equiv> clientTicket (le_clock env) (titleOf (ar_title q)) (pl_pid p) (le_random env)"
  shows "loadIdentity (sd_ids d2) n t s =
    (if pl_username p = '''' then s\<lparr>so_pending := (so_pending s)(n \<mapsto> t)\<rparr>
     else s\<lparr>so_players := (so_players s)(n \<mapsto> p\<lparr>pl_title := titleOf (ar_title q)\<rparr>),
            so_online := (so_online s)(n \<mapsto> p\<lparr>pl_title := titleOf (ar_title q)\<rparr>),
            so_pending := (so_pending s)(n := None)\<rparr>)"
  using issued_ticket(1,3) [OF assms(3,4), of "le_clock env" "titleOf (ar_title q)" "pl_pid p", folded t_def]
    granted_files(3) [OF assms(1-6), folded t_def]
  by (simp add: loadIdentity_def tryIdentity_def Let_def)

text \<open>C9: A login that is granted, with 64 random bytes and its files written, gives a ticket that
  works afterwards, whatever logins follow (as long as none draws a key with the same first four
  bytes). A handshake that shows the ticket has its key as the first candidate, and any other
  handshake has it among the candidates while the file is read (for 72 hours). The lobby finds the player under the
  ticket, with the title of the ticket; when the login had no user name, the connection is kept waiting
  and no player becomes online. For Crash Team Racing and a known player, the second login gives the token of
  the same player for a day.\<close>

theorem issued_ticket_is_accepted:
  fixes env q d
  assumes "serveLogin env q d = (Granted body sg, d')"
    and "playerIdentity (ar_extra q) (le_claims env) = (p, nnex)"
    and "le_random env = Some key" and "length key = 64" and "le_writes env = (True, True, True)"
    and "later_logins key d' d2"
  defines "t \<equiv> clientTicket (le_clock env) (titleOf (ar_title q)) (pl_pid p) (le_random env)"
  shows "body = auth_json (ar_task q) (ar_seed q) t (pl_pid p) \<and>
    (findTicket raw = Some t \<longrightarrow> hd (candidates files raw) = take 24 key) \<and>
    take 24 key \<in> set (candidates (map snd (sd_tickets d2)) raw) \<and>
    (if pl_username p = ''''
     then so_online (loadIdentity (sd_ids d2) n t s) = so_online s \<and>
       so_pending (loadIdentity (sd_ids d2) n t s) n = Some t
     else so_online (loadIdentity (sd_ids d2) n t s) n = Some (p\<lparr>pl_title := titleOf (ar_title q)\<rparr>)) \<and>
    (if titleOf (ar_title q) = 5775 \<and> pl_pid p \<noteq> 0 \<and>
        0 \<le> unix (le_clock env 0) \<and> unix (le_clock env 0) < 2 ^ 32 \<and>
        clock 0 \<le> (unix (le_clock env 0) + 24 * 3600) * 1000000000
     then handleCTRUmbrella True (Some (std_encode t, ''5775'')) clock (Some tok) d2 =
       IssueToken (pl_pid p) (raw_url_encode tok) (unix (clock 1 + 3600 * 1000000000))
     else True)"
proof -
  note f = issued_ticket [OF assms(3,4), of "le_clock env" "titleOf (ar_title q)" "pl_pid p", folded t_def]
  note files = granted_files [OF assms(1-6), folded t_def]
  have first: "hd (candidates files raw) = take 24 key" if "findTicket raw = Some t"
    using that f(7) by (simp add: candidates_def ticket_keys_def)
  have cand: "take 24 key \<in> set (candidates (map snd (sd_tickets d2)) raw)"
    using files(2) f(1,7) by (force simp: candidates_def ticket_keys_def)
  have title: "jsonUint32 ''5775'' = Some 5775"
    by (simp add: jsonUint32_def trim_right_def dquote_def parse_uint_def parse_dec_def digit_value_def
        char_of_def)
  have umbrella: "handleCTRUmbrella True (Some (std_encode t, ''5775'')) clock (Some tok) d2 =
      IssueToken (pl_pid p) (raw_url_encode tok) (unix (clock 1 + 3600 * 1000000000))"
    if "titleOf (ar_title q) = 5775" "pl_pid p \<noteq> 0" "0 \<le> unix (le_clock env 0)" "unix (le_clock env 0) < 2 ^ 32"
      "clock 0 \<le> (unix (le_clock env 0) + 24 * 3600) * 1000000000"
  proof -
    have "ctr_ticket t" using f(1-3) that(1) by (simp add: ctr_ticket_def)
    moreover have "list_ex (\<lambda>(_, b). b = t) (sd_tickets d2)" using files(2) by (force simp: list_ex_iff)
    moreover have "uint (le_word (subslice 13 17 t) :: u32) = unix (le_clock env 0)"
      using that(3,4) by (simp add: f(4) unsigned_of_int take_bit_int_eq_self)
    ultimately show ?thesis
      using that(2,5) files(3) by (simp add: handleCTRUmbrella_def title b64_round_trip std_alphabet_ok)
  qed
  show ?thesis
    using files(1) first cand umbrella granted_player [OF assms(1-6), folded t_def, of n s] by simp
qed

subsection \<open>An example\<close>

lemma trim_url: "trim_right (CHR ''='') (raw_url_encode bs) = raw_url_encode bs"
proof -
  have "CHR ''='' \<notin> set (raw_url_encode bs)" using url_plain by (auto simp: url_alphabet_def)
  then have "dropWhile (\<lambda>x. x = CHR ''='') (rev (raw_url_encode bs)) = rev (raw_url_encode bs)"
    by (cases "rev (raw_url_encode bs)") (auto dest: arg_cong [of _ _ set])
  then show ?thesis by (simp add: trim_right_def)
qed

text \<open>The player read from a login's token is the one the token proves.\<close>

lemma minted_claim:
  assumes "dot \<notin> set name" and "pl_username q \<noteq> ''''"
  shows "claim_identity \<lparr>tc_sub = s, tc_nnex = mint secret (nex_payload p name e), tc_device = False\<rparr> q =
    q\<lparr>pl_sub := s, pl_pid := p\<rparr>"
proof -
  let ?pay = "nex_payload p name e"
  have nn: "trim_prefix ''nx2.'' (mint secret ?pay) = raw_url_encode (lit ?pay) @ dot # nex_mac secret (lit ?pay)"
    by (simp add: trim_prefix_def has_prefix_def mint_def)
  have ne: "raw_url_encode (lit ?pay) \<noteq> []"
    using b64_round_trip [OF url_alphabet_ok, of False "lit ?pay"]
    by (auto simp: nex_payload_def lit_def b64_decode_def)
  then have hd: "hd (raw_url_encode (lit ?pay) @ dot # nex_mac secret (lit ?pay)) \<noteq> dot"
    using url_no_dot [of "lit ?pay"] by (cases "raw_url_encode (lit ?pay)") auto
  have cut: "takeWhile (\<lambda>x. x \<noteq> dot) (raw_url_encode (lit ?pay) @ dot # nex_mac secret (lit ?pay)) = raw_url_encode (lit ?pay)"
    using url_no_dot [of "lit ?pay"] by (subst takeWhile_append2) auto
  have dec: "str_of (b64any (raw_url_encode (lit ?pay))) = ?pay"
    by (simp add: b64any_def trim_url b64_round_trip url_alphabet_ok)
  have "parse_uint 64 (fmt_u64 p) = Some (unat p)"
    unfolding fmt_u64_def by (rule parse_uint_dec_string) (use unsigned_less [of p, where ?'a = nat] in simp)
  moreover have "?pay \<noteq> ''''" by (simp add: nex_payload_def)
  ultimately show ?thesis
    using assms(2) hd by (simp add: claim_identity_def nn cut dec split_payload [OF assms(1)] Let_def)
qed

definition ex_token :: string where "ex_token = mint [1] (nex_payload 7 ''ana'' 100)"

definition ex_env :: loginEnv where
  "ex_env = \<lparr>le_gates = \<lparr>ga_secret = [1], ga_requireAccount = True, ga_requireSignedToken = True\<rparr>,
     le_claims = (\<lambda>_. Some \<lparr>tc_sub = '''', tc_nnex = ex_token, tc_device = False\<rparr>),
     le_answer = Some (True, ''''), le_clock = (\<lambda>_. 9000000000), le_random = Some (replicate 64 3),
     le_writes = (True, True, True), le_signer = None\<rparr>"

definition ex_login :: authRequest where
  "ex_login = \<lparr>ar_task = ''78'', ar_seed = '''', ar_title = ''5775'', ar_extra = Some (''ana'', ''a.b.c'')\<rparr>"

definition ex_dir :: sessDir where "ex_dir = \<lparr>sd_tickets = [], sd_ids = Map.empty\<rparr>"

definition ex_social :: social where
  "ex_social = \<lparr>so_players = Map.empty, so_online = Map.empty, so_pending = Map.empty, so_rich = Map.empty,
     so_userData = Map.empty, so_aliases = Map.empty, so_aliasLoaded = 0, so_cache = [], so_down = 0\<rparr>"

definition ex_id :: playerID where
  "ex_id = \<lparr>pl_username = ''ana'', pl_pid = 7, pl_sub = '''', pl_kind = ''switch'', pl_title = 0\<rparr>"

lemma ex_identity: "playerIdentity (ar_extra ex_login) (le_claims ex_env) = (ex_id, ex_token)"
proof -
  have "split_on dot ''a.b.c'' = [''a'', ''b'', ''c'']" by simp
  then show ?thesis
    unfolding playerIdentity_def ex_login_def ex_env_def ex_token_def
    by (simp add: minted_claim ex_id_def Let_def)
qed

lemma ex_proven: "nextendoPIDFromToken [1] 9000000000 ex_token = Some 7"
proof -
  have "nex_payload 7 ''ana'' 100 \<noteq> ''1800000006.Kazuu.1787343209''"
    by (simp add: nex_payload_def fmt_u64_def dec_string.simps [of 7] digit_char_def char_of_def)
  then show ?thesis
    unfolding ex_token_def by (intro minted_token_accepted) (simp_all add: unix_def revokedNexPayloads_def)
qed

lemma ex_granted: "\<exists>body d1. serveLogin ex_env ex_login ex_dir = (Granted body None, d1)"
proof -
  have "admitPlayer (le_gates ex_env) (le_clock ex_env 3) (le_answer ex_env) ex_id ex_token = None"
    using ex_proven by (simp add: admitPlayer_def proven_def ex_env_def ex_id_def nextendoOnlineCheck_def ex_token_def mint_def)
  then show ?thesis
    unfolding serveLogin_def ex_identity by (simp add: Let_def) (simp add: ex_env_def)
qed

lemma signed_token_is_enforced_witness:
  "\<exists>body d1. serveLogin ex_env ex_login ex_dir = (Granted body None, d1) \<and>
     proves [1] 9000000000 ex_token 7"
proof -
  obtain body d1 where g: "serveLogin ex_env ex_login ex_dir = (Granted body None, d1)" using ex_granted by blast
  have "ga_requireSignedToken (le_gates ex_env)" by (simp add: ex_env_def)
  from signed_token_is_enforced [OF this g ex_identity] have "proves [1] 9000000000 ex_token 7"
    by (simp add: ex_env_def ex_id_def)
  with g show ?thesis by blast
qed

lemma issued_ticket_is_accepted_witness:
  "\<exists>body d1 t. serveLogin ex_env ex_login ex_dir = (Granted body None, d1) \<and>
     so_online (loadIdentity (sd_ids d1) 4 t ex_social) 4 = Some (ex_id\<lparr>pl_title := 5775\<rparr>) \<and>
     handleCTRUmbrella True (Some (std_encode t, ''5775'')) (\<lambda>_. 10000000000) (Some [9]) d1 =
       IssueToken 7 (raw_url_encode [9]) 3610"
proof -
  obtain body d1 where g: "serveLogin ex_env ex_login ex_dir = (Granted body None, d1)" using ex_granted by blast
  have title: "titleOf (ar_title ex_login) = 5775"
    by (simp add: titleOf_def ex_login_def parse_uint_def parse_dec_def digit_value_def)
  have env: "le_random ex_env = Some (replicate 64 3)" "length (replicate 64 (3 :: byte)) = 64"
      "le_writes ex_env = (True, True, True)" "pl_username ex_id \<noteq> ''''" "unix (le_clock ex_env 0) = 9"
      "pl_pid ex_id = 7"
    by (simp_all add: ex_env_def ex_id_def unix_def)
  from issued_ticket_is_accepted [OF g ex_identity env(1-3) later_logins.none, of _ _ 4 ex_social "\<lambda>_. 10000000000" "[9]"] g
  show ?thesis by (simp add: title env(4-6)) (simp add: unix_def, blast)
qed

end
