(* ===== verification/Dates.thy ===== *)
theory Dates
  imports Calendar
begin

text \<open>
  The dates of the publisher files, as Go's \<open>time\<close> package prints and parses them for the layouts
  \<open>2006-01\<close>, \<open>2006-01-02\<close> and \<open>Mon, 02 Jan 2006 15:04:05 GMT\<close>, in UTC and from the year 0 on.
  A day is its number since 1970-01-01, and a moment is in seconds since then.
\<close>

subsection \<open>Days\<close>

definition year_start :: "nat \<Rightarrow> int" where
  "year_start y = int (sum_list (map year_days [0..<y])) - int (sum_list (map year_days [0..<1970]))"

definition epoch_day :: "nat \<Rightarrow> nat \<Rightarrow> nat \<Rightarrow> int" where
  "epoch_day y m d = year_start y + int (sum_list (take (m - 1) (month_lengths y))) + int d - 1"

definition civil_date :: "int \<Rightarrow> nat \<times> nat \<times> nat" where
  "civil_date n =
     (case year_loop 0 (nat (n - year_start 0)) of (y, r) \<Rightarrow>
        (case month_loop (month_lengths y) 1 r of (m, d) \<Rightarrow> (y, m, d)))"

definition date_ok :: "nat \<Rightarrow> nat \<Rightarrow> nat \<Rightarrow> bool" where
  "date_ok y m d \<longleftrightarrow> 1 \<le> m \<and> m \<le> 12 \<and> 1 \<le> d \<and> d \<le> month_lengths y ! (m - 1)"

subsection \<open>Printing\<close>

definition day_names :: "string list" where
  "day_names = [''Sun'', ''Mon'', ''Tue'', ''Wed'', ''Thu'', ''Fri'', ''Sat'']"

definition month_names :: "string list" where
  "month_names = [''Jan'', ''Feb'', ''Mar'', ''Apr'', ''May'', ''Jun'', ''Jul'', ''Aug'', ''Sep'', ''Oct'', ''Nov'', ''Dec'']"

definition clock_string :: "nat \<Rightarrow> string" where
  "clock_string s = pad_dec 2 (s div 3600) @ '':'' @ pad_dec 2 (s div 60 mod 60) @ '':'' @ pad_dec 2 (s mod 60)"

definition gmt_string :: "int \<Rightarrow> string" where
  "gmt_string secs =
     (case civil_date (secs div 86400) of (y, m, d) \<Rightarrow>
        day_names ! nat (weekday secs) @ '', '' @ pad_dec 2 d @ '' '' @ month_names ! (m - 1) @ '' '' @
        pad_dec 4 y @ '' '' @ clock_string (nat (secs mod 86400)) @ '' GMT'')"

subsection \<open>Parsing\<close>

text \<open>A number of one or two digits; the layouts with a leading zero ask for two.\<close>

fun getnum :: "bool \<Rightarrow> string \<Rightarrow> (nat \<times> string) option" where
  "getnum fixed [] = None"
| "getnum fixed [a] = (if fixed then None else map_option (\<lambda>x. (x, [])) (digit_value a))"
| "getnum fixed (a # b # s) =
     (case digit_value a of
        None \<Rightarrow> None
      | Some x \<Rightarrow>
          (case digit_value b of
             None \<Rightarrow> if fixed then None else Some (x, b # s)
           | Some y \<Rightarrow> Some (x * 10 + y, s)))"

definition get_year :: "string \<Rightarrow> (nat \<times> string) option" where
  "get_year s =
     (if length s < 4 then None else map_option (\<lambda>y. (y, drop 4 s)) (parse_dec (take 4 s)))"

text \<open>A name of a table, letters folded, as its index.\<close>

fun look_up :: "nat \<Rightarrow> string list \<Rightarrow> string \<Rightarrow> (nat \<times> string) option" where
  "look_up i [] s = None"
| "look_up i (n # ns) s =
     (if length n \<le> length s \<and> equal_fold (take (length n) s) n then Some (i, drop (length n) s)
      else look_up (Suc i) ns s)"

text \<open>The text between two elements of a layout; a space stands for any number of them.\<close>

abbreviation no_space :: "string \<Rightarrow> string" where "no_space \<equiv> dropWhile (\<lambda>c. c = CHR '' '')"

function skip :: "string \<Rightarrow> string \<Rightarrow> string option" where
  "skip [] s = Some s"
| "skip (c # p) s =
     (if c = CHR '' '' then
        (if s \<noteq> [] \<and> hd s \<noteq> CHR '' '' then None else skip (no_space p) (no_space s))
      else (case s of [] \<Rightarrow> None | d # s \<Rightarrow> if d = c then skip p s else None))"
  by pat_completeness auto
termination
  by (relation "measure (\<lambda>(p, _). length p)") (auto simp: le_imp_less_Suc length_dropWhile_le)

definition fraction :: "string \<Rightarrow> string" where
  "fraction s =
     (if length s \<ge> 2 \<and> hd s \<in> {CHR ''.'', CHR '',''} \<and> digit_value (s ! 1) \<noteq> None
      then dropWhile (\<lambda>c. digit_value c \<noteq> None) (tl s) else s)"

definition get_month :: "string \<Rightarrow> (nat \<times> string) option" where
  "get_month s =
     (case getnum True s of Some (m, s) \<Rightarrow> if 1 \<le> m \<and> m \<le> 12 then Some (m, s) else None | None \<Rightarrow> None)"

definition get_below :: "nat \<Rightarrow> bool \<Rightarrow> string \<Rightarrow> (nat \<times> string) option" where
  "get_below n fixed s =
     (case getnum fixed s of Some (v, s) \<Rightarrow> if v < n then Some (v, s) else None | None \<Rightarrow> None)"

definition parse_month :: "string \<Rightarrow> (nat \<times> nat \<times> nat) option" where
  "parse_month s =
     (case get_year s of None \<Rightarrow> None | Some (y, s) \<Rightarrow>
     (case skip ''-'' s of None \<Rightarrow> None | Some s \<Rightarrow>
     (case get_month s of None \<Rightarrow> None | Some (m, s) \<Rightarrow>
        if s = [] then Some (y, m, 1) else None)))"

definition parse_day :: "string \<Rightarrow> (nat \<times> nat \<times> nat) option" where
  "parse_day s =
     (case get_year s of None \<Rightarrow> None | Some (y, s) \<Rightarrow>
     (case skip ''-'' s of None \<Rightarrow> None | Some s \<Rightarrow>
     (case get_month s of None \<Rightarrow> None | Some (m, s) \<Rightarrow>
     (case skip ''-'' s of None \<Rightarrow> None | Some s \<Rightarrow>
     (case getnum True s of None \<Rightarrow> None | Some (d, s) \<Rightarrow>
        if s = [] \<and> date_ok y m d then Some (y, m, d) else None)))))"

definition parse_clock :: "string \<Rightarrow> (nat \<times> string) option" where
  "parse_clock s =
     (case get_below 24 False s of None \<Rightarrow> None | Some (h, s) \<Rightarrow>
     (case skip '':'' s of None \<Rightarrow> None | Some s \<Rightarrow>
     (case get_below 60 True s of None \<Rightarrow> None | Some (mi, s) \<Rightarrow>
     (case skip '':'' s of None \<Rightarrow> None | Some s \<Rightarrow>
     (case get_below 60 True s of None \<Rightarrow> None | Some (se, s) \<Rightarrow>
        Some (h * 3600 + mi * 60 + se, fraction s))))))"

text \<open>The day of the week is read and not compared with the date.\<close>

definition parse_gmt :: "string \<Rightarrow> int option" where
  "parse_gmt s =
     (case look_up 0 day_names s of None \<Rightarrow> None | Some (_, s) \<Rightarrow>
     (case skip '', '' s of None \<Rightarrow> None | Some s \<Rightarrow>
     (case getnum True s of None \<Rightarrow> None | Some (d, s) \<Rightarrow>
     (case skip '' '' s of None \<Rightarrow> None | Some s \<Rightarrow>
     (case look_up 0 month_names s of None \<Rightarrow> None | Some (m, s) \<Rightarrow>
     (case skip '' '' s of None \<Rightarrow> None | Some s \<Rightarrow>
     (case get_year s of None \<Rightarrow> None | Some (y, s) \<Rightarrow>
     (case skip '' '' s of None \<Rightarrow> None | Some s \<Rightarrow>
     (case parse_clock s of None \<Rightarrow> None | Some (t, s) \<Rightarrow>
        if skip '' GMT'' s = Some [] \<and> date_ok y (m + 1) d
        then Some (epoch_day y (m + 1) d * 86400 + int t) else None)))))))))"

subsection \<open>A date and its day\<close>

lemma civil_date_inverse:
  assumes "civil_date n = (y, m, d)" and "year_start 0 \<le> n"
  shows "epoch_day y m d = n" and "date_ok y m d"
proof -
  obtain r where r: "year_loop 0 (nat (n - year_start 0)) = (y, r)" "month_loop (month_lengths y) 1 r = (m, d)"
    using assms(1) by (auto simp: civil_date_def split: prod.splits)
  note y = year_loop_inverse [OF r(1)]
  have "r < sum_list (month_lengths y)" using y by (simp add: sum_month_lengths)
  note month = month_loop_inverse [OF r(2) this]
  show "date_ok y m d" using month by (auto simp: date_ok_def)
  have "n - year_start 0 = int (sum_list (map year_days [0..<y])) + int r" using y assms(2) by linarith
  then have "n = year_start y + int r" by (simp add: year_start_def)
  then show "epoch_day y m d = n" using month by (simp add: epoch_day_def)
qed

lemma year_start_mono: "year_start 0 \<le> year_start y"
  by (simp add: year_start_def)

lemma epoch_day_from: "1 \<le> d \<Longrightarrow> year_start 0 \<le> epoch_day y m d"
  using year_start_mono [of y] by (simp add: epoch_day_def)

lemma civil_date_epoch_day:
  assumes "date_ok y m d"
  shows "civil_date (epoch_day y m d) = (y, m, d)"
proof -
  have k: "m - 1 < length (month_lengths y)" "d - 1 < month_lengths y ! (m - 1)"
    using assms by (auto simp: date_ok_def)
  let ?r = "sum_list (take (m - 1) (month_lengths y)) + (d - 1)"
  have "?r < year_days y" using sum_take_less [OF k] by (simp add: sum_month_lengths)
  then have "year_loop 0 (sum_list (map year_days [0..<y]) + ?r) = (y, ?r)" by (intro year_loop_sum) simp_all
  moreover have "nat (epoch_day y m d - year_start 0) = sum_list (map year_days [0..<y]) + ?r"
    using assms by (simp add: epoch_day_def year_start_def date_ok_def nat_eq_iff)
  ultimately show ?thesis
    using month_loop_sum [OF k, of 1] assms by (simp add: civil_date_def date_ok_def)
qed

subsection \<open>A printed date is read back\<close>

lemma zero_char: "CHR ''0'' = digit_char 0"
  by code_simp

lemma two_digits: "d < 100 \<Longrightarrow> pad_dec 2 d = [digit_char (d div 10), digit_char (d mod 10)]"
  by (cases "d < 10")
     (auto simp: pad_dec_def zero_char dec_string.simps [of d] dec_string.simps [of "d div 10"] numeral_2_eq_2)

lemma getnum_two [simp]: "d < 100 \<Longrightarrow> getnum f (pad_dec 2 d @ s) = Some (d, s)"
  by (simp add: two_digits digit_value_char)

lemma length_year: "y < 10000 \<Longrightarrow> length (pad_dec 4 y) = 4"
  by (simp add: pad_dec_def dec_string.simps [of y] dec_string.simps [of "y div 10"]
      dec_string.simps [of "y div 10 div 10"] dec_string.simps [of "y div 10 div 10 div 10"])

lemma get_year_hit [simp]: "y < 10000 \<Longrightarrow> get_year (pad_dec 4 y @ s) = Some (y, s)"
  using length_year [of y] dec_value_pad [of 4 y] by (cases "pad_dec 4 y") (auto simp: get_year_def parse_dec_def)

lemma day_names_read:
  assumes "i < 7"
  shows "look_up 0 day_names (day_names ! i @ s) = Some (i, s)"
proof -
  have "i = 0 \<or> i = 1 \<or> i = 2 \<or> i = 3 \<or> i = 4 \<or> i = 5 \<or> i = 6" using assms by presburger
  then show ?thesis
    by (elim disjE) (simp_all add: day_names_def equal_fold_def to_lower_def lower_def)
qed

lemma month_names_read:
  assumes "i < 12"
  shows "look_up 0 month_names (month_names ! i @ s) = Some (i, s)"
    and "no_space (month_names ! i @ s) = month_names ! i @ s"
proof -
  have i: "i = 0 \<or> i = 1 \<or> i = 2 \<or> i = 3 \<or> i = 4 \<or> i = 5 \<or> i = 6 \<or> i = 7 \<or> i = 8 \<or> i = 9 \<or> i = 10 \<or> i = 11"
    using assms by presburger
  then show "look_up 0 month_names (month_names ! i @ s) = Some (i, s)"
    by (elim disjE) (simp_all add: month_names_def equal_fold_def to_lower_def lower_def)
  from i show "no_space (month_names ! i @ s) = month_names ! i @ s"
    by (elim disjE) (simp_all add: month_names_def)
qed

lemma no_space_pad [simp]: "no_space (pad_dec w n @ s) = pad_dec w n @ s"
proof -
  have "CHR '' '' \<notin> set (pad_dec w n)"
    using digits_dec_string [of "CHR '' ''" n] by (auto simp: pad_dec_def digit_value_def)
  moreover have "pad_dec w n \<noteq> []" by (simp add: pad_dec_def)
  ultimately show ?thesis by (cases "pad_dec w n") auto
qed

lemma parse_clock_hit:
  "t < 86400 \<Longrightarrow> parse_clock (clock_string t @ '' GMT'') = Some (t, '' GMT'')"
proof -
  assume "t < 86400"
  then have h: "t div 3600 < 24" by linarith
  have "t div 3600 = t div 60 div 60" by (simp flip: div_mult2_eq)
  moreover have "t div 60 div 60 * 60 + t div 60 mod 60 = t div 60" and "t div 60 * 60 + t mod 60 = t"
    by (rule div_mult_mod_eq)+
  ultimately have "t div 3600 * 3600 + t div 60 mod 60 * 60 + t mod 60 = t" by linarith
  then show ?thesis
    using h by (simp add: parse_clock_def clock_string_def get_below_def fraction_def less_imp_le)
qed

lemma no_space_clock: "no_space (clock_string t @ s) = clock_string t @ s"
  by (simp add: clock_string_def)

lemma length_month_le: "month_lengths y ! k \<le> 31" if "k < 12"
proof -
  have "k = 0 \<or> k = 1 \<or> k = 2 \<or> k = 3 \<or> k = 4 \<or> k = 5 \<or> k = 6 \<or> k = 7 \<or> k = 8 \<or> k = 9 \<or> k = 10 \<or> k = 11"
    using that by presburger
  then show ?thesis by (elim disjE) (simp_all add: month_lengths_def)
qed

lemma parse_gmt_string:
  assumes "civil_date (t div 86400) = (y, m, d)" and "year_start 0 \<le> t div 86400" and "y < 10000"
  shows "parse_gmt (gmt_string t) = Some t"
proof -
  note c = civil_date_inverse [OF assms(1,2)]
  then obtain k where k: "m = Suc k" "k < 12" and "d \<le> month_lengths y ! k"
    by (cases m) (auto simp: date_ok_def)
  then have d: "d < 100" using length_month_le [OF k(2), of y] by linarith
  have w: "nat (weekday t) < 7" by (simp add: weekday_def nat_less_iff)
  have "nat (t mod 86400) < 86400" by (simp add: nat_less_iff)
  note clock = parse_clock_hit [OF this]
  have "t div 86400 * 86400 + int (nat (t mod 86400)) = t" by simp
  then show ?thesis
    using c d assms(3)
    by (simp add: parse_gmt_def gmt_string_def assms(1) k(1) day_names_read [OF w]
        month_names_read [OF k(2)] no_space_clock clock)
qed

end
