(* ===== verification/Jsonc.thy ===== *)
theory Jsonc
  imports Prelude
begin

text \<open>
  Comments in \<open>pubfiles.json\<close> (\<open>jsonc.go\<close>). The scanner's position and its \<open>inString\<close> flag, with
  the two inner loops over a comment, are the four modes of one recursion on the remaining bytes.
\<close>

definition quote :: byte where "quote = 34"
definition slash :: byte where "slash = 47"
definition star :: byte where "star = 42"
definition newline :: byte where "newline = 10"
definition escape :: byte where "escape = 92"

lemmas jsonc_bytes = quote_def slash_def star_def newline_def escape_def

datatype scanner = InText | InString | InLine | InBlock

text \<open>
  A block comment that is not closed swallows the last byte as well: the loop stops in front of it
  and the two increments that follow skip it.
\<close>

fun strip_json :: "scanner \<Rightarrow> bytes \<Rightarrow> bytes" where
  "strip_json InText [] = []"
| "strip_json InText (c # cs) =
     (if c = quote then c # strip_json InString cs
      else if c = slash \<and> cs \<noteq> [] \<and> hd cs = slash then strip_json InLine cs
      else if c = slash \<and> cs \<noteq> [] \<and> hd cs = star then strip_json InBlock (tl cs)
      else c # strip_json InText cs)"
| "strip_json InString [] = []"
| "strip_json InString [c] = [c]"
| "strip_json InString (c # d # cs) =
     (if c = escape then c # d # strip_json InString cs
      else if c = quote then c # strip_json InText (d # cs)
      else c # strip_json InString (d # cs))"
| "strip_json InLine [] = []"
| "strip_json InLine (c # cs) = (if c = newline then c # strip_json InText cs else strip_json InLine cs)"
| "strip_json InBlock [] = []"
| "strip_json InBlock [c] = []"
| "strip_json InBlock (c # d # cs) =
     (if c = star \<and> d = slash then strip_json InText cs
      else (if c = newline then [c] else []) @ strip_json InBlock (d # cs))"

definition stripJSONComments :: "bytes \<Rightarrow> bytes" where
  "stripJSONComments b = strip_json InText b"

subsection \<open>What a commented document is\<close>

datatype segment = Code bytes | Quoted bytes | LineComment bytes | BlockComment bytes

text \<open>The inside of a string: a escape takes the next byte with it, and no quote is bare.\<close>

fun string_body :: "bytes \<Rightarrow> bool" where
  "string_body [] = True"
| "string_body [c] = (c \<noteq> escape \<and> c \<noteq> quote)"
| "string_body (c # d # cs) =
     (if c = escape then string_body cs else c \<noteq> quote \<and> string_body (d # cs))"

fun closes_block :: "bytes \<Rightarrow> bool" where
  "closes_block (c # d # cs) = ((c = star \<and> d = slash) \<or> closes_block (d # cs))"
| "closes_block _ = False"

fun segment_ok :: "segment \<Rightarrow> bool" where
  "segment_ok (Code b) = (quote \<notin> set b \<and> slash \<notin> set b)"
| "segment_ok (Quoted b) = string_body b"
| "segment_ok (LineComment b) = (newline \<notin> set b)"
| "segment_ok (BlockComment b) = (\<not> closes_block b)"

fun written :: "segment \<Rightarrow> bytes" where
  "written (Code b) = b"
| "written (Quoted b) = [quote] @ b @ [quote]"
| "written (LineComment b) = [slash, slash] @ b @ [newline]"
| "written (BlockComment b) = [slash, star] @ b @ [star, slash]"

text \<open>What is left of a segment: a comment leaves its line breaks.\<close>

fun kept :: "segment \<Rightarrow> bytes" where
  "kept (Code b) = b"
| "kept (Quoted b) = [quote] @ b @ [quote]"
| "kept (LineComment b) = [newline]"
| "kept (BlockComment b) = filter (\<lambda>c. c = newline) b"

lemma strip_code:
  "quote \<notin> set b \<Longrightarrow> slash \<notin> set b \<Longrightarrow> strip_json InText (b @ rest) = b @ strip_json InText rest"
  by (induction b) auto

lemma strip_quoted:
  "string_body b \<Longrightarrow> strip_json InString (b @ quote # rest) = b @ quote # strip_json InText rest"
proof (induction b rule: string_body.induct)
  case 1
  then show ?case by (cases rest) (auto simp: jsonc_bytes)
next
  case (2 c)
  then show ?case by (cases rest) (auto simp: jsonc_bytes)
qed (auto split: if_splits)

lemma strip_line: "newline \<notin> set b \<Longrightarrow> strip_json InLine (b @ newline # rest) = newline # strip_json InText rest"
  by (induction b) auto

lemma strip_block:
  "\<not> closes_block b \<Longrightarrow>
   strip_json InBlock (b @ star # slash # rest) = filter (\<lambda>c. c = newline) b @ strip_json InText rest"
  by (induction b rule: closes_block.induct) (auto simp: jsonc_bytes)

lemma strip_segment:
  assumes "segment_ok g"
  shows "strip_json InText (written g @ rest) = kept g @ strip_json InText rest"
proof (cases g)
  case (Code b)
  then show ?thesis using assms strip_code by simp
next
  case (Quoted b)
  then show ?thesis using assms strip_quoted [of b rest] by simp
next
  case (LineComment b)
  have "strip_json InLine (slash # b @ newline # rest) = strip_json InLine (b @ newline # rest)"
    by (simp add: jsonc_bytes)
  then show ?thesis using assms LineComment strip_line [of b rest] by (simp add: jsonc_bytes)
next
  case (BlockComment b)
  then show ?thesis using assms strip_block [of b rest] by (simp add: jsonc_bytes)
qed

lemma count_filter_eq: "count_list (filter (\<lambda>c. c = x) b) x = count_list b x"
  by (induction b) auto

lemma kept_lines: "segment_ok g \<Longrightarrow> count_list (kept g) newline = count_list (written g) newline"
  by (cases g) (auto simp: jsonc_bytes count_filter_eq count_list_0_iff)

lemma count_concat: "count_list (concat xss) x = sum_list (map (\<lambda>xs. count_list xs x) xss)"
  by (induction xss) auto

text \<open>C35: Of a document made of text, strings and closed comments exactly the comments go, but for their line
  breaks, so that every line keeps its number.\<close>

theorem only_comments_are_dropped:
  assumes "list_all segment_ok gs"
  shows "stripJSONComments (concat (map written gs)) = concat (map kept gs) \<and>
    count_list (stripJSONComments (concat (map written gs))) newline =
    count_list (concat (map written gs)) newline"
proof -
  have "strip_json InText (concat (map written gs) @ []) = concat (map kept gs) @ strip_json InText []"
    using assms
  proof (induction gs)
    case (Cons g gs)
    then show ?case using strip_segment [of g "concat (map written gs)"] by simp
  qed simp
  moreover have "sum_list (map (\<lambda>g. count_list (kept g) newline) gs) =
      sum_list (map (\<lambda>g. count_list (written g) newline) gs)"
    using assms kept_lines by (intro arg_cong [of _ _ sum_list] map_cong) (auto simp: list_all_iff)
  ultimately show ?thesis by (simp add: stripJSONComments_def count_concat comp_def)
qed

lemma only_comments_are_dropped_witness:
  "stripJSONComments (concat (map written [Code [123], Quoted [47, 47, 92, 34], LineComment [34, 42], BlockComment [10, 42], Code [125]])) =
   [123, 34, 47, 47, 92, 34, 34, 10, 10, 125]"
  using only_comments_are_dropped
    [of "[Code [123], Quoted [47, 47, 92, 34], LineComment [34, 42], BlockComment [10, 42], Code [125]]"]
  by (simp add: jsonc_bytes)

end
