(* ===== verification/Pubfiles.thy ===== *)
theory Pubfiles
  imports Dates Jsonc JsonText Proto "HOL-Library.Signed_Division"
begin

text \<open>
  The publisher files: their configuration and contents (\<open>pubfiles.go\<close>) and the seasons
  (\<open>seasons.go\<close>). The decoder of the configuration's JSON and the embedded default file are
  arguments; times are in nanoseconds. Go's maps are lists of entries in the order they are walked.
\<close>

text \<open>A value, an error, or a panic.\<close>

datatype 'a loaded = Loaded 'a | Failed | Panicked

subsection \<open>Configuration\<close>

record seasonRotation =
  ro_enabled :: bool
  ro_first :: u32
  ro_last :: u32
  ro_anchor :: string
  ro_interval :: int

record riftSettings =
  rs_mode :: string
  rs_number :: u32

type_synonym seasonEvents = "string list"

record pubConfig =
  pc_season :: u32
  pc_seasonStart :: string
  pc_seasonEnd :: string
  pc_buffStart :: string
  pc_buffEnd :: string
  pc_events :: "string \<Rightarrow> bool option"
  pc_legendaryFind :: string
  pc_goldFind :: string
  pc_xp :: string
  pc_heroPublish :: string
  pc_crossPlatform :: bool
  pc_leaderboards :: bool
  pc_diablo4 :: bool
  pc_version :: string
  pc_rifts :: riftSettings
  pc_seasonTheme :: bool
  pc_rotation :: seasonRotation
  pc_themes :: "(string \<times> seasonEvents) list"

text \<open>A season's theme as it was decoded: a list, an object, or anything else.\<close>

datatype flag = FlagBool bool | FlagNumber bool | FlagOther
datatype themeJson = ThemeList "string list" | ThemeObject "(string \<times> flag) list" | ThemeOther

definition flag_on :: "flag \<Rightarrow> bool option" where
  "flag_on v = (case v of FlagBool b \<Rightarrow> Some b | FlagNumber nonzero \<Rightarrow> Some nonzero | FlagOther \<Rightarrow> None)"

definition theme_events :: "themeJson \<Rightarrow> seasonEvents option" where
  "theme_events j =
     (case j of
        ThemeList l \<Rightarrow> Some l
      | ThemeObject ob \<Rightarrow>
          if list_all (\<lambda>(_, v). flag_on v \<noteq> None) ob
          then Some (sort (map fst (filter (\<lambda>(_, v). flag_on v = Some True) ob))) else None
      | ThemeOther \<Rightarrow> None)"

subsection \<open>Seasons\<close>

definition second :: int where "second = 1000000000"

definition gmtDate :: "int \<Rightarrow> string" where
  "gmtDate t = gmt_string (t div second)"

definition season_of :: "seasonRotation \<Rightarrow> string \<Rightarrow> u32 option" where
  "season_of r key =
     (case parse_uint 32 key of
        None \<Rightarrow> None
      | Some n \<Rightarrow>
          let n = of_nat n in
          if n \<noteq> 0 \<and> (ro_first r = 0 \<or> n \<ge> ro_first r) \<and> (ro_last r = 0 \<or> n \<le> ro_last r) then Some n else None)"

definition seasonList :: "seasonRotation \<Rightarrow> (string \<times> seasonEvents) list \<Rightarrow> u32 list" where
  "seasonList r themes = sort (List.map_filter (season_of r) (map fst themes))"

definition anchor_date :: "seasonRotation \<Rightarrow> nat \<times> nat \<times> nat" where
  "anchor_date r =
     (case parse_month (ro_anchor r) of
        Some a \<Rightarrow> a
      | None \<Rightarrow> (case parse_day (ro_anchor r) of Some a \<Rightarrow> a | None \<Rightarrow> (1970, 1, 1)))"

text \<open>Midnight of a day.\<close>

definition midnight :: "int \<Rightarrow> int" where "midnight n = n * 86400 * second"

definition next_month :: "nat \<times> nat \<Rightarrow> nat \<times> nat" where
  "next_month = (\<lambda>(y, m). if m = 12 then (Suc y, 1) else (y, Suc m))"

definition month_start :: "nat \<times> nat \<Rightarrow> int" where
  "month_start = (\<lambda>(y, m). midnight (epoch_day y m 1))"

text \<open>
  The interval that a test may set is a 64-bit number of nanoseconds that can wrap to zero or below,
  and the difference of two times is cut off at the largest one.
\<close>

definition rotated_by_interval :: "u32 list \<Rightarrow> int \<Rightarrow> int \<Rightarrow> int \<Rightarrow> (u32 \<times> int \<times> int) loaded" where
  "rotated_by_interval list interval anchor now =
     (let step = wrap64 (interval * second) in
      if now > anchor \<and> step = 0 then Panicked
      else
        let n = (if now > anchor then min (now - anchor) (2 ^ 63 - 1) sdiv step else 0);
            start = anchor + n * step;
            i = n smod int (length list)
        in if i < 0 then Panicked else Loaded (list ! nat i, start, start + step))"

definition rotatedSeason :: "u32 list \<Rightarrow> seasonRotation \<Rightarrow> int \<Rightarrow> (u32 \<times> int \<times> int) loaded" where
  "rotatedSeason list r now =
     (case anchor_date r of (ay, am, ad) \<Rightarrow>
        if ro_interval r > 0 then rotated_by_interval list (ro_interval r) (midnight (epoch_day ay am ad)) now
        else
          (case civil_date (now div (86400 * second)) of (y, m, d) \<Rightarrow>
             let months = (int y - int ay) * 12 + int m - int am;
                 months = (if months < 0 then 0 else months)
             in Loaded (list ! nat (months mod int (length list)),
                        month_start (y, m), month_start (next_month (y, m)))))"

definition rotate :: "int \<Rightarrow> pubConfig \<Rightarrow> pubConfig loaded" where
  "rotate now c =
     (let list = seasonList (pc_rotation c) (pc_themes c) in
      if ro_enabled (pc_rotation c) \<and> list \<noteq> [] then
        (case rotatedSeason list (pc_rotation c) now of
           Loaded (season, start, _) \<Rightarrow> Loaded (c\<lparr>pc_season := season, pc_seasonStart := gmtDate start\<rparr>)
         | _ \<Rightarrow> Panicked)
      else Loaded c)"

definition switch_on :: "string list \<Rightarrow> (string \<Rightarrow> bool option) \<Rightarrow> (string \<Rightarrow> bool option)" where
  "switch_on names ev = fold (\<lambda>n ev. ev(n \<mapsto> True)) names ev"

definition season_theme :: "pubConfig \<Rightarrow> string list" where
  "season_theme c =
     (case map_of (pc_themes c) (dec_string (unat (pc_season c))) of None \<Rightarrow> [] | Some names \<Rightarrow> names)"

definition effectiveConfig :: "int \<Rightarrow> pubConfig \<Rightarrow> pubConfig loaded" where
  "effectiveConfig now c =
     (case rotate now c of
        Loaded c \<Rightarrow>
          Loaded (if pc_seasonTheme c then c\<lparr>pc_events := switch_on (season_theme c) (pc_events c)\<rparr> else c)
      | _ \<Rightarrow> Panicked)"

subsection \<open>The files\<close>

definition knownEvents :: "string list" where
  "knownEvents =
     [''DoubleGoblins'', ''DoubleBountyBags'', ''RoyalGrandeur'', ''LegacyOfNightmares'', ''TriunesWill'',
      ''Pandemonium'', ''KanaiPowers'', ''TrialsOfTempests'', ''SeasonOnly'', ''ShadowClones'',
      ''FourthKanaisCubeSlot'', ''EtherealItems'', ''SoulShards'', ''SwarmRifts'', ''SanctifiedItems'',
      ''DarkAlchemy'', ''ParagonCap'', ''NestingPortals'', ''EasterEggWorld'', ''DoubleRiftKeystones'',
      ''DoubleBloodShards'']"

definition lf :: char where "lf = char_of (10 :: nat)"

definition boolStr :: "bool \<Rightarrow> string" where
  "boolStr b = (if b then ''1'' else ''0'')"

definition buildSeasons :: "pubConfig \<Rightarrow> string" where
  "buildSeasons c =
     ''# Format for dates MUST be: '' @ [dquote] @ '' ? ? ? , DD MMM YYYY hh : mm:ss UTC'' @ [dquote, lf] @
     ''# The Day of Month(DD) MUST be 2 - digit; use either preceding zero or trailing space'' @ [lf] @
     ''[Season '' @ dec_string (unat (pc_season c)) @ '']'' @ [lf] @
     ''Start '' @ [dquote] @ pc_seasonStart c @ [dquote, lf] @
     ''End '' @ [dquote] @ pc_seasonEnd c @ [dquote, lf, lf]"

definition line :: "string \<times> string \<Rightarrow> string" where
  "line = (\<lambda>(k, v). k @ '' '' @ [dquote] @ v @ [dquote, lf])"

definition event_on :: "pubConfig \<Rightarrow> string \<Rightarrow> bool" where
  "event_on c name \<longleftrightarrow> pc_events c name = Some True"

definition settings :: "pubConfig \<Rightarrow> (string \<times> string) list" where
  "settings c =
     [(''HeroPublishFrequencyMinutes'', pc_heroPublish c),
      (''EnableCrossPlatformSaveMigration'', boolStr (pc_crossPlatform c)),
      (''SeasonalGlobalLeaderboardsEnabled'', boolStr (pc_leaderboards c)),
      (''EnableDiablo4Advertisement'', boolStr (pc_diablo4 c)),
      (''CommunityBuffStart'', pc_buffStart c), (''CommunityBuffEnd'', pc_buffEnd c)] @
     map (\<lambda>name. (''CommunityBuff'' @ name, boolStr (event_on c name))) knownEvents @
     [(''CommunityBuffLegendaryFind'', pc_legendaryFind c), (''CommunityBuffGoldFind'', pc_goldFind c),
      (''CommunityBuffXP'', pc_xp c), (''UpdateVersion'', pc_version c)]"

definition buildConfig :: "pubConfig \<Rightarrow> string" where
  "buildConfig c = concat (map line (settings c))"

definition buildBlacklist :: "pubConfig \<Rightarrow> string" where
  "buildBlacklist c = ''# Item blacklist served by diablo-3'' @ [lf] @ ''[GBID]'' @ [lf, lf] @ ''[SNO]'' @ [lf]"

subsection \<open>Loading the configuration\<close>

definition maxGameTime :: int where "maxGameTime = 2 ^ 31 - 1"

definition latestSafeDate :: string where "latestSafeDate = ''Fri, 01 Jan 2038 00:00:00 GMT''"

definition clampGameDate :: "string \<Rightarrow> string" where
  "clampGameDate s =
     (case parse_gmt s of None \<Rightarrow> s | Some t \<Rightarrow> if t \<le> maxGameTime then s else latestSafeDate)"

definition clampDates :: "pubConfig \<Rightarrow> pubConfig" where
  "clampDates c =
     c\<lparr>pc_seasonStart := clampGameDate (pc_seasonStart c), pc_seasonEnd := clampGameDate (pc_seasonEnd c),
       pc_buffStart := clampGameDate (pc_buffStart c), pc_buffEnd := clampGameDate (pc_buffEnd c)\<rparr>"

text \<open>The decoder fills a given configuration; \<open>pe_writable\<close> tells whether files can be written.\<close>

record pubEnv =
  pe_default :: bytes
  pe_zero :: pubConfig
  pe_decode :: "bytes \<Rightarrow> pubConfig \<Rightarrow> pubConfig option"
  pe_writable :: bool

datatype configFile = Absent | Unreadable | Content bytes

definition defaultPubConfig :: "pubEnv \<Rightarrow> pubConfig loaded" where
  "defaultPubConfig env =
     (case pe_decode env (stripJSONComments (pe_default env)) (pe_zero env) of
        None \<Rightarrow> Panicked | Some c \<Rightarrow> Loaded c)"

definition loadPubConfig :: "pubEnv \<Rightarrow> configFile \<Rightarrow> pubConfig loaded \<times> configFile" where
  "loadPubConfig env f =
     (case defaultPubConfig env of
        Loaded c \<Rightarrow>
          (case f of
             Absent \<Rightarrow> (Loaded c, if pe_writable env then Content (pe_default env) else Absent)
           | Unreadable \<Rightarrow> (Failed, f)
           | Content raw \<Rightarrow>
               (case pe_decode env (stripJSONComments raw) c of
                  None \<Rightarrow> (Failed, f) | Some c \<Rightarrow> (Loaded (clampDates c), f)))
      | _ \<Rightarrow> (Panicked, f))"

text \<open>The file names the generator answers itself, any other fails here.\<close>

definition generatedPubfile :: "pubEnv \<Rightarrow> string \<Rightarrow> int \<Rightarrow> configFile \<Rightarrow> string loaded \<times> configFile" where
  "generatedPubfile env name now f =
     (let name = to_lower name; seasons = (name = ''seasons.txt'' \<or> name = ''seasons_config.txt'') in
      if \<not> seasons \<and> name \<noteq> ''config.txt'' then (Failed, f)
      else
        (case loadPubConfig env f of
           (Loaded c, f) \<Rightarrow>
             (case effectiveConfig now c of
                Loaded c \<Rightarrow> (Loaded (if seasons then buildSeasons c else buildConfig c), f)
              | _ \<Rightarrow> (Panicked, f))
         | (Failed, f) \<Rightarrow> (Failed, f)
         | (Panicked, f) \<Rightarrow> (Panicked, f)))"

text \<open>
  The three files of the start of the server, written in this order until one fails; \<open>can\<close> tells
  which can be written. The result is whether all were.
\<close>

fun write_files :: "(string \<Rightarrow> bool) \<Rightarrow> (string \<times> string) list \<Rightarrow> (string \<Rightarrow> bytes option) \<Rightarrow> bool \<times> (string \<Rightarrow> bytes option)" where
  "write_files can [] d = (True, d)"
| "write_files can ((n, s) # fs) d = (if can n then write_files can fs (d(n \<mapsto> lit s)) else (False, d))"

definition writePubfiles ::
    "pubEnv \<Rightarrow> int \<Rightarrow> bool \<Rightarrow> (string \<Rightarrow> bool) \<Rightarrow> configFile \<Rightarrow> (string \<Rightarrow> bytes option) \<Rightarrow>
     bool loaded \<times> configFile \<times> (string \<Rightarrow> bytes option)" where
  "writePubfiles env now mkdir can f d =
     (case loadPubConfig env f of
        (Loaded c, f) \<Rightarrow>
          (case effectiveConfig now c of
             Loaded c \<Rightarrow>
               if \<not> mkdir then (Loaded False, f, d)
               else
                 (case write_files can
                    [(''blacklist_config.txt'', buildBlacklist c), (''config.txt'', buildConfig c),
                     (''seasons_config.txt'', buildSeasons c)] d of
                    (ok, d) \<Rightarrow> (Loaded ok, f, d))
           | _ \<Rightarrow> (Panicked, f, d))
      | (Failed, f) \<Rightarrow> (Failed, f, d)
      | (Panicked, f) \<Rightarrow> (Panicked, f, d))"

end
