(* ===== verification/Rift.thy ===== *)
theory Rift
  imports Pubfiles
begin

text \<open>
  The weekly challenges (\<open>riftdata.go\<close>), the lookup of a publisher file by the lobby
  (\<open>publisherFile\<close>, \<open>services.go\<close>) and their read-only view over HTTP (\<open>pubfilesHandler\<close>,
  \<open>pubfiles.go\<close>). The directories are given by the names in them, if they can be listed, and the
  contents that can be read.
\<close>

record pubDisk =
  pd_config :: configFile
  pd_riftNames :: "string list option"
  pd_rift :: "string \<Rightarrow> bytes option"
  pd_pubNames :: "string list option"
  pd_pub :: "string \<Rightarrow> bytes option"

subsection \<open>File names\<close>

definition base_name :: "string \<Rightarrow> string" where
  "base_name s =
     (if s = '''' then ''.''
      else
        let t = dropWhile (\<lambda>c. c = CHR ''/'') (rev s) in
        if t = '''' then ''/'' else rev (takeWhile (\<lambda>c. c \<noteq> CHR ''/'') t))"

text \<open>The number in a name \<open>challengerift_<digits>.dat\<close>.\<close>

definition rift_number :: "string \<Rightarrow> int option" where
  "rift_number s =
     (let n = length s - 4; digits = drop 14 (take n s) in
      if has_prefix ''challengerift_'' s \<and> drop n s = ''.dat'' \<and> 18 < length s \<and>
         list_all (\<lambda>c. digit_value c \<noteq> None) digits
      then Some (int64_or_clip digits) else None)"

subsection \<open>The configuration of the challenge\<close>

definition riftChallengeNumber :: "riftSettings \<Rightarrow> u32 \<Rightarrow> int \<Rightarrow> u32" where
  "riftChallengeNumber s rnd now =
     (if rs_mode s = ''fixed'' then rs_number s
      else if rs_mode s = ''random'' then rnd mod 100000
      else word_of_int (now div second div 604800))"

lemma two_varints_progress:
  "readVarint b i = Some (k, j) \<Longrightarrow> readVarint b j = Some (v, n) \<Longrightarrow> i < length b \<Longrightarrow> length b - n < length b - i"
  using readVarint_progress [of b i k j] readVarint_progress [of b j v n] by auto

text \<open>The fields of a file from offset \<open>i\<close>: numbers and values.\<close>

function config_fields :: "bytes \<Rightarrow> nat \<Rightarrow> (u64 \<times> u64) list option" where
  "config_fields b i =
     (if i \<ge> length b then Some []
      else
        (case readVarint b i of
           None \<Rightarrow> None
         | Some (key, j) \<Rightarrow>
             if key AND 7 \<noteq> 0 then None
             else
               (case readVarint b j of
                  None \<Rightarrow> None
                | Some (v, n) \<Rightarrow> map_option ((#) (drop_bit 3 key, v)) (config_fields b n))))"
  by pat_completeness auto
termination
  by (relation "measure (\<lambda>(b, i). length b - i)") (auto dest: two_varints_progress simp: not_le)

declare config_fields.simps [simp del]

definition last_hash :: "(u64 \<times> u64) list \<Rightarrow> u64" where
  "last_hash fs = foldl (\<lambda>h (f, v). if f = 5 then v else h) 0 fs"

definition put_fields :: "(u64 \<times> u64) list \<Rightarrow> bytes" where
  "put_fields fs = concat (map (\<lambda>(f, v). appendVarint (push_bit 3 f) @ appendVarint v) fs)"

definition patchChallengeConfig :: "bytes \<Rightarrow> u32 \<Rightarrow> bytes option" where
  "patchChallengeConfig src number =
     (case config_fields src 0 of
        None \<Rightarrow> None
      | Some fs \<Rightarrow>
          Some (put_fields [(1, ucast number), (2, 0), (3, 0), (4, 0x7FFFFFFF), (5, last_hash fs)]))"

subsection \<open>Challenge files\<close>

text \<open>The numbered files in numeric order; a number beyond 64 bits counts as the largest.\<close>

definition riftDataFiles :: "pubDisk \<Rightarrow> string list" where
  "riftDataFiles d =
     (case pd_riftNames d of
        None \<Rightarrow> []
      | Some names \<Rightarrow>
          map snd (sort_key fst
            (List.map_filter (\<lambda>n. map_option (\<lambda>v. (v, n)) (rift_number (to_lower n))) names)))"

definition config_name :: string where "config_name = ''challengerift_config.dat''"

definition rift_config :: "pubConfig \<Rightarrow> u32 \<Rightarrow> int \<Rightarrow> pubDisk \<Rightarrow> bytes loaded" where
  "rift_config c rnd now d =
     (case pd_rift d config_name of
        None \<Rightarrow> Failed
      | Some src \<Rightarrow>
          (case patchChallengeConfig src (riftChallengeNumber (pc_rifts c) rnd now) of
             None \<Rightarrow> Failed | Some out \<Rightarrow> Loaded out))"

definition rift_data :: "string \<Rightarrow> pubDisk \<Rightarrow> bytes loaded" where
  "rift_data name d =
     (let files = riftDataFiles d in
      case rift_number name of
        None \<Rightarrow> Failed
      | Some n \<Rightarrow>
          if files = [] then Failed
          else (case pd_rift d (files ! nat (n mod int (length files))) of
                  None \<Rightarrow> Failed | Some b \<Rightarrow> Loaded b))"

definition riftFile :: "pubEnv \<Rightarrow> u32 \<Rightarrow> string \<Rightarrow> int \<Rightarrow> pubDisk \<Rightarrow> bytes loaded \<times> pubDisk" where
  "riftFile env rnd name now d =
     (let name = to_lower (base_name name) in
      if \<not> has_prefix ''challengerift_'' name then (Failed, d)
      else
        (case loadPubConfig env (pd_config d) of
           (Loaded c, f) \<Rightarrow>
             (if name = config_name then rift_config c rnd now d else rift_data name d, d\<lparr>pd_config := f\<rparr>)
         | (Failed, f) \<Rightarrow> (Failed, d\<lparr>pd_config := f\<rparr>)
         | (Panicked, f) \<Rightarrow> (Panicked, d\<lparr>pd_config := f\<rparr>)))"

definition generated :: "pubEnv \<Rightarrow> string \<Rightarrow> int \<Rightarrow> pubDisk \<Rightarrow> bytes loaded \<times> pubDisk" where
  "generated env name now d =
     (case generatedPubfile env name now (pd_config d) of
        (Loaded s, f) \<Rightarrow> (Loaded (lit s), d\<lparr>pd_config := f\<rparr>)
      | (Failed, f) \<Rightarrow> (Failed, d\<lparr>pd_config := f\<rparr>)
      | (Panicked, f) \<Rightarrow> (Panicked, d\<lparr>pd_config := f\<rparr>))"

subsection \<open>The lookup of the lobby\<close>

definition pubFileAliases :: "(string \<times> string) list" where
  "pubFileAliases = [(''seasons.txt'', ''seasons_config.txt''), (''blacklist.txt'', ''blacklist_config.txt'')]"

definition wanted_names :: "string \<Rightarrow> string list" where
  "wanted_names base =
     base # (case map_of pubFileAliases (to_lower base) of None \<Rightarrow> [] | Some a \<Rightarrow> [a])"

text \<open>The first file that has a wanted name, in the order of the names, and can be read.\<close>

definition stored_file :: "string \<Rightarrow> pubDisk \<Rightarrow> bytes option" where
  "stored_file base d =
     (case pd_pubNames d of
        None \<Rightarrow> None
      | Some names \<Rightarrow>
          (case List.map_filter (pd_pub d)
                  (concat (map (\<lambda>want. filter (\<lambda>n. equal_fold n want) names) (wanted_names base))) of
             [] \<Rightarrow> None | b # _ \<Rightarrow> Some b))"

definition publisherFile :: "pubEnv \<Rightarrow> u32 \<Rightarrow> (nat \<Rightarrow> int) \<Rightarrow> string \<Rightarrow> pubDisk \<Rightarrow> bytes option loaded \<times> pubDisk" where
  "publisherFile env rnd clock name d =
     (case riftFile env rnd name (clock 0) d of
        (Loaded b, d) \<Rightarrow> (Loaded (Some b), d)
      | (Panicked, d) \<Rightarrow> (Panicked, d)
      | (Failed, d) \<Rightarrow>
          (case generated env name (clock 1) d of
             (Loaded b, d) \<Rightarrow> (Loaded (Some b), d)
           | (Panicked, d) \<Rightarrow> (Panicked, d)
           | (Failed, d) \<Rightarrow> (Loaded (stored_file (base_name name) d), d)))"

subsection \<open>The view over HTTP\<close>

datatype page = Listing "string list" | NotFound | Body bytes

fun contains_dots :: "string \<Rightarrow> bool" where
  "contains_dots (a # b # s) = ((a = CHR ''.'' \<and> b = CHR ''.'') \<or> contains_dots (b # s))"
| "contains_dots _ = False"

text \<open>\<open>pd_pub\<close> at a name the directory does not have is a read outside it.\<close>

definition pubfilesHandler :: "pubEnv \<Rightarrow> u32 \<Rightarrow> (nat \<Rightarrow> int) \<Rightarrow> string \<Rightarrow> pubDisk \<Rightarrow> page loaded \<times> pubDisk" where
  "pubfilesHandler env rnd clock path d =
     (let name = trim_prefix ''/pubfiles/'' path in
      if name = '''' then (Loaded (Listing (case pd_pubNames d of None \<Rightarrow> [] | Some ns \<Rightarrow> ns)), d)
      else if name \<noteq> base_name name \<or> contains_dots name then (Loaded NotFound, d)
      else
        (case generated env name (clock 0) d of
           (Loaded b, d) \<Rightarrow> (Loaded (Body b), d)
         | (Panicked, d) \<Rightarrow> (Panicked, d)
         | (Failed, d) \<Rightarrow>
             (case riftFile env rnd name (clock 1) d of
                (Loaded b, d) \<Rightarrow> (Loaded (Body b), d)
              | (Panicked, d) \<Rightarrow> (Panicked, d)
              | (Failed, d) \<Rightarrow>
                  (Loaded (case pd_pub d name of None \<Rightarrow> NotFound | Some b \<Rightarrow> Body b), d))))"

end
