(* ===== verification/PubfileProps.thy ===== *)
theory PubfileProps
  imports Rift
begin

text \<open>Seasons follow each other month by month, and the served files say what is configured.\<close>

subsection \<open>Months\<close>

definition nth_month :: "nat \<Rightarrow> nat \<times> nat" where
  "nth_month k = (k div 12, Suc (k mod 12))"

lemma month_at: "1 \<le> m \<Longrightarrow> m \<le> 12 \<Longrightarrow> nth_month (12 * y + m - 1) = (y, m)"
  by (cases m) (auto simp: nth_month_def)

lemma next_month_nth: "next_month (nth_month k) = nth_month (Suc k)"
  by (auto simp: next_month_def nth_month_def div_Suc mod_Suc)

lemma month_days: "k < 12 \<Longrightarrow> sum_list (take (Suc k) (month_lengths y)) = sum_list (take k (month_lengths y)) + month_lengths y ! k"
  by (simp add: take_Suc_conv_app_nth)

lemma year_start_Suc: "year_start (Suc y) = year_start y + int (year_days y)"
  by (simp add: year_start_def)

lemma next_month_day:
  assumes "nth_month k = (y, m)" and "nth_month (Suc k) = (y', m')"
  shows "epoch_day y' m' 1 = epoch_day y m 1 + int (month_lengths y ! (m - 1))"
proof (cases "m = 12")
  case True
  then have "y' = Suc y" "m' = 1" using assms next_month_nth [of k] by (auto simp: next_month_def)
  moreover have "sum_list (take 11 (month_lengths y)) + month_lengths y ! 11 = year_days y"
    using month_days [of 11 y] sum_month_lengths [of y] by simp
  ultimately show ?thesis using True by (simp add: epoch_day_def year_start_Suc)
next
  case False
  then have "y' = y" "m' = Suc m" using assms next_month_nth [of k] by (auto simp: next_month_def)
  moreover have "m - 1 < 12" "Suc (m - 1) = m" using assms(1) by (auto simp: nth_month_def)
  ultimately show ?thesis using month_days [of "m - 1" y] by (simp add: epoch_day_def)
qed

lemma month_length_pos: "k < 12 \<Longrightarrow> 0 < month_lengths y ! k"
proof -
  assume "k < 12"
  then have "k = 0 \<or> k = 1 \<or> k = 2 \<or> k = 3 \<or> k = 4 \<or> k = 5 \<or> k = 6 \<or> k = 7 \<or> k = 8 \<or> k = 9 \<or> k = 10 \<or> k = 11"
    by presburger
  then show ?thesis by (elim disjE) (simp_all add: month_lengths_def)
qed

abbreviation day_ns :: int where "day_ns \<equiv> 86400 * second"

lemma midnight_le: "midnight a \<le> t \<longleftrightarrow> a \<le> t div day_ns" "t < midnight a \<longleftrightarrow> t div day_ns < a"
proof -
  show "midnight a \<le> t \<longleftrightarrow> a \<le> t div day_ns" by (simp add: midnight_def second_def) linarith
  then show "t < midnight a \<longleftrightarrow> t div day_ns < a" by (simp add: not_le [symmetric])
qed

abbreviation nth_start :: "nat \<Rightarrow> int" where "nth_start k \<equiv> month_start (nth_month k)"

lemma month_date:
  assumes "nth_start k \<le> t" and "t < nth_start (Suc k)"
  shows "\<exists>d. civil_date (t div day_ns) = (fst (nth_month k), snd (nth_month k), d)"
proof -
  obtain y m where ym: "nth_month k = (y, m)" by fastforce
  obtain y' m' where ym': "nth_month (Suc k) = (y', m')" by fastforce
  let ?n = "t div day_ns"
  have n: "epoch_day y m 1 \<le> ?n" "?n < epoch_day y' m' 1"
    using assms by (simp_all add: ym ym' month_start_def midnight_le)
  define d where "d = nat (?n - epoch_day y m 1) + 1"
  have "d \<le> month_lengths y ! (m - 1)" using n next_month_day [OF ym ym'] by (simp add: d_def)
  moreover have "1 \<le> m" "m \<le> 12" using ym by (auto simp: nth_month_def)
  ultimately have "date_ok y m d" by (simp add: date_ok_def d_def)
  moreover have "epoch_day y m d = ?n" using n(1) by (simp add: epoch_day_def d_def)
  ultimately show ?thesis using civil_date_epoch_day [of y m d] ym by auto
qed

lemma nth_start_less: "nth_start k < nth_start (Suc k)"
proof -
  obtain y m where ym: "nth_month k = (y, m)" by fastforce
  obtain y' m' where ym': "nth_month (Suc k) = (y', m')" by fastforce
  have "m - 1 < 12" using ym by (auto simp: nth_month_def)
  then have "epoch_day y m 1 < epoch_day y' m' 1"
    using next_month_day [OF ym ym'] month_length_pos [of "m - 1" y] by simp
  then show ?thesis by (simp add: ym ym' month_start_def midnight_def second_def)
qed

text \<open>The moments of a month are exactly those between its first midnight and that of the next month.\<close>

lemma date_month:
  assumes "civil_date (t div day_ns) = (y, m, d)" and "midnight (year_start 0) \<le> t"
  shows "nth_month (12 * y + m - 1) = (y, m)" and "nth_start (12 * y + m - 1) \<le> t"
    and "t < nth_start (Suc (12 * y + m - 1))"
proof -
  let ?k = "12 * y + m - 1"
  have "year_start 0 \<le> t div day_ns" using assms(2) by (simp add: midnight_le)
  note n = civil_date_inverse [OF assms(1) this]
  show ym: "nth_month ?k = (y, m)" using n(2) by (intro month_at) (simp_all add: date_ok_def)
  obtain y' m' where ym': "nth_month (Suc ?k) = (y', m')" by fastforce
  have "epoch_day y m 1 \<le> t div day_ns" using n by (auto simp: epoch_day_def date_ok_def)
  then show "nth_start ?k \<le> t" by (simp only: ym month_start_def prod.case midnight_le)
  have "t div day_ns < epoch_day y' m' 1"
    using n next_month_day [OF ym ym'] by (auto simp: epoch_day_def date_ok_def)
  then show "t < nth_start (Suc ?k)" by (simp only: ym' month_start_def prod.case midnight_le)
qed

subsection \<open>The rotation\<close>

lemma rotation_index:
  "nat ((if int k - int j < 0 then 0 else int k - int j) mod int n) = (k - j) mod n"
proof -
  have "(if int k - int j < 0 then 0 else int k - int j) = int (k - j)" by simp
  then show ?thesis by (simp only: zmod_int [symmetric] nat_int)
qed

lemma rotated_month:
  assumes "anchor_date r = (fst (nth_month j), snd (nth_month j), ad)" and "ro_interval r \<le> 0"
    and "nth_start k \<le> t" "t < nth_start (Suc k)"
  shows "rotatedSeason list r t =
    Loaded (list ! ((k - j) mod length list), nth_start k, nth_start (Suc k))"
proof -
  obtain d where civ: "civil_date (t div day_ns) = (k div 12, Suc (k mod 12), d)"
    using month_date [OF assms(3,4)] by (auto simp: nth_month_def)
  have anc: "anchor_date r = (j div 12, Suc (j mod 12), ad)" using assms(1) by (simp add: nth_month_def)
  have months: "(int (k div 12) - int (j div 12)) * 12 + int (Suc (k mod 12)) - int (Suc (j mod 12)) = int k - int j"
  proof -
    have "12 * int (n div 12) + int (n mod 12) = int n" for n by presburger
    from this [of k] this [of j] show ?thesis by simp
  qed
  have fixed_months: "(0 < ro_interval r) = False" using assms(2) by simp
  show ?thesis
    unfolding rotatedSeason_def anc civ prod.case fixed_months if_False months Let_def rotation_index
      next_month_nth [symmetric] nth_month_def [of k] by simp
qed

lemma anchor_month:
  assumes "anchor_date r = (y, m, d)"
  shows "1 \<le> m \<and> m \<le> 12"
proof -
  have "1 \<le> m \<and> m \<le> 12" if "parse_month s = Some (y, m, d)" for s
    using that by (auto simp: parse_month_def get_month_def split: option.splits if_splits)
  moreover have "1 \<le> m \<and> m \<le> 12" if "parse_day s = Some (y, m, d)" for s
    using that by (auto simp: parse_day_def date_ok_def split: option.splits if_splits)
  ultimately show ?thesis
    using assms by (cases "parse_month (ro_anchor r)"; cases "parse_day (ro_anchor r)") (auto simp: anchor_date_def)
qed

text \<open>C33: A rotation by months, at any moment from the year 0 on: the season is the one in the list at the
  number of months since the anchor's month, round the list again after its end, and the first one before the anchor. Its window starts
  at the first midnight of the moment's calendar month and consists of exactly the moments of this month; all of them have the same
  season. With the window's end the next month starts, with the next season of the list, the first after the
  last; before the anchor's month it is the first one still.\<close>

theorem seasons_follow_each_other:
  fixes list :: "u32 list" and y m ay am :: nat
  assumes "list \<noteq> []" and "ro_interval r \<le> 0" and "anchor_date r = (ay, am, ad)"
    and "midnight (year_start 0) \<le> now" and "civil_date (now div day_ns) = (y, m, d)"
  defines "i \<equiv> (12 * y + m - (12 * ay + am)) mod length list"
    and "from \<equiv> month_start (y, m)" and "until \<equiv> month_start (next_month (y, m))"
  shows "rotatedSeason list r now = Loaded (list ! i, from, until) \<and>
    civil_date (from div day_ns) = (y, m, 1) \<and>
    (\<forall>t. midnight (year_start 0) \<le> t \<longrightarrow>
       (from \<le> t \<and> t < until \<longleftrightarrow> (\<exists>d'. civil_date (t div day_ns) = (y, m, d')))) \<and>
    (\<forall>t. from \<le> t \<and> t < until \<longrightarrow> rotatedSeason list r t = Loaded (list ! i, from, until)) \<and>
    rotatedSeason list r until =
      Loaded (list ! (if 12 * ay + am \<le> 12 * y + m then Suc i mod length list else 0),
        until, month_start (next_month (next_month (y, m))))"
proof -
  define j where "j = 12 * ay + am - 1"
  define k where "k = 12 * y + m - 1"
  have j: "nth_month j = (ay, am)" using month_at anchor_month [OF assms(3)] by (simp add: j_def)
  note k = date_month [OF assms(5,4), folded k_def]
  have m: "1 \<le> m" "1 \<le> am" using k(1) j by (auto simp: nth_month_def)
  have i: "i = (k - j) mod length list" using m by (simp add: i_def j_def k_def)
  have w: "from = nth_start k" "until = nth_start (Suc k)"
    "month_start (next_month (next_month (y, m))) = nth_start (Suc (Suc k))"
    by (simp_all add: from_def until_def k(1) next_month_nth [symmetric])
  have a: "anchor_date r = (fst (nth_month j), snd (nth_month j), ad)" using assms(3) j by simp
  have here: "rotatedSeason list r t = Loaded (list ! i, from, until)" if "from \<le> t \<and> t < until" for t
    using rotated_month [OF a assms(2), where k = k] that by (simp add: w i)
  have "Suc i mod length list = Suc (k - j) mod length list" by (simp add: i mod_Suc_eq)
  then have "(Suc k - j) mod length list = (if 12 * ay + am \<le> 12 * y + m then Suc i mod length list else 0)"
    using m by (auto simp: j_def k_def Suc_diff_le)
  then have later: "rotatedSeason list r until =
      Loaded (list ! (if 12 * ay + am \<le> 12 * y + m then Suc i mod length list else 0), until, nth_start (Suc (Suc k)))"
    using rotated_month [OF a assms(2) order_refl nth_start_less] by (simp only: w)
  have "from div day_ns = epoch_day y m 1" by (simp add: from_def month_start_def midnight_def second_def)
  moreover have "date_ok y m 1"
    using k(1) month_length_pos [of "m - 1" y] by (auto simp: date_ok_def nth_month_def)
  ultimately have "civil_date (from div day_ns) = (y, m, 1)" by (simp add: civil_date_epoch_day)
  moreover have "from \<le> t \<and> t < until \<longleftrightarrow> (\<exists>d'. civil_date (t div day_ns) = (y, m, d'))"
    if "midnight (year_start 0) \<le> t" for t
    using month_date [of k t] date_month(2,3) [OF _ that, of y m, folded k_def] by (auto simp: w k(1))
  ultimately show ?thesis using here k(2,3) later by (simp add: w)
qed

definition ex_rotation :: seasonRotation where
  "ex_rotation = \<lparr>ro_enabled = True, ro_first = 0, ro_last = 0, ro_anchor = ''1970-01'', ro_interval = 0\<rparr>"

lemma ex_anchor: "anchor_date ex_rotation = (1970, 1, 1)"
  by code_simp

lemma seasons_follow_each_other_witness:
  "rotatedSeason [39, 40] ex_rotation 5 = Loaded (39, month_start (1970, 1), month_start (1970, 2)) \<and>
   rotatedSeason [39, 40] ex_rotation (month_start (1970, 2)) =
     Loaded (40, month_start (1970, 2), month_start (1970, 3))"
proof -
  have "date_ok 1970 1 1" by code_simp
  moreover have "epoch_day 1970 1 1 = 0" by (simp only: epoch_day_def year_start_def diff_self) simp
  ultimately have "civil_date 0 = (1970, 1, 1)" using civil_date_epoch_day by metis
  then have "civil_date (5 div day_ns) = (1970, 1, 1)" by (simp add: second_def)
  moreover have "midnight (year_start 0) \<le> 5"
  proof -
    have "year_start 1970 = 0" by (simp only: year_start_def diff_self)
    then have "year_start 0 \<le> 0" using year_start_mono [of 1970] by simp
    then show ?thesis by (simp add: midnight_def second_def)
  qed
  moreover have "ro_interval ex_rotation \<le> 0" by (simp add: ex_rotation_def)
  ultimately have th: "rotatedSeason [39, 40] ex_rotation 5 =
      Loaded ([39, 40] ! ((12 * 1970 + 1 - (12 * 1970 + 1)) mod length [39, 40 :: u32]),
        month_start (1970, 1), month_start (next_month (1970, 1)))"
    "rotatedSeason [39, 40] ex_rotation (month_start (next_month (1970, 1))) =
      Loaded ([39, 40] ! (if 12 * 1970 + 1 \<le> 12 * 1970 + (1 :: nat)
          then Suc ((12 * 1970 + 1 - (12 * 1970 + 1)) mod length [39, 40 :: u32]) mod length [39, 40 :: u32] else 0),
        month_start (next_month (1970, 1)), month_start (next_month (next_month (1970, 1))))"
    using seasons_follow_each_other [of "[39, 40]" ex_rotation 1970 1 1 5 1970 1 1, OF _ _ ex_anchor] by blast+
  then show ?thesis by (simp add: next_month_def numeral_2_eq_2 numeral_3_eq_3)
qed

subsection \<open>The served configuration\<close>

text \<open>How a reader of the format takes the settings from the file.\<close>

fun read_lines :: "string \<Rightarrow> string list" where
  "read_lines [] = []"
| "read_lines (c # s) =
     (if c = lf then [] # read_lines s
      else (case read_lines s of [] \<Rightarrow> [[c]] | l # ls \<Rightarrow> (c # l) # ls))"

definition read_setting :: "string \<Rightarrow> string \<times> string" where
  "read_setting l =
     (takeWhile (\<lambda>c. c \<noteq> CHR '' '') l, butlast (drop 2 (dropWhile (\<lambda>c. c \<noteq> CHR '' '') l)))"

definition read_settings :: "string \<Rightarrow> (string \<times> string) list" where
  "read_settings s = map read_setting (read_lines s)"

lemma read_lines_line: "lf \<notin> set l \<Longrightarrow> read_lines (l @ lf # s) = l # read_lines s"
  by (induction l) auto

definition plain :: "string \<times> string \<Rightarrow> bool" where
  "plain kv \<longleftrightarrow> CHR '' '' \<notin> set (fst kv) \<and> lf \<notin> set (fst kv) \<and> lf \<notin> set (snd kv)"

lemma read_setting_line:
  "CHR '' '' \<notin> set k \<Longrightarrow> read_setting (k @ CHR '' '' # dquote # v @ [dquote]) = (k, v)"
proof -
  assume "CHR '' '' \<notin> set k"
  then have "\<And>c. c \<in> set k \<Longrightarrow> c \<noteq> CHR '' ''" by auto
  then show ?thesis by (simp add: read_setting_def takeWhile_append2 dropWhile_append2)
qed

lemma lf_differs [simp]: "lf \<noteq> CHR '' ''" "lf \<noteq> dquote"
  by code_simp+

lemma read_settings_lines: "list_all plain kvs \<Longrightarrow> read_settings (concat (map line kvs)) = kvs"
proof (induction kvs)
  case (Cons kv kvs)
  obtain k v where kv: "kv = (k, v)" by fastforce
  have "lf \<notin> set (k @ CHR '' '' # dquote # v @ [dquote])"
    using Cons.prems kv by (auto simp: plain_def)
  then show ?case
    using Cons kv read_lines_line [of "k @ CHR '' '' # dquote # v @ [dquote]" "concat (map line kvs)"]
      read_setting_line [of k v]
    by (simp add: read_settings_def line_def plain_def)
qed (simp add: read_settings_def)

definition values_plain :: "pubConfig \<Rightarrow> bool" where
  "values_plain c \<longleftrightarrow>
     list_all (\<lambda>v. lf \<notin> set v)
       [pc_heroPublish c, pc_buffStart c, pc_buffEnd c, pc_legendaryFind c, pc_goldFind c, pc_xp c, pc_version c]"

lemma settings_plain: "values_plain c \<Longrightarrow> list_all plain (settings c)"
  by (simp add: values_plain_def settings_def knownEvents_def plain_def boolStr_def lf_def char_of_def)

lemma setting_of_event:
  "n \<in> set knownEvents \<Longrightarrow>
   map_of (settings c) (''CommunityBuff'' @ n) = Some (boolStr (event_on c n))"
  by (auto simp: settings_def knownEvents_def)

lemma switch_on_iff: "switch_on names ev n = Some True \<longleftrightarrow> n \<in> set names \<or> ev n = Some True"
  by (induction names arbitrary: ev) (auto simp: switch_on_def)

lemma effective_event:
  assumes "effectiveConfig now c = Loaded e"
  shows "event_on e n \<longleftrightarrow> event_on c n \<or> (pc_seasonTheme c \<and> n \<in> set (season_theme e))"
  using assms
  by (auto simp: effectiveConfig_def rotate_def event_on_def switch_on_iff season_theme_def Let_def
      split: loaded.splits if_splits)

lemma generated_config:
  assumes "generatedPubfile env name now f = (Loaded text, f')" and "to_lower name = ''config.txt''"
    and "loadPubConfig env f = (Loaded c, f')"
  obtains e where "effectiveConfig now c = Loaded e" and "text = buildConfig e"
  using assms by (auto simp: generatedPubfile_def Let_def split: loaded.splits prod.splits)

lemma effective_plain:
  assumes "effectiveConfig now c = Loaded e" and "values_plain c"
  shows "values_plain e"
  using assms
  by (auto simp: effectiveConfig_def rotate_def values_plain_def Let_def split: loaded.splits if_splits)

text \<open>C34: The file \<open>Config.txt\<close> that is served reads back as the settings, and for every event the game knows it
  says 1 exactly if the event is switched on or belongs to the theme of the season that is served.\<close>

theorem served_config_reads_back:
  assumes "generatedPubfile env name now f = (Loaded text, f')" and "to_lower name = ''config.txt''"
    and "loadPubConfig env f = (Loaded c, f')" and "values_plain c"
  shows "\<exists>e. effectiveConfig now c = Loaded e \<and> read_settings text = settings e \<and>
    list_all (\<lambda>n. map_of (read_settings text) (''CommunityBuff'' @ n) =
      Some (boolStr (pc_events c n = Some True \<or> (pc_seasonTheme c \<and> n \<in> set (season_theme e))))) knownEvents"
proof -
  obtain e where e: "effectiveConfig now c = Loaded e" "text = buildConfig e"
    using generated_config [OF assms(1-3)] by blast
  have "read_settings text = settings e"
    using read_settings_lines [OF settings_plain [OF effective_plain [OF e(1) assms(4)]]]
    by (simp add: e(2) buildConfig_def)
  moreover have "map_of (settings e) (''CommunityBuff'' @ n) =
      Some (boolStr (pc_events c n = Some True \<or> (pc_seasonTheme c \<and> n \<in> set (season_theme e))))"
    if "n \<in> set knownEvents" for n
    using setting_of_event [OF that, of e] effective_event [OF e(1), of n] by (simp only: event_on_def)
  ultimately show ?thesis
    using e(1) by (intro exI [of _ e] conjI) (simp_all only: list_all_iff Ball_def, blast)
qed

definition ex_config :: pubConfig where
  "ex_config = \<lparr>pc_season = 37, pc_seasonStart = ''Wed, 01 Jan 2020 00:00:00 GMT'',
     pc_seasonEnd = ''Fri, 01 Jan 2049 00:00:00 GMT'', pc_buffStart = '''', pc_buffEnd = '''',
     pc_events = (\<lambda>_. None), pc_legendaryFind = ''1'', pc_goldFind = ''1'', pc_xp = ''1'', pc_heroPublish = ''30'',
     pc_crossPlatform = True, pc_leaderboards = False, pc_diablo4 = False, pc_version = ''1'',
     pc_rifts = \<lparr>rs_mode = '''', rs_number = 0\<rparr>, pc_seasonTheme = True,
     pc_rotation = ex_rotation\<lparr>ro_enabled := False\<rparr>, pc_themes = [(''37'', [''KanaiPowers''])]\<rparr>"

definition ex_pubEnv :: pubEnv where
  "ex_pubEnv = \<lparr>pe_default = [], pe_zero = ex_config, pe_decode = (\<lambda>_. Some), pe_writable = False\<rparr>"

lemma served_config_reads_back_witness:
  "\<exists>text. generatedPubfile ex_pubEnv ''Config.txt'' 0 Absent = (Loaded text, Absent) \<and>
     map_of (read_settings text) ''CommunityBuffKanaiPowers'' = Some ''1''"
proof -
  have c: "loadPubConfig ex_pubEnv Absent = (Loaded ex_config, Absent)"
    by (simp add: loadPubConfig_def defaultPubConfig_def ex_pubEnv_def)
  have n: "to_lower ''Config.txt'' = ''config.txt''" by code_simp
  have p: "values_plain ex_config"
    by (simp add: values_plain_def ex_config_def lf_def char_of_def)
  have r: "rotate 0 ex_config = Loaded ex_config"
    by (simp add: rotate_def ex_config_def ex_rotation_def Let_def)
  obtain e where e: "effectiveConfig 0 ex_config = Loaded e" by (simp add: effectiveConfig_def r)
  then have "season_theme e = season_theme ex_config"
    by (auto simp: effectiveConfig_def r season_theme_def split: if_splits)
  moreover have "season_theme ex_config = [''KanaiPowers'']"
  proof -
    have "dec_string (unat (37 :: u32)) = ''37''" by code_simp
    then show ?thesis by (simp add: season_theme_def ex_config_def)
  qed
  ultimately have th: "season_theme e = [''KanaiPowers'']" by simp
  have g: "generatedPubfile ex_pubEnv ''Config.txt'' 0 Absent = (Loaded (buildConfig e), Absent)"
    using c n e by (simp add: generatedPubfile_def)
  have "''KanaiPowers'' \<in> set knownEvents" by (simp add: knownEvents_def)
  moreover obtain e' where "effectiveConfig 0 ex_config = Loaded e'" and
    "list_all (\<lambda>n. map_of (read_settings (buildConfig e)) (''CommunityBuff'' @ n) =
      Some (boolStr (pc_events ex_config n = Some True \<or> (pc_seasonTheme ex_config \<and> n \<in> set (season_theme e'))))) knownEvents"
    using served_config_reads_back [OF g n c p] by blast
  moreover from this(1) e have "e' = e" by simp
  ultimately have "map_of (read_settings (buildConfig e)) (''CommunityBuff'' @ ''KanaiPowers'') =
      Some (boolStr (pc_events ex_config ''KanaiPowers'' = Some True \<or> (pc_seasonTheme ex_config \<and> ''KanaiPowers'' \<in> set (season_theme e))))"
    by (simp only: list_all_iff)
  then show ?thesis using g by (simp add: th boolStr_def ex_config_def)
qed

subsection \<open>Dates\<close>

lemma last_safe_day: "epoch_day 2038 1 1 = 24837"
proof -
  have "sum_list (map year_days [1970..<2038]) = 24837"
    by (simp add: year_days_def leap_def upt_rec_numeral)
  moreover have "[0..<2038] = [0..<1970] @ [1970..<2038]" using upt_add_eq_append [of 0 1970 68] by simp
  ultimately have "year_start 2038 = 24837" by (simp add: year_start_def)
  then show ?thesis by (simp add: epoch_day_def)
qed

lemma latest_safe: "parse_gmt latestSafeDate = Some 2145916800"
proof -
  have c: "civil_date (2145916800 div 86400) = (2038, 1, 1)"
    using civil_date_epoch_day [of 2038 1 1, unfolded last_safe_day]
    by (simp add: date_ok_def month_lengths_def)
  have "pad_dec 2 1 = ''01''" "pad_dec 4 2038 = ''2038''" "clock_string 0 = ''00:00:00''" by code_simp+
  then have "gmt_string 2145916800 = latestSafeDate"
    using c by (simp add: gmt_string_def latestSafeDate_def weekday_def day_names_def month_names_def)
  moreover have "year_start 0 \<le> 24837" by (simp add: year_start_def)
  ultimately show ?thesis using parse_gmt_string [OF c] by simp
qed

lemma clamp_fits: "parse_gmt (clampGameDate s) = Some t \<Longrightarrow> t \<le> maxGameTime"
  using latest_safe by (auto simp: clampGameDate_def maxGameTime_def split: option.splits if_splits)

definition config_dates :: "pubConfig \<Rightarrow> string list" where
  "config_dates c = [pc_seasonStart c, pc_seasonEnd c, pc_buffStart c, pc_buffEnd c]"

text \<open>No date of a configuration that was read from its file is later than the game's clock can hold.\<close>

theorem loaded_dates_fit_the_game:
  assumes "loadPubConfig env (Content raw) = (Loaded c, f)"
  shows "list_all (\<lambda>s. case parse_gmt s of None \<Rightarrow> True | Some t \<Rightarrow> t \<le> maxGameTime) (config_dates c)"
proof -
  obtain c0 where "c = clampDates c0"
    using assms by (auto simp: loadPubConfig_def split: loaded.splits option.splits)
  then show ?thesis
    by (auto simp: config_dates_def clampDates_def dest: clamp_fits split: option.splits)
qed

lemma loaded_dates_fit_the_game_witness:
  "list_all (\<lambda>s. case parse_gmt s of None \<Rightarrow> True | Some t \<Rightarrow> t \<le> maxGameTime) (config_dates (clampDates ex_config))"
  by (rule loaded_dates_fit_the_game [of ex_pubEnv "[]" _ "Content []"])
    (simp add: loadPubConfig_def defaultPubConfig_def ex_pubEnv_def)

subsection \<open>The challenge's configuration\<close>

lemma field_key: "(f :: u64) < 2 ^ 61 \<Longrightarrow> push_bit 3 f AND 7 = 0 \<and> drop_bit 3 (push_bit 3 f) = f"
proof -
  assume f: "f < 2 ^ 61"
  have "(7 :: u64) = mask 3" by (simp add: mask_eq_exp_minus_1)
  then have "push_bit 3 f AND 7 = 0" by (simp only: take_bit_eq_mask [symmetric]) (simp add: take_bit_push_bit)
  moreover have "drop_bit 3 (push_bit 3 f) = f"
  proof (rule bit_word_eqI)
    fix n assume "n < LENGTH(64)"
    have "unat f < 2 ^ 61" using f by (simp add: word_less_nat_alt)
    then have "unat (take_bit 61 f) = unat f" by (simp add: unsigned_take_bit_eq take_bit_nat_eq_self)
    then have "take_bit 61 f = f" by (simp add: word_unat_eq_iff)
    then have "n < 61" if "bit f n" using that by (metis bit_take_bit_iff)
    then show "bit (drop_bit 3 (push_bit 3 f)) n = bit f n" by (auto simp: bit_simps)
  qed
  ultimately show ?thesis by blast
qed

lemma config_fields_put:
  "list_all (\<lambda>(f, v). f < 2 ^ 61) fs \<Longrightarrow>
   config_fields (pre @ put_fields fs) (length pre) = Some fs"
proof (induction fs arbitrary: pre)
  case Nil
  then show ?case by (simp add: put_fields_def config_fields.simps)
next
  case (Cons p fs)
  obtain f v where p: "p = (f, v)" by fastforce
  let ?k = "appendVarint (push_bit 3 f)" and ?v = "appendVarint v"
  let ?b = "pre @ ?k @ ?v @ put_fields fs"
  have b: "pre @ put_fields (p # fs) = ?b" by (simp add: put_fields_def p)
  have 1: "readVarint ?b (length pre) = Some (push_bit 3 f, length pre + length ?k)"
    by (rule readVarint_hit [where rest = "?v @ put_fields fs"]) simp
  have 2: "readVarint ?b (length pre + length ?k) = Some (v, length pre + length ?k + length ?v)"
    by (rule readVarint_hit [where rest = "put_fields fs"]) (simp add: drop_append)
  have 3: "config_fields ?b (length pre + length ?k + length ?v) = Some fs"
    using Cons.IH [of "pre @ ?k @ ?v"] Cons.prems by (simp add: add.assoc)
  have "\<not> length ?b \<le> length pre" by (simp add: Suc_le_eq)
  then show ?case
    unfolding b using 1 2 3 field_key [of f] Cons.prems p by (subst config_fields.simps) simp
qed

text \<open>A captured configuration of the weekly challenge is rewritten to the given number and to times that do
  not end, and keeps its hash; rewriting it again changes nothing.\<close>

theorem challenge_config_patched:
  assumes "patchChallengeConfig src number = Some out"
  shows "\<exists>fs. config_fields src 0 = Some fs \<and>
    config_fields out 0 = Some [(1, ucast number), (2, 0), (3, 0), (4, 0x7FFFFFFF), (5, last_hash fs)] \<and>
    patchChallengeConfig out number = Some out"
proof -
  obtain fs where fs: "config_fields src 0 = Some fs"
    and out: "out = put_fields [(1, ucast number), (2, 0), (3, 0), (4, 0x7FFFFFFF), (5, last_hash fs)]"
    using assms by (auto simp: patchChallengeConfig_def split: option.splits)
  have fields: "config_fields out 0 = Some [(1, ucast number), (2, 0), (3, 0), (4, 0x7FFFFFFF), (5, last_hash fs)]"
    using config_fields_put [of _ "[]"] by (simp add: out)
  then have "config_fields (put_fields [(1, ucast number), (2, 0), (3, 0), (4, 0x7FFFFFFF), (5, last_hash fs)]) 0 =
      Some [(1, ucast number), (2, 0), (3, 0), (4, 0x7FFFFFFF), (5, last_hash fs)]" unfolding out .
  moreover have "last_hash [(1, ucast number), (2, 0), (3, 0), (4, 0x7FFFFFFF), (5, last_hash fs)] = last_hash fs"
    by (simp add: last_hash_def)
  ultimately have "patchChallengeConfig out number = Some out"
    unfolding out by (simp add: patchChallengeConfig_def)
  with fs fields show ?thesis by blast
qed

lemma challenge_config_patched_witness:
  "\<exists>out. patchChallengeConfig [] 5 = Some out \<and>
     config_fields out 0 = Some [(1, 5), (2, 0), (3, 0), (4, 0x7FFFFFFF), (5, 0)]"
proof -
  have f: "config_fields [] 0 = Some []" by (simp add: config_fields.simps)
  then obtain out where "patchChallengeConfig [] 5 = Some out" by (auto simp: patchChallengeConfig_def)
  with challenge_config_patched [OF this] f show ?thesis by (auto simp: last_hash_def)
qed

end
