(* ===== verification/Nat_Probe.thy ===== *)
theory Nat_Probe
  imports Relay
begin

text \<open>
  The NAT probes on UDP (\<open>nat.go\<close>): one packet of the loop. \<open>ns_seen\<close> counts equal packets, for the
  log; \<open>send\<close> tells whether the operating system takes a reply. A packet is what \<open>ReadFrom\<close> put into
  the buffer of 2048 bytes, and the sender is \<open>None\<close> when it has no IPv4 address.
\<close>

definition natSeenMax :: nat where "natSeenMax = 4096"

record natState =
  ns_seen :: "(bytes \<times> nat) list"
  ns_intros :: int

definition count_seen :: "bytes \<Rightarrow> natState \<Rightarrow> natState" where
  "count_seen buf s =
     (let seen = (if length (ns_seen s) \<ge> natSeenMax then [] else ns_seen s);
          cnt = (case map_of seen buf of None \<Rightarrow> 0 | Some c \<Rightarrow> c)
      in s\<lparr>ns_seen := (buf, cnt + 1) # filter (\<lambda>(b, _). b \<noteq> buf) seen\<rparr>)"

text \<open>The destination in bytes 23 to 28 is read as a slot of an address is.\<close>

definition introduce :: "(udpAddr \<Rightarrow> bool) \<Rightarrow> bytes \<Rightarrow> natState \<Rightarrow> (udpAddr \<times> bytes) option \<times> natState" where
  "introduce send buf s =
     (case parseAddrSlot (subslice 23 29 buf) of
        None \<Rightarrow> (None, s)
      | Some to \<Rightarrow>
          (Some (to, 0x0B # drop 1 buf), if send to then s\<lparr>ns_intros := ns_intros s + 1\<rparr> else s))"

definition nat_packet ::
    "u16 \<Rightarrow> byte \<times> byte \<times> byte \<times> byte \<Rightarrow> (udpAddr \<Rightarrow> bool) \<Rightarrow> udpAddr option \<Rightarrow> bytes \<Rightarrow> natState \<Rightarrow>
     (udpAddr \<times> bytes) option \<times> natState" where
  "nat_packet port serverIP send from buf s =
     (case from of
        None \<Rightarrow> (None, s)
      | Some ua \<Rightarrow>
          if length buf < 3 then (None, s)
          else
            let s = count_seen buf s in
            if length buf = 29 \<and> (buf ! 0 = 0x0A \<or> buf ! 0 = 0x0E) then
              (if buf ! 0 = 0x0E then (None, s) else introduce send buf s)
            else if buf ! 0 = 30 then (Some (ua, [31, 2, 0] @ addr_bytes ua), s)
            else if buf ! 0 = 20 then
              (Some (ua, [21, 2, 0] @ addr_bytes ua @ addr_bytes \<lparr>ua_ip = serverIP, ua_port = port\<rparr>), s)
            else (None, s))"

subsection \<open>Properties\<close>

text \<open>An introduction as the host reads it: the type, and everything else as the other player wrote it.\<close>

definition introduction :: "udpAddr \<Rightarrow> bytes \<Rightarrow> udpAddr \<Rightarrow> bytes \<Rightarrow> bool" where
  "introduction ua buf to out \<longleftrightarrow>
     length buf = 29 \<and> buf ! 0 = 0x0A \<and> parseAddrSlot (subslice 23 29 buf) = Some to \<and>
     length out = 29 \<and> out ! 0 = 0x0B \<and> drop 1 out = drop 1 buf"

text \<open>A discovery as the player reads it: his own address, and for a NAT discovery the server's.\<close>

definition discovery :: "u16 \<Rightarrow> byte \<times> byte \<times> byte \<times> byte \<Rightarrow> udpAddr \<Rightarrow> bytes \<Rightarrow> udpAddr \<Rightarrow> bytes \<Rightarrow> bool" where
  "discovery port serverIP ua buf to out \<longleftrightarrow>
     to = ua \<and> take 3 out = [buf ! 0 + 1, 2, 0] \<and> subslice 3 9 out = addr_bytes ua \<and>
     (if buf ! 0 = 20 then drop 9 out = addr_bytes \<lparr>ua_ip = serverIP, ua_port = port\<rparr>
      else buf ! 0 = 30 \<and> length out = 9)"

lemma seen_bounded: "length (ns_seen (count_seen buf s)) \<le> natSeenMax"
  by (auto simp: count_seen_def Let_def natSeenMax_def Suc_le_eq not_le
      intro: le_less_trans [OF length_filter_le])

text \<open>C36: Every packet the server sends is either an introduction, which goes to the destination named in the
  packet and differs from it in the type alone, or tells the sender its own address; the table of the
  packets seen stays bounded, and introductions are counted when they were sent.\<close>

theorem nat_introduces_or_discovers:
  assumes "nat_packet port serverIP send (Some ua) buf s = (Some (to, out), s')"
  shows "(introduction ua buf to out \<or> discovery port serverIP ua buf to out) \<and>
    length (ns_seen s') \<le> natSeenMax \<and>
    ns_intros s' = ns_intros s + (if introduction ua buf to out \<and> send to then 1 else 0)"
proof -
  have len: "\<not> length buf < 3" using assms(1) by (auto simp: nat_packet_def)
  have cnt: "ns_intros (count_seen buf s) = ns_intros s" by (simp add: count_seen_def Let_def)
  note seen = seen_bounded [of buf s]
  show ?thesis
  proof (cases "length buf = 29 \<and> (buf ! 0 = 0x0A \<or> buf ! 0 = 0x0E)")
    case True
    then have "introduce send buf (count_seen buf s) = (Some (to, out), s')" and "buf ! 0 = 0x0A"
      using assms(1) len by (auto simp: nat_packet_def Let_def split: if_splits)
    then show ?thesis
      using True seen cnt by (auto simp: introduce_def introduction_def split: option.splits)
  next
    case False
    then have "s' = count_seen buf s"
      and "discovery port serverIP ua buf to out" and "\<not> introduction ua buf to out"
      using assms(1) len
      by (auto simp: nat_packet_def Let_def discovery_def introduction_def subslice_def split: if_splits)
    then show ?thesis using seen cnt by simp
  qed
qed

lemma nat_introduces_or_discovers_witness:
  "subslice 3 9 (snd (the (fst (nat_packet 3074 (9, 9, 9, 9) (\<lambda>_. True) (Some \<lparr>ua_ip = (1, 2, 3, 4), ua_port = 258\<rparr>)
     [30, 3, 0] \<lparr>ns_seen = [], ns_intros = 0\<rparr>)))) = addr_bytes \<lparr>ua_ip = (1, 2, 3, 4), ua_port = 258\<rparr>"
proof -
  let ?ua = "\<lparr>ua_ip = (1, 2, 3, 4), ua_port = 258\<rparr>" and ?s = "\<lparr>ns_seen = [], ns_intros = 0\<rparr>"
  obtain to out s' where p: "nat_packet 3074 (9, 9, 9, 9) (\<lambda>_. True) (Some ?ua) [30, 3, 0] ?s = (Some (to, out), s')"
    by (simp add: nat_packet_def)
  have "introduction ?ua [30, 3, 0] to out \<or> discovery 3074 (9, 9, 9, 9) ?ua [30, 3, 0] to out"
    using nat_introduces_or_discovers [OF p] by blast
  then have "subslice 3 9 out = addr_bytes ?ua" by (simp add: introduction_def discovery_def)
  then show ?thesis by (simp add: p)
qed

end
