(* ===== verification/Proxy.thy ===== *)
theory Proxy
  imports Texts
begin

text \<open>
  The PROXY header in front of a login connection (\<open>proxyproto.go\<close>). A connection is the list of the
  bytes it will deliver before the deadline; \<open>net.ParseIP\<close> is written out. A line is split at the
  white space of ASCII.
\<close>

subsection \<open>Addresses\<close>

text \<open>A field of an IPv4 address: up to three digits without a leading zero, at most 255.\<close>

definition parse_octet :: "string \<Rightarrow> byte option" where
  "parse_octet s =
     (case parse_dec s of
        None \<Rightarrow> None
      | Some v \<Rightarrow>
          if length s > 3 \<or> v > 255 \<or> (length s > 1 \<and> hd s = CHR ''0'') then None else Some (of_nat v))"

definition parse_ipv4 :: "string \<Rightarrow> bytes option" where
  "parse_ipv4 s =
     (let fs = map parse_octet (split_on (CHR ''.'') s) in
      if length fs \<noteq> 4 \<or> None \<in> set fs then None else Some (map the fs))"

definition hex_digit :: "char \<Rightarrow> nat option" where
  "hex_digit c =
     (let n = of_char (lower c) in
      if 48 \<le> n \<and> n \<le> 57 then Some (n - 48)
      else if 97 \<le> n \<and> n \<le> 102 then Some (n - 87) else None)"

text \<open>The leading hexadecimal digits of a group, with its value and what follows; at most four.\<close>

fun hex_group :: "nat \<Rightarrow> nat \<Rightarrow> string \<Rightarrow> (nat \<times> nat \<times> string) option" where
  "hex_group n acc [] = Some (n, acc, [])"
| "hex_group n acc (c # cs) =
     (case hex_digit c of
        None \<Rightarrow> Some (n, acc, c # cs)
      | Some d \<Rightarrow> if n > 3 then None else hex_group (Suc n) (16 * acc + d) cs)"

text \<open>
  The loop of an IPv6 address: the bytes so far, the position of \<open>::\<close>, the text that is left.
\<close>

lemma hex_group_rest: "hex_group n acc s = Some (k, v, rest) \<Longrightarrow> length rest + k = length s + n \<and> n \<le> k"
  by (induction n acc s rule: hex_group.induct) (auto split: option.splits if_splits)

function ipv6_loop :: "bytes \<Rightarrow> nat option \<Rightarrow> string \<Rightarrow> (bytes \<times> nat option \<times> string) option" where
  "ipv6_loop ip ell s =
     (if length ip \<ge> 16 then Some (ip, ell, s)
      else
        (case hex_group 0 0 s of
           None \<Rightarrow> None
         | Some (n, v, rest) \<Rightarrow>
             if n = 0 then None
             else if rest \<noteq> [] \<and> hd rest = CHR ''.'' then
               (if (ell = None \<and> length ip \<noteq> 12) \<or> length ip + 4 > 16 then None
                else map_option (\<lambda>b. (ip @ b, ell, [])) (parse_ipv4 s))
             else
               let ip = ip @ [of_nat (v div 256), of_nat v] in
               (case rest of
                  [] \<Rightarrow> Some (ip, ell, [])
                | c # rest \<Rightarrow>
                    if c \<noteq> CHR '':'' \<or> rest = [] then None
                    else if hd rest = CHR '':'' then
                      (if ell \<noteq> None then None
                       else if tl rest = [] then Some (ip, Some (length ip), [])
                       else ipv6_loop ip (Some (length ip)) (tl rest))
                    else ipv6_loop ip ell rest)))"
  by pat_completeness auto
termination
  by (relation "measure (\<lambda>(_, _, s). length s)") (auto dest!: hex_group_rest)

declare ipv6_loop.simps [simp del]

definition parse_ipv6 :: "string \<Rightarrow> bytes option" where
  "parse_ipv6 s =
     (let (ell, t) = (if has_prefix ''::'' s then (Some 0, drop 2 s) else (None, s)) in
      if ell \<noteq> None \<and> t = [] then Some (replicate 16 0)
      else
        (case ipv6_loop [] ell t of
           None \<Rightarrow> None
         | Some (ip, ell, t) \<Rightarrow>
             if t \<noteq> [] then None
             else
               (case ell of
                  None \<Rightarrow> if length ip < 16 then None else Some ip
                | Some k \<Rightarrow>
                    if length ip < 16 then Some (take k ip @ replicate (16 - length ip) 0 @ drop k ip) else None)))"

text \<open>
  \<open>net.ParseIP\<close>: the first of the three characters decides, and a zone is not accepted. An IPv4
  address has its 16-byte form.
\<close>

definition v4_in_v6 :: "bytes \<Rightarrow> bytes" where
  "v4_in_v6 b = replicate 10 0 @ [0xFF, 0xFF] @ b"

definition parse_ip :: "string \<Rightarrow> bytes option" where
  "parse_ip s =
     (case find (\<lambda>c. c = CHR ''.'' \<or> c = CHR '':'' \<or> c = CHR ''%'') s of
        None \<Rightarrow> None
      | Some c \<Rightarrow>
          if c = CHR ''.'' then map_option v4_in_v6 (parse_ipv4 s)
          else if c = CHR '':'' \<and> CHR ''%'' \<notin> set s then parse_ipv6 s
          else None)"

subsection \<open>The header\<close>

text \<open>\<open>strings.Fields\<close>.\<close>

abbreviation skip_space :: "string \<Rightarrow> string" where "skip_space \<equiv> dropWhile is_space"

lemma words_shorter: "skip_space s \<noteq> [] \<Longrightarrow> length (dropWhile (\<lambda>c. \<not> is_space c) (skip_space s)) < length s"
proof -
  assume ne: "skip_space s \<noteq> []"
  then have "\<not> is_space (hd (skip_space s))" by (rule hd_dropWhile)
  then have "length (dropWhile (\<lambda>c. \<not> is_space c) (skip_space s)) < length (skip_space s)"
    using ne by (cases "skip_space s") (auto simp: le_imp_less_Suc length_dropWhile_le)
  then show ?thesis using length_dropWhile_le [of is_space s] by simp
qed

function words :: "string \<Rightarrow> string list" where
  "words s =
     (let t = skip_space s in
      if t = [] then [] else takeWhile (\<lambda>c. \<not> is_space c) t # words (dropWhile (\<lambda>c. \<not> is_space c) t))"
  by pat_completeness auto
termination by (relation "measure length") (auto intro: words_shorter)

declare words.simps [simp del]

record tcpAddr =
  ta_ip :: bytes
  ta_port :: int

text \<open>The address of a line; a port that cannot be read counts as Go's clipped number or 0.\<close>

definition header_addr :: "string \<Rightarrow> tcpAddr option" where
  "header_addr line =
     (let f = words line in
      if length f \<ge> 6 \<and> (f ! 1 = ''TCP4'' \<or> f ! 1 = ''TCP6'') then
        map_option (\<lambda>ip. \<lparr>ta_ip = ip, ta_port = int64_or_clip (f ! 4)\<rparr>) (parse_ip (f ! 2))
      else None)"

text \<open>The size of the reader's buffer, which bounds the line.\<close>

definition buffer_size :: nat where "buffer_size = 4096"

text \<open>
  The address the header gives, if any, and the bytes that the server reads from the connection.
  The error closes the connection.
\<close>

definition readProxyHeader :: "bytes \<Rightarrow> (tcpAddr option \<times> bytes) option" where
  "readProxyHeader inp =
     (if length inp < 6 then None
      else if take 6 inp \<noteq> lit ''PROXY '' then Some (None, inp)
      else
        let pre = takeWhile (\<lambda>b. b \<noteq> 10) inp in
        if length pre < length inp \<and> length pre < buffer_size
        then Some (header_addr (str_of (pre @ [10])), drop (length pre + 1) inp)
        else None)"

text \<open>The address of the caller, for the handler of a request.\<close>

definition remoteAddr :: "tcpAddr \<Rightarrow> tcpAddr option \<Rightarrow> tcpAddr" where
  "remoteAddr peer header = (case header of None \<Rightarrow> peer | Some a \<Rightarrow> a)"

text \<open>The listener hands over the connections whose header could be read.\<close>

definition acceptLoop :: "(tcpAddr \<times> bytes) list \<Rightarrow> (tcpAddr \<times> bytes) list" where
  "acceptLoop conns =
     List.map_filter
       (\<lambda>(peer, inp). map_option (\<lambda>(a, rest). (remoteAddr peer a, rest)) (readProxyHeader inp)) conns"

subsection \<open>Properties\<close>

text \<open>
  The address texts: four decimal numbers; eight groups of one to four hexadecimal digits; or such groups
  with \<open>::\<close> for the ones left out.
\<close>

datatype source = V4 byte byte byte byte | V6 "string list" | V6Gap "string list" "string list"

definition ipv4_string :: "byte \<times> byte \<times> byte \<times> byte \<Rightarrow> string" where
  "ipv4_string = (\<lambda>(a, b, c, d).
     dec_string (unat a) @ [dot] @ dec_string (unat b) @ [dot] @ dec_string (unat c) @ [dot] @ dec_string (unat d))"

fun groups_string :: "string list \<Rightarrow> string" where
  "groups_string [] = []"
| "groups_string [g] = g"
| "groups_string (g # gs) = g @ CHR '':'' # groups_string gs"

fun source_string :: "source \<Rightarrow> string" where
  "source_string (V4 a b c d) = ipv4_string (a, b, c, d)"
| "source_string (V6 gs) = groups_string gs"
| "source_string (V6Gap gs hs) = groups_string gs @ ''::'' @ groups_string hs"

definition hex_group_ok :: "string \<Rightarrow> bool" where
  "hex_group_ok g \<longleftrightarrow> g \<noteq> [] \<and> length g \<le> 4 \<and> list_all (\<lambda>c. hex_digit c \<noteq> None) g"

fun source_ok :: "source \<Rightarrow> bool" where
  "source_ok (V4 a b c d) = True"
| "source_ok (V6 gs) = (list_all hex_group_ok gs \<and> length gs = 8)"
| "source_ok (V6Gap gs hs) = (list_all hex_group_ok (gs @ hs) \<and> length gs + length hs \<le> 7)"

definition group_value :: "string \<Rightarrow> nat" where
  "group_value g = foldl (\<lambda>v c. 16 * v + the (hex_digit c)) 0 g"

definition group_bytes :: "string list \<Rightarrow> bytes" where
  "group_bytes gs = concat (map (\<lambda>g. [of_nat (group_value g div 256), of_nat (group_value g)]) gs)"

fun source_ip :: "source \<Rightarrow> bytes" where
  "source_ip (V4 a b c d) = v4_in_v6 [a, b, c, d]"
| "source_ip (V6 gs) = group_bytes gs"
| "source_ip (V6Gap gs hs) =
     group_bytes gs @ replicate (16 - 2 * (length gs + length hs)) 0 @ group_bytes hs"

definition crlf :: string where "crlf = [CHR 0x0D, CHR 0x0A]"

definition proxy_line :: "string \<Rightarrow> source \<Rightarrow> nat \<Rightarrow> string \<Rightarrow> string \<Rightarrow> string" where
  "proxy_line family src port dst dport =
     ''PROXY '' @ family @ '' '' @ source_string src @ '' '' @ dst @ '' '' @ dec_string port @ '' '' @ dport"

lemma dec_string_head: "n > 0 \<Longrightarrow> hd (dec_string n) \<noteq> CHR ''0''"
proof (induction n rule: dec_string.induct)
  case (1 n)
  have z: "CHR ''0'' = digit_char 0" by code_simp
  show ?case
  proof (cases "n < 10")
    case True
    have "digit_char n \<noteq> digit_char 0"
      using digit_value_char [of n] digit_value_char [of 0] True 1(2) by force
    then show ?thesis using True z by (simp add: dec_string.simps [of n])
  next
    case False
    then show ?thesis using 1 by (simp add: dec_string.simps [of n])
  qed
qed

lemma length_octet: "n < 256 \<Longrightarrow> length (dec_string n) \<le> 3"
  by (simp add: dec_string.simps [of n] dec_string.simps [of "n div 10"] dec_string.simps [of "n div 10 div 10"])

lemma parse_octet_dec: "parse_octet (dec_string (unat (b :: byte))) = Some b"
proof -
  have "unat b < 256" using unsigned_less [of b, where ?'a = nat] by simp
  moreover have "\<not> (length (dec_string (unat b)) > 1 \<and> hd (dec_string (unat b)) = CHR ''0'')"
    using dec_string_head [of "unat b"] by (cases "unat b = 0") (auto simp: dec_string.simps [of 0])
  ultimately show ?thesis using length_octet [of "unat b"] by (auto simp: parse_octet_def not_less)
qed

lemma find_only: "(\<And>x. x \<in> set s \<Longrightarrow> P x \<Longrightarrow> x = d) \<Longrightarrow> d \<in> set s \<Longrightarrow> P d \<Longrightarrow> find P s = Some d"
proof (induction s)
  case (Cons y s)
  show ?case
  proof (cases "P y")
    case True
    then have "y = d" by (intro Cons.prems(1)) simp_all
    then show ?thesis using True by simp
  next
    case False
    then have "d \<in> set s" using Cons.prems(2,3) by auto
    then have "find P s = Some d" using Cons.prems(1,3) by (intro Cons.IH) simp_all
    then show ?thesis using False by simp
  qed
qed simp

lemma ipv4_chars: "x \<in> set (ipv4_string ip) \<Longrightarrow> x = dot \<or> digit_value x \<noteq> None"
proof -
  obtain a b c d where "ip = (a, b, c, d)" by (cases ip) auto
  moreover assume "x \<in> set (ipv4_string ip)"
  ultimately have "x = dot \<or> (\<exists>n. x \<in> set (dec_string n))"
    by (simp add: ipv4_string_def) blast
  then show ?thesis using digits_dec_string by blast
qed

lemma parse_ip_string: "parse_ip (ipv4_string (a, b, c, d)) = Some (v4_in_v6 [a, b, c, d])"
proof -
  let ?s = "ipv4_string (a, b, c, d)"
  have v4: "parse_ipv4 ?s = Some [a, b, c, d]"
    using no_dot by (simp add: parse_ipv4_def ipv4_string_def split_on_join split_on_none parse_octet_dec)
  have "find (\<lambda>c. c = CHR ''.'' \<or> c = CHR '':'' \<or> c = CHR ''%'') ?s = Some dot"
  proof (rule find_only)
    fix x assume "x \<in> set ?s" and "x = CHR ''.'' \<or> x = CHR '':'' \<or> x = CHR ''%''"
    moreover have "digit_value (CHR '':'') = None" "digit_value (CHR ''%'') = None"
      by (simp_all add: digit_value_def)
    ultimately show "x = dot" using ipv4_chars [of x "(a, b, c, d)"] by fastforce
  qed (simp_all add: ipv4_string_def)
  then show ?thesis using v4 by (simp add: parse_ip_def)
qed

text \<open>A group, and the groups of an IPv6 address.\<close>

lemma hex_group_digits:
  "list_all (\<lambda>c. hex_digit c \<noteq> None) g \<Longrightarrow> n + length g \<le> 4 \<Longrightarrow> rest = [] \<or> hex_digit (hd rest) = None \<Longrightarrow>
   hex_group n acc (g @ rest) = Some (n + length g, foldl (\<lambda>v c. 16 * v + the (hex_digit c)) acc g, rest)"
  by (induction g arbitrary: n acc) (cases rest; auto split: option.splits)+

lemma hex_group_one:
  "hex_group_ok g \<Longrightarrow> rest = [] \<or> hex_digit (hd rest) = None \<Longrightarrow>
   hex_group 0 0 (g @ rest) = Some (length g, group_value g, rest)"
  using hex_group_digits [of g 0 rest 0] by (simp add: hex_group_ok_def group_value_def)

lemma colon_digit: "hex_digit (CHR '':'') = None"
  by code_simp

lemma groups_string_ne: "list_all hex_group_ok gs \<Longrightarrow> gs \<noteq> [] \<Longrightarrow> groups_string gs \<noteq> []"
  by (cases gs rule: groups_string.cases) (auto simp: hex_group_ok_def)

lemma groups_string_hd: "list_all hex_group_ok gs \<Longrightarrow> gs \<noteq> [] \<Longrightarrow> hex_digit (hd (groups_string gs)) \<noteq> None"
  by (cases gs rule: groups_string.cases) (auto simp: hex_group_ok_def neq_Nil_conv hd_append)

lemma length_group_bytes [simp]: "length (group_bytes gs) = 2 * length gs"
  by (induction gs) (simp_all add: group_bytes_def)

lemma group_bytes_Cons: "group_bytes (g # gs) = [of_nat (group_value g div 256), of_nat (group_value g)] @ group_bytes gs"
  by (simp add: group_bytes_def)

lemma ipv6_loop_last:
  "list_all hex_group_ok gs \<Longrightarrow> gs \<noteq> [] \<Longrightarrow> length ip + 2 * length gs \<le> 16 \<Longrightarrow>
   ipv6_loop ip ell (groups_string gs) = Some (ip @ group_bytes gs, ell, [])"
proof (induction gs arbitrary: ip rule: groups_string.induct)
  case (2 g)
  then show ?case
    using hex_group_one [of g "[]"] by (simp add: ipv6_loop.simps [of ip] hex_group_ok_def group_bytes_def Let_def)
next
  case (3 g h gs)
  let ?t = "groups_string (h # gs)"
  have t: "?t \<noteq> []" "hex_digit (hd ?t) \<noteq> None"
    using groups_string_ne [of "h # gs"] groups_string_hd [of "h # gs"] 3(2) by simp_all
  then have "hd ?t \<noteq> CHR '':''" using colon_digit by auto
  moreover have "hex_group 0 0 (g @ CHR '':'' # ?t) = Some (length g, group_value g, CHR '':'' # ?t)"
    using hex_group_one [of g "CHR '':'' # ?t"] 3(2) colon_digit by simp
  moreover have "g \<noteq> []" using 3(2) by (simp add: hex_group_ok_def)
  ultimately have "ipv6_loop ip ell (groups_string (g # h # gs)) =
      ipv6_loop (ip @ [of_nat (group_value g div 256), of_nat (group_value g)]) ell ?t"
    using 3(4) t(1) by (simp add: ipv6_loop.simps [of ip] Let_def)
  then show ?case
    using 3(1) [of "ip @ [of_nat (group_value g div 256), of_nat (group_value g)]"] 3(2,4)
    by (simp add: group_bytes_Cons [of g])
qed simp

lemma ipv6_loop_gap:
  "list_all hex_group_ok gs \<Longrightarrow> gs \<noteq> [] \<Longrightarrow> length ip + 2 * length gs < 16 \<Longrightarrow>
   ipv6_loop ip None (groups_string gs @ ''::'' @ t) =
     (if t = [] then Some (ip @ group_bytes gs, Some (length ip + 2 * length gs), [])
      else ipv6_loop (ip @ group_bytes gs) (Some (length ip + 2 * length gs)) t)"
proof (induction gs arbitrary: ip rule: groups_string.induct)
  case (2 g)
  then show ?case
    using hex_group_one [of g "''::'' @ t"] colon_digit
    by (simp add: ipv6_loop.simps [of ip] hex_group_ok_def group_bytes_def Let_def)
next
  case (3 g h gs)
  let ?t = "groups_string (h # gs) @ ''::'' @ t"
  have t: "groups_string (h # gs) \<noteq> []" "hex_digit (hd (groups_string (h # gs))) \<noteq> None"
    using groups_string_ne [of "h # gs"] groups_string_hd [of "h # gs"] 3(2) by simp_all
  then have "?t \<noteq> []" "hd ?t \<noteq> CHR '':''" using colon_digit by auto
  moreover have "hex_group 0 0 (g @ CHR '':'' # ?t) = Some (length g, group_value g, CHR '':'' # ?t)"
    using hex_group_one [of g "CHR '':'' # ?t"] 3(2) colon_digit by simp
  moreover have "g \<noteq> []" using 3(2) by (simp add: hex_group_ok_def)
  ultimately have "ipv6_loop ip None (groups_string (g # h # gs) @ ''::'' @ t) =
      ipv6_loop (ip @ [of_nat (group_value g div 256), of_nat (group_value g)]) None ?t"
    using 3(4) by (simp add: ipv6_loop.simps [of ip] Let_def)
  then show ?case
    using 3(1) [of "ip @ [of_nat (group_value g div 256), of_nat (group_value g)]"] 3(2,4)
    by (simp add: group_bytes_Cons [of g])
qed simp

lemma no_gap_prefix: "hex_digit (hd s) \<noteq> None \<Longrightarrow> \<not> has_prefix ''::'' s"
  using colon_digit by (cases s) (auto simp: has_prefix_def)

lemma parse_ipv6_string: "source_ok (V6 gs) \<Longrightarrow> parse_ipv6 (groups_string gs) = Some (group_bytes gs)"
proof -
  assume ok: "source_ok (V6 gs)"
  then have ne: "gs \<noteq> []" by auto
  then show ?thesis
    using ok no_gap_prefix [OF groups_string_hd [of gs]] ipv6_loop_last [of gs "[]" None] by (simp add: parse_ipv6_def)
qed

lemma parse_ipv6_gap:
  assumes "source_ok (V6Gap gs hs)"
  shows "parse_ipv6 (source_string (V6Gap gs hs)) = Some (source_ip (V6Gap gs hs))"
proof -
  have ok: "list_all hex_group_ok gs" "list_all hex_group_ok hs" "length gs + length hs \<le> 7" using assms by auto
  let ?gap = "Some (2 * length gs)"
  have right: "ipv6_loop (group_bytes gs) ?gap (groups_string hs) = Some (group_bytes gs @ group_bytes hs, ?gap, [])"
    if "hs \<noteq> []"
    using ipv6_loop_last [OF ok(2) that, of "group_bytes gs" ?gap] ok(3) by simp
  have hs: "groups_string hs = [] \<longleftrightarrow> hs = []" using groups_string_ne [OF ok(2)] by auto
  show ?thesis
  proof (cases "gs = []")
    case True
    have gap: "has_prefix ''::'' (''::'' @ t)" "drop 2 (''::'' @ t) = t" for t by (simp_all add: has_prefix_def)
    have src: "source_string (V6Gap gs hs) = ''::'' @ groups_string hs"
      "source_ip (V6Gap gs hs) = replicate (16 - 2 * length hs) 0 @ group_bytes hs"
      using True by (simp_all add: group_bytes_def)
    have right': "ipv6_loop [] (Some 0) (groups_string hs) = Some (group_bytes hs, Some 0, [])" if "hs \<noteq> []"
      using right [OF that] True by (simp add: group_bytes_def)
    show ?thesis
      unfolding src parse_ipv6_def using right' hs ok(3) gap [of "[]"] gap [of "groups_string hs"]
        length_group_bytes [of hs] group_bytes_def [of "[]"]
      by (cases "hs = []") simp_all
  next
    case False
    have "ipv6_loop [] None (groups_string gs @ ''::'' @ groups_string hs) =
        Some (group_bytes gs @ group_bytes hs, ?gap, [])"
      using ipv6_loop_gap [OF ok(1) False, of "[]" "groups_string hs"] right hs ok(3)
      by (cases "hs = []") (simp_all add: group_bytes_def)
    moreover have "\<not> has_prefix ''::'' (groups_string gs @ ''::'' @ groups_string hs)"
      using no_gap_prefix [of "groups_string gs @ ''::'' @ groups_string hs"] groups_string_hd [OF ok(1) False]
        groups_string_ne [OF ok(1) False] by simp
    ultimately show ?thesis using ok(3) by (simp add: parse_ipv6_def)
  qed
qed

lemma groups_chars: "list_all hex_group_ok gs \<Longrightarrow> c \<in> set (groups_string gs) \<Longrightarrow> c = CHR '':'' \<or> hex_digit c \<noteq> None"
  by (induction gs rule: groups_string.induct) (auto simp: hex_group_ok_def list_all_iff)

lemma parse_source: "source_ok src \<Longrightarrow> parse_ip (source_string src) = Some (source_ip src)"
proof -
  have v6: "parse_ip s = parse_ipv6 s" if "CHR '':'' \<in> set s" "\<And>c. c \<in> set s \<Longrightarrow> c = CHR '':'' \<or> hex_digit c \<noteq> None" for s
  proof -
    have no: "hex_digit (CHR ''.'') = None" "hex_digit (CHR ''%'') = None" by code_simp+
    have "find (\<lambda>c. c = CHR ''.'' \<or> c = CHR '':'' \<or> c = CHR ''%'') s = Some (CHR '':'')"
      using that no by (intro find_only) force+
    moreover have "CHR ''%'' \<notin> set s" using that(2) no by force
    ultimately show ?thesis by (simp add: parse_ip_def)
  qed
  assume ok: "source_ok src"
  show ?thesis
  proof (cases src)
    case (V4 a b c d)
    then show ?thesis by (simp add: parse_ip_string)
  next
    case (V6 gs)
    have "CHR '':'' \<in> set (groups_string gs)" using ok V6 by (cases gs rule: groups_string.cases) auto
    from v6 [OF this] show ?thesis using groups_chars [of gs] parse_ipv6_string [of gs] ok V6 by auto
  next
    case (V6Gap gs hs)
    then have "parse_ip (source_string src) = parse_ipv6 (source_string src)"
      using ok groups_chars [of gs] groups_chars [of hs] by (intro v6) auto
    then show ?thesis using parse_ipv6_gap ok V6Gap by simp
  qed
qed

definition token :: "string \<Rightarrow> bool" where
  "token w \<longleftrightarrow> w \<noteq> [] \<and> list_all (\<lambda>c. \<not> is_space c) w"

lemma skip_token: "token w \<Longrightarrow> skip_space (w @ s) = w @ s"
  by (cases w) (auto simp: token_def)

lemma token_prefix:
  "token w \<Longrightarrow> is_space c \<Longrightarrow>
   takeWhile (\<lambda>c. \<not> is_space c) (w @ c # s) = w \<and> dropWhile (\<lambda>c. \<not> is_space c) (w @ c # s) = c # s"
  by (auto simp: token_def list_all_iff takeWhile_append2 dropWhile_append2)

lemma words_space: "is_space c \<Longrightarrow> words (c # s) = words s"
  by (simp add: words.simps [of "c # s"] words.simps [of s])

lemma words_token: "token w \<Longrightarrow> is_space c \<Longrightarrow> words (w @ c # s) = w # words s"
  using skip_token [of w "c # s"] token_prefix [of w c s] words_space [of c s]
  by (simp add: words.simps [of "w @ c # s"] token_def)

lemma spaces: "is_space (CHR '' '')" "is_space (CHR 0x0D)" "is_space (CHR 0x0A)"
  by (simp_all add: is_space_def)

lemma digit_no_space: "c \<in> set (dec_string n) \<Longrightarrow> \<not> is_space c"
  by (auto simp: is_space_def digit_value_def dest!: digits_dec_string)

lemma token_dec: "token (dec_string n)"
  using digit_no_space by (auto simp: token_def list_all_iff)

lemma token_ip: "token (ipv4_string ip)"
  using digit_no_space by (cases ip) (auto simp: token_def list_all_iff ipv4_string_def is_space_def)

lemma token_groups: "list_all hex_group_ok gs \<Longrightarrow> c \<in> set (groups_string gs) \<Longrightarrow> \<not> is_space c"
proof -
  have no: "\<not> is_space (CHR '':'')" "hex_digit (CHR '' '') = None" by code_simp+
  have "\<not> is_space c" if "hex_digit c \<noteq> None" for c
  proof
    assume "is_space c"
    then have "c \<in> set [CHR '' '', CHR 0x09, CHR 0x0A, CHR 0x0B, CHR 0x0C, CHR 0x0D]" by (auto simp: is_space_def)
    moreover have "list_all (\<lambda>c. hex_digit c = None) [CHR '' '', CHR 0x09, CHR 0x0A, CHR 0x0B, CHR 0x0C, CHR 0x0D]"
      by code_simp
    ultimately show False using that by (auto simp: list_all_iff)
  qed
  then show "list_all hex_group_ok gs \<Longrightarrow> c \<in> set (groups_string gs) \<Longrightarrow> \<not> is_space c"
    using groups_chars no by blast
qed

lemma token_source: "source_ok src \<Longrightarrow> token (source_string src)"
proof (cases src)
  case (V4 a b c d)
  then show ?thesis using token_ip by simp
next
  case (V6 gs)
  assume "source_ok src"
  then show ?thesis
    using V6 token_groups [of gs] groups_string_ne [of gs] by (force simp: token_def list_all_iff)
next
  case (V6Gap gs hs)
  have "\<not> is_space (CHR '':'')" by code_simp
  moreover assume "source_ok src"
  ultimately show ?thesis
    using V6Gap token_groups [of gs] token_groups [of hs] by (auto simp: token_def list_all_iff)
qed

lemma words_line:
  assumes "token family" and "source_ok src" and "token dst" and "token dport"
  shows "words (proxy_line family src port dst dport @ crlf) =
    [''PROXY'', family, source_string src, dst, dec_string port, dport]"
proof -
  have t: "token ''PROXY''" by (simp add: token_def is_space_def)
  have "words (dport @ crlf) = [dport]"
    using words_token [OF assms(4) spaces(2), of "[CHR 0x0A]"]
    by (simp add: crlf_def words_space spaces words.simps [of "[]"])
  then have "words (''PROXY'' @ CHR '' '' # family @ CHR '' '' # source_string src @ CHR '' '' # dst @ CHR '' '' #
      dec_string port @ CHR '' '' # dport @ crlf) =
    [''PROXY'', family, source_string src, dst, dec_string port, dport]"
    by (simp only: words_token [OF t spaces(1)] words_token [OF assms(1) spaces(1)]
        words_token [OF token_source [OF assms(2)] spaces(1)] words_token [OF assms(3) spaces(1)]
        words_token [OF token_dec spaces(1)])
  then show ?thesis by (simp add: proxy_line_def)
qed

lemma clip_dec: "n < 2 ^ 63 \<Longrightarrow> int64_or_clip (dec_string n) = int n"
proof -
  obtain c cs where c: "dec_string n = c # cs" by (cases "dec_string n") simp_all
  then have "digit_value c \<noteq> None" using digits_dec_string [of c n] by simp
  then have "c \<noteq> CHR ''-''" "c \<noteq> CHR ''+''" by (auto simp: digit_value_def)
  then have "split_sign (dec_string n) = (False, dec_string n)" using c by (simp add: split_sign_def)
  then show "n < 2 ^ 63 \<Longrightarrow> ?thesis" by (simp add: int64_or_clip_def)
qed

lemma newline_lit: "10 \<in> set (lit s) \<Longrightarrow> CHR 0x0A \<in> set s"
proof -
  have "c = CHR 0x0A" if "(of_char c :: byte) = 10" for c
  proof -
    have "[c] = str_of (lit [c])" by (rule str_of_lit [symmetric])
    also have "\<dots> = [char_of (10 :: nat)]" using that by (simp add: lit_def str_of_def)
    also have "char_of (10 :: nat) = CHR 0x0A" by code_simp
    finally show ?thesis by simp
  qed
  then show "10 \<in> set (lit s) \<Longrightarrow> CHR 0x0A \<in> set s" by (auto simp: lit_def)
qed

text \<open>A line that ends within the buffer is consumed, whatever it says.\<close>

lemma read_line:
  assumes "CHR 0x0A \<notin> set line" and "length line < 4095" and "take 6 line = ''PROXY ''"
  shows "readProxyHeader (lit (line @ crlf) @ rest) = Some (header_addr (line @ crlf), rest)"
proof -
  let ?pre = "lit (line @ [CHR 0x0D])" and ?b = "lit (line @ crlf) @ rest"
  have lf: "lit [CHR 0x0A] = [10]" by (simp add: lit_def)
  have b: "?b = ?pre @ 10 # rest" using lf by (simp add: lit_def crlf_def)
  have "CHR 0x0A \<notin> set (line @ [CHR 0x0D])" using assms(1) by simp
  then have "10 \<notin> set ?pre" using newline_lit by blast
  then have pre: "takeWhile (\<lambda>b. b \<noteq> 10) ?b = ?pre" unfolding b by (subst takeWhile_append2) auto
  have len: "length ?pre < buffer_size" using assms(2) by (simp add: lit_def buffer_size_def)
  have long: "6 \<le> length line" using arg_cong [OF assms(3), of length] by simp
  have head: "take 6 ?b = lit ''PROXY ''" using assms(3) long by (simp add: lit_def take_map)
  have "str_of (?pre @ [10]) = line @ crlf"
  proof -
    have "?pre @ [10] = lit (line @ crlf)" using lf by (simp add: lit_def crlf_def)
    then show ?thesis by simp
  qed
  moreover have "\<not> length ?b < 6" using arg_cong [OF head, of length] by (simp add: lit_def)
  moreover have "drop (length ?pre + 1) ?b = rest" and "length ?pre < length ?b" unfolding b by simp_all
  ultimately show ?thesis using len head by (simp only: readProxyHeader_def pre Let_def) simp
qed

lemma unknown_addr: "header_addr (''PROXY UNKNOWN'' @ s) = None"
proof -
  have t: "token ''PROXY''" by (simp add: token_def is_space_def)
  have "words (''PROXY UNKNOWN'' @ s) = ''PROXY'' # words (''UNKNOWN'' @ s)"
    using words_token [OF t spaces(1), of "''UNKNOWN'' @ s"] by simp
  moreover have "\<exists>w ws. words (''UNKNOWN'' @ s) = (CHR ''U'' # w) # ws"
    by (simp add: words.simps [of "CHR ''U'' # _"] is_space_def Let_def)
  ultimately obtain w ws where "words (''PROXY UNKNOWN'' @ s) = ''PROXY'' # (CHR ''U'' # w) # ws" by auto
  then show ?thesis by (simp add: header_addr_def Let_def)
qed

lemma accept_Cons:
  "acceptLoop ((peer, inp) # conns) =
     (case readProxyHeader inp of
        None \<Rightarrow> acceptLoop conns
      | Some (a, rest) \<Rightarrow> (remoteAddr peer a, rest) # acceptLoop conns)"
  by (simp add: acceptLoop_def map_filter_simps split: option.split prod.split)

text \<open>C37: What the login server takes a connection for. After a router's line with an IPv4 or IPv6 address, it is the
  address and port of the line, with the bytes after the line. After an UNKNOWN line it is the address of the
  connection, with the bytes after the line. A connection of six bytes or more that does not start with the word is
  left as it is. A connection that ends or stays silent before six bytes is closed, as is one whose line
  does not end within the reader's buffer. (Addresses are written as four decimal numbers or as hexadecimal groups with at most one
  \<open>::\<close>; the hexadecimal form with an IPv4 tail is left out here.)\<close>

theorem proxy_header_is_read:
  assumes "family \<in> {''TCP4'', ''TCP6''}" and "source_ok src" and "token dst" and "token dport"
    and "port < 2 ^ 63" and "length (proxy_line family src port dst dport) < 4095"
  shows "acceptLoop ((peer, lit (proxy_line family src port dst dport @ crlf) @ rest) # conns) =
      (\<lparr>ta_ip = source_ip src, ta_port = int port\<rparr>, rest) # acceptLoop conns \<and>
    (CHR 0x0A \<notin> set u \<and> length u < 4000 \<longrightarrow>
      acceptLoop ((peer, lit (''PROXY UNKNOWN'' @ u @ crlf) @ rest) # conns) = (peer, rest) # acceptLoop conns) \<and>
    (6 \<le> length inp \<and> take 6 inp \<noteq> lit ''PROXY '' \<longrightarrow>
      acceptLoop ((peer, inp) # conns) = (peer, inp) # acceptLoop conns) \<and>
    (length inp < 6 \<or> take 6 inp = lit ''PROXY '' \<and> 10 \<notin> set (take buffer_size inp) \<longrightarrow>
      acceptLoop ((peer, inp) # conns) = acceptLoop conns)"
proof (intro conjI impI)
  let ?line = "proxy_line family src port dst dport"
  have fam: "token family" using assms(1) by (auto simp: token_def is_space_def)
  have tok: "CHR 0x0A \<notin> set w" if "token w" for w
    using that spaces by (auto simp: token_def list_all_iff)
  have "CHR 0x0A \<notin> set ?line"
    using tok [OF fam] tok [OF assms(3)] tok [OF assms(4)] tok [OF token_source [OF assms(2)]] tok [OF token_dec [of port]]
    by (simp add: proxy_line_def)
  moreover have "take 6 ?line = ''PROXY ''" by (simp add: proxy_line_def)
  ultimately have "readProxyHeader (lit (?line @ crlf) @ rest) = Some (header_addr (?line @ crlf), rest)"
    using assms(6) by (intro read_line)
  moreover have "header_addr (?line @ crlf) = Some \<lparr>ta_ip = source_ip src, ta_port = int port\<rparr>"
    using words_line [OF fam assms(2-4), of port] parse_source [OF assms(2)] clip_dec [OF assms(5)] assms(1)
    by (auto simp: header_addr_def)
  ultimately show "acceptLoop ((peer, lit (?line @ crlf) @ rest) # conns) =
      (\<lparr>ta_ip = source_ip src, ta_port = int port\<rparr>, rest) # acceptLoop conns"
    by (simp only: accept_Cons option.case prod.case remoteAddr_def)
next
  assume "CHR 0x0A \<notin> set u \<and> length u < 4000"
  then have "readProxyHeader (lit ((''PROXY UNKNOWN'' @ u) @ crlf) @ rest) =
      Some (header_addr ((''PROXY UNKNOWN'' @ u) @ crlf), rest)"
    by (intro read_line) simp_all
  then show "acceptLoop ((peer, lit (''PROXY UNKNOWN'' @ u @ crlf) @ rest) # conns) = (peer, rest) # acceptLoop conns"
    by (simp only: append_assoc unknown_addr accept_Cons option.case prod.case remoteAddr_def)
next
  assume "6 \<le> length inp \<and> take 6 inp \<noteq> lit ''PROXY ''"
  then show "acceptLoop ((peer, inp) # conns) = (peer, inp) # acceptLoop conns"
    by (simp add: accept_Cons readProxyHeader_def remoteAddr_def)
next
  assume inp: "length inp < 6 \<or> take 6 inp = lit ''PROXY '' \<and> 10 \<notin> set (take buffer_size inp)"
  have "readProxyHeader inp = None"
  proof (cases "length inp < 6")
    case False
    let ?pre = "takeWhile (\<lambda>b. b \<noteq> 10) inp"
    have "inp ! length ?pre = 10" if "length ?pre < length inp" using nth_length_takeWhile [OF that] by simp
    moreover have "inp ! length ?pre \<in> set (take buffer_size inp)" if "length ?pre < length inp" "length ?pre < buffer_size"
      using that nth_mem [of "length ?pre" "take buffer_size inp"] by simp
    ultimately have "\<not> (length ?pre < length inp \<and> length ?pre < buffer_size)" using inp False by metis
    then show ?thesis using inp False by (auto simp: readProxyHeader_def Let_def)
  qed (simp add: readProxyHeader_def)
  then show "acceptLoop ((peer, inp) # conns) = acceptLoop conns" by (simp add: accept_Cons)
qed

lemma proxy_header_is_read_witness:
  "acceptLoop [(\<lparr>ta_ip = [], ta_port = 1\<rparr>,
       lit (proxy_line ''TCP6'' (V6Gap [''2001'', ''db8''] [''1'']) 80 ''::2'' ''443'' @ crlf) @ [1, 2])] =
   [(\<lparr>ta_ip = [0x20, 1, 0x0D, 0xB8] @ replicate 10 0 @ [0, 1], ta_port = 80\<rparr>, [1, 2])]"
proof -
  let ?src = "V6Gap [''2001'', ''db8''] [''1'']"
  have hex: "map hex_digit ''2001db8'' = map Some [2, 0, 0, 1, 13, 11, 8]" by code_simp
  have "length (dec_string 80) = 2" by (simp add: dec_string.simps)
  then have "length (proxy_line ''TCP6'' ?src 80 ''::2'' ''443'') < 4095" by (simp add: proxy_line_def)
  moreover have "source_ok ?src" using hex by (simp add: hex_group_ok_def)
  moreover have "source_ip ?src = [0x20, 1, 0x0D, 0xB8] @ replicate 10 0 @ [0, 1]"
    using hex by (simp add: group_bytes_def group_value_def)
  moreover have "token ''::2''" "token ''443''" by (simp_all add: token_def is_space_def)
  ultimately show ?thesis
    using proxy_header_is_read [of "''TCP6''" ?src "''::2''" "''443''" 80 "\<lparr>ta_ip = [], ta_port = 1\<rparr>" "[1, 2]" "[]" "[]" "[]"]
    by (simp add: acceptLoop_def map_filter_simps)
qed

end
