(* ===== verification/Dashboard.thy ===== *)
theory Dashboard
  imports Friends CtrMatch Rift
begin

text \<open>
  What the dashboard records and shows (\<open>dashboard.go\<close>). One value stands for the readings of the
  clock during one request. The orders in which Go walks its maps are in \<open>dashInput\<close>. The constants of the server
  block and the time of day are left out.
\<close>

subsection \<open>State\<close>

record connStat =
  cn_addr :: string
  cn_first :: int
  cn_last :: int
  cn_calls :: int
  cn_lastAction :: string

record taskEvent =
  ev_time :: int
  ev_pid :: u64
  ev_action :: string

record dashboard =
  da_logins :: int
  da_tasks :: int
  da_made :: int
  da_conns :: "u64 \<Rightarrow> connStat option"
  da_events :: "taskEvent list"
  da_count :: "string \<Rightarrow> int"
  da_peak :: int

definition registerConn :: "u64 \<Rightarrow> string \<Rightarrow> int \<Rightarrow> dashboard \<Rightarrow> dashboard" where
  "registerConn n addr now d =
     d\<lparr>da_conns := (da_conns d)(n \<mapsto> \<lparr>cn_addr = addr, cn_first = now, cn_last = now, cn_calls = 0, cn_lastAction = ''''\<rparr>)\<rparr>"

definition unregisterConn :: "u64 \<Rightarrow> dashboard \<Rightarrow> dashboard" where
  "unregisterConn n d = d\<lparr>da_conns := (da_conns d)(n := None)\<rparr>"

definition connPID :: "(u64 \<Rightarrow> playerID option) \<Rightarrow> u64 \<Rightarrow> u64" where
  "connPID online n = (case online n of None \<Rightarrow> 0 | Some p \<Rightarrow> pl_pid p)"

subsection \<open>Tasks\<close>

definition serviceNames :: "(byte \<times> string) list" where
  "serviceNames =
     [(4, ''bdStats''), (6, ''bdMessaging''), (10, ''bdStorage''), (12, ''bdTitleUtilities''),
      (21, ''bdMatchMaking''), (23, ''bdCounter''), (27, ''bdDML''), (29, ''UserData''),
      (67, ''bdEventLog''), (68, ''bdRichPresence'')]"

definition taskNames :: "((byte \<times> byte) \<times> string) list" where
  "taskNames =
     [((10, 10), ''uploadFile''), ((10, 21), ''getPublisherFile''),
      ((12, 6), ''getServerTime''), ((12, 9), ''getUserNames''),
      ((68, 3), ''setRichPresence''), ((68, 4), ''getRichPresence''),
      ((68, 5), ''getAndSubscribeRichPresence''), ((68, 7), ''unsubscribeRichPresence''),
      ((21, 1), ''createSession''), ((21, 2), ''updateSession''), ((21, 3), ''deleteSession''),
      ((21, 5), ''findSessions''), ((21, 12), ''updateSessionPlayers''),
      ((29, 1), ''set''), ((29, 4), ''get''), ((29, 11), ''query'')]"

definition taskName :: "byte \<Rightarrow> byte \<Rightarrow> string" where
  "taskName service task =
     (case map_of serviceNames service of Some n \<Rightarrow> n | None \<Rightarrow> ''Service-'' @ dec_string (unat service)) @ ''::'' @
     (case map_of taskNames (service, task) of Some n \<Rightarrow> n | None \<Rightarrow> ''t'' @ dec_string (unat task))"

definition keptEvents :: nat where "keptEvents = 100"

definition note_conn :: "int \<Rightarrow> string \<Rightarrow> connStat \<Rightarrow> connStat" where
  "note_conn now name c = c\<lparr>cn_calls := cn_calls c + 1, cn_last := now, cn_lastAction := name\<rparr>"

definition noteTask :: "(u64 \<Rightarrow> playerID option) \<Rightarrow> u64 \<Rightarrow> int \<Rightarrow> byte \<Rightarrow> byte \<Rightarrow> dashboard \<Rightarrow> dashboard" where
  "noteTask online n now service task d =
     (let name = taskName service task;
          events = da_events d @ [\<lparr>ev_time = now, ev_pid = connPID online n, ev_action = name\<rparr>]
      in d\<lparr>da_tasks := da_tasks d + 1,
           da_made := da_made d + (if service = 21 \<and> task = mmCreateSession then 1 else 0),
           da_conns := (da_conns d)(n := map_option (note_conn now name) (da_conns d n)),
           da_events := (if length events > keptEvents then drop (length events - keptEvents) events else events),
           da_count := (da_count d)(name := da_count d name + 1)\<rparr>)"

subsection \<open>Games\<close>

record apiLobbyP =
  lp_pid :: u64
  lp_name :: string
  lp_host :: bool

record apiGathering =
  ga_id :: u32
  ga_hostPID :: u64
  ga_hostName :: string
  ga_type :: string
  ga_mode :: u32
  ga_players :: "apiLobbyP list"
  ga_count :: int
  ga_max :: u16
  ga_state :: string

definition shown_players :: "string \<Rightarrow> (u64 \<Rightarrow> playerID option) \<Rightarrow> (u64 \<Rightarrow> playerID option)" where
  "shown_players game online =
     (\<lambda>n. case online n of
            None \<Rightarrow> None
          | Some p \<Rightarrow>
              if (game = ''ctr'' \<and> pl_title p \<noteq> 5775) \<or> (game = ''d3'' \<and> pl_title p = 5775) then None
              else Some p)"

definition public_game :: "(u64 \<Rightarrow> playerID option) \<Rightarrow> mmSession \<Rightarrow> (u64 \<times> apiGathering) option" where
  "public_game who s =
     (case who (ms_owner s) of
        None \<Rightarrow> None
      | Some host \<Rightarrow>
          if pl_pid host = 0 \<or> pl_title host = 5775 then None
          else Some (ms_owner s,
            \<lparr>ga_id = le_word (take 4 (ms_id s)), ga_hostPID = pl_pid host, ga_hostName = pl_username host,
             ga_type = ''Public game (type '' @ dec_string (unat (ms_gameType s)) @ '')'',
             ga_mode = ms_gameType s,
             ga_players = [\<lparr>lp_pid = pl_pid host, lp_name = pl_username host, lp_host = True\<rparr>],
             ga_count = int (unat (ms_numPlayers s)), ga_max = ucast (ms_maxPlayers s),
             ga_state = (if ms_numPlayers s \<ge> 2 then ''matched'' else ''searching'')\<rparr>))"

text \<open>The name of a player, of the last of his connections in the walk; empty when unknown.\<close>

definition name_of :: "(u64 \<Rightarrow> playerID option) \<Rightarrow> u64 list \<Rightarrow> u64 \<Rightarrow> string" where
  "name_of who walk p =
     fold (\<lambda>n name. case who n of None \<Rightarrow> name | Some q \<Rightarrow> if pl_pid q = p then pl_username q else name) walk ''''"

fun shown_members :: "(u64 \<Rightarrow> string) \<Rightarrow> ctrRoom \<Rightarrow> u64 list \<Rightarrow> u64 set \<Rightarrow> apiLobbyP list" where
  "shown_members name r [] seen = []"
| "shown_members name r (p # ps) seen =
     (if p \<in> seen \<or> name p = '''' \<or> (p \<noteq> sr_pid (rm_host r) \<and> room_state r p \<noteq> 2)
      then shown_members name r ps seen
      else \<lparr>lp_pid = p, lp_name = name p, lp_host = (p = sr_pid (rm_host r))\<rparr> #
           shown_members name r ps (insert p seen))"

definition ctr_game :: "(u64 \<Rightarrow> string) \<Rightarrow> ctrRoom \<Rightarrow> apiGathering option" where
  "ctr_game name r =
     (let host = sr_pid (rm_host r) in
      if name host = '''' then None
      else
        let ps = shown_members name r (room_people r) {} in
        Some \<lparr>ga_id = of_nat (rm_id r), ga_hostPID = host, ga_hostName = name host,
              ga_type = ''Public matchmaking'', ga_mode = 0, ga_players = ps, ga_count = int (length ps),
              ga_max = of_nat (rm_capacity r),
              ga_state = (if rm_hostDoc r ''lobby_open'' = Some (GBool False) then ''in game''
                          else if length ps > 1 then ''matched'' else ''searching'')\<rparr>)"

definition ctr_games :: "string \<Rightarrow> (u64 \<Rightarrow> string) \<Rightarrow> nat list \<Rightarrow> ctrMatchmaker \<Rightarrow> apiGathering list" where
  "ctr_games game name walk m =
     (if game = ''d3'' then []
      else List.map_filter (ctr_game name) (List.map_filter (live_room m) walk))"

subsection \<open>Players\<close>

record apiPlayer =
  ap_pid :: u64
  ap_name :: string
  ap_ip :: string
  ap_state :: string
  ap_gathering :: u32
  ap_online :: int
  ap_calls :: int
  ap_lastAction :: string
  ap_idle :: int
  ap_mode :: string
  ap_host :: bool

definition seated :: "apiGathering \<Rightarrow> bool \<Rightarrow> apiPlayer \<Rightarrow> apiPlayer" where
  "seated g host pl =
     pl\<lparr>ap_state := ''in a lobby'', ap_gathering := ga_id g, ap_mode := ga_type g, ap_host := host\<rparr>"

definition api_player ::
    "int \<Rightarrow> (u64 \<Rightarrow> apiGathering option) \<Rightarrow> (u64 \<Rightarrow> apiGathering option) \<Rightarrow> u64 \<Rightarrow> playerID \<Rightarrow> connStat \<Rightarrow> apiPlayer" where
  "api_player now hosting membership n p cs =
     (let pl = \<lparr>ap_pid = pl_pid p, ap_name = pl_username p, ap_ip = cn_addr cs, ap_state = ''online'',
                ap_gathering = 0, ap_online = (now - cn_first cs) div second, ap_calls = cn_calls cs,
                ap_lastAction = cn_lastAction cs, ap_idle = (now - cn_last cs) div second,
                ap_mode = '''', ap_host = False\<rparr>;
          pl = (case hosting n of None \<Rightarrow> pl | Some g \<Rightarrow> seated g True pl)
      in case membership (pl_pid p) of None \<Rightarrow> pl | Some g \<Rightarrow> seated g (pl_pid p = ga_hostPID g) pl)"

text \<open>One entry per player: of two connections the one that was active more recently.\<close>

definition keep_player :: "apiPlayer \<Rightarrow> (u64 \<Rightarrow> apiPlayer option) \<Rightarrow> (u64 \<Rightarrow> apiPlayer option)" where
  "keep_player pl by =
     (case by (ap_pid pl) of
        None \<Rightarrow> by(ap_pid pl \<mapsto> pl)
      | Some prev \<Rightarrow> if ap_idle prev \<le> ap_idle pl then by else by(ap_pid pl \<mapsto> pl))"

definition conn_players ::
    "int \<Rightarrow> (u64 \<Rightarrow> playerID option) \<Rightarrow> (u64 \<Rightarrow> apiGathering option) \<Rightarrow> (u64 \<Rightarrow> apiGathering option) \<Rightarrow>
     u64 list \<Rightarrow> dashboard \<Rightarrow> apiPlayer list" where
  "conn_players now who hosting membership conns d =
     List.map_filter
       (\<lambda>n. case (da_conns d n, who n) of
              (Some cs, Some p) \<Rightarrow>
                if pl_pid p = 0 then None else Some (api_player now hosting membership n p cs)
            | _ \<Rightarrow> None) conns"

definition players_of :: "apiPlayer list \<Rightarrow> apiPlayer list" where
  "players_of pls =
     (let by = fold keep_player pls (\<lambda>_. None)
      in sort_key ap_pid (List.map_filter by (remdups (map ap_pid pls))))"

subsection \<open>The answer\<close>

record apiStats =
  as_uptime :: int
  as_connected :: int
  as_inLobby :: int
  as_lobbies :: int
  as_sessions :: int
  as_tasks :: int
  as_made :: int
  as_peak :: int
  as_intros :: int
  as_accessKey :: string
  as_players :: "apiPlayer list"
  as_gatherings :: "apiGathering list"
  as_events :: "(int \<times> u64 \<times> string) list"
  as_methods :: "(string \<times> int) list"

definition access_key :: "string \<Rightarrow> string" where
  "access_key game =
     (if game = ''ctr'' then ''demonware-ctr'' else if game = ''d3'' then ''demonware-d3'' else '''')"

text \<open>
  What the dashboard reads of the rest of the server, with the walks of its maps: of the players online, the
  registered connections, the public games (as values), the lobbies and the task names.
\<close>

record dashInput =
  di_online :: "u64 \<Rightarrow> playerID option"
  di_who :: "u64 list"
  di_conns :: "u64 list"
  di_games :: "mmSession list"
  di_mm :: ctrMatchmaker
  di_rooms :: "nat list"
  di_names :: "string list"
  di_start :: int
  di_intros :: int

definition membership_of :: "apiGathering list \<Rightarrow> (u64 \<Rightarrow> apiGathering option)" where
  "membership_of gs = fold (\<lambda>g m. fold (\<lambda>p m. m(lp_pid p \<mapsto> g)) (ga_players g) m) gs (\<lambda>_. None)"

definition buildGameStats :: "dashInput \<Rightarrow> int \<Rightarrow> string \<Rightarrow> dashboard \<Rightarrow> apiStats \<times> dashboard" where
  "buildGameStats i now game d =
     (let who = shown_players game (di_online i);
          public = List.map_filter (public_game who) (di_games i);
          hosting = fold (\<lambda>(n, g) h. h(n \<mapsto> g)) public (\<lambda>_. None);
          ctr = ctr_games game (name_of who (di_who i)) (di_rooms i) (di_mm i);
          gs = sort_key ga_id (map snd public @ ctr);
          players = players_of (conn_players now who hosting (membership_of ctr) (di_conns i) d);
          peak = max (da_peak d) (int (length players))
      in (\<lparr>as_uptime = (now - di_start i) div second, as_connected = int (length players),
           as_inLobby = int (length (filter (\<lambda>p. ap_gathering p \<noteq> 0) players)),
           as_lobbies = int (length gs), as_sessions = da_logins d, as_tasks = da_tasks d,
           as_made = da_made d, as_peak = peak, as_intros = di_intros i, as_accessKey = access_key game,
           as_players = players, as_gatherings = gs,
           as_events = map (\<lambda>e. ((now - ev_time e) div second, ev_pid e, ev_action e)) (rev (da_events d)),
           as_methods = sort_key (\<lambda>(_, c). - c) (map (\<lambda>n. (n, da_count d n)) (di_names i))\<rparr>,
          d\<lparr>da_peak := peak\<rparr>))"

subsection \<open>Requests\<close>

datatype dashReply = Forbidden | Stats apiStats | Healthy | Pubfile "page loaded" | Unknown

definition authed :: "string \<Rightarrow> string \<Rightarrow> bool" where
  "authed token key \<longleftrightarrow> token \<noteq> '''' \<and> key = token"

definition dashboard_request ::
    "pubEnv \<Rightarrow> u32 \<Rightarrow> (nat \<Rightarrow> int) \<Rightarrow> string \<Rightarrow> dashInput \<Rightarrow> string \<Rightarrow> string \<Rightarrow> string \<Rightarrow> dashboard \<Rightarrow> pubDisk \<Rightarrow>
     dashReply \<times> dashboard \<times> pubDisk" where
  "dashboard_request env rnd clock token i path key game d disk =
     (if path = ''/api/stats'' then
        (if \<not> authed token key then (Forbidden, d, disk)
         else (case buildGameStats i (clock 0) game d of (st, d) \<Rightarrow> (Stats st, d, disk)))
      else if path = ''/healthz'' then (Healthy, d, disk)
      else if has_prefix ''/pubfiles/'' path then
        (case pubfilesHandler env rnd clock path disk of (pg, disk) \<Rightarrow> (Pubfile pg, d, disk))
      else (Unknown, d, disk))"

end
