(* ===== verification/DashProps.thy ===== *)
theory DashProps
  imports Dashboard
begin

text \<open>The dashboard is a view of the tasks served so far, and lists every player once.\<close>

subsection \<open>The history of tasks\<close>

text \<open>A task that was noted: when, by which connection, for which player, and which one.\<close>

record noted =
  no_conn :: u64
  no_time :: int
  no_pid :: u64
  no_service :: byte
  no_task :: byte

definition note_of :: "(u64 \<Rightarrow> playerID option) \<Rightarrow> u64 \<Rightarrow> int \<Rightarrow> byte \<Rightarrow> byte \<Rightarrow> noted" where
  "note_of online n now service task =
     \<lparr>no_conn = n, no_time = now, no_pid = connPID online n, no_service = service, no_task = task\<rparr>"

definition event_of :: "noted \<Rightarrow> taskEvent" where
  "event_of h = \<lparr>ev_time = no_time h, ev_pid = no_pid h, ev_action = taskName (no_service h) (no_task h)\<rparr>"

definition last_n :: "nat \<Rightarrow> 'a list \<Rightarrow> 'a list" where
  "last_n k xs = drop (length xs - k) xs"

definition conn_view :: "noted list \<Rightarrow> u64 \<Rightarrow> connStat \<Rightarrow> connStat" where
  "conn_view hs n c = fold (\<lambda>h. note_conn (no_time h) (ev_action (event_of h))) (filter (\<lambda>h. no_conn h = n) hs) c"

lemma conn_view_snoc:
  "conn_view (hs @ [h]) k =
     (if no_conn h = k then note_conn (no_time h) (taskName (no_service h) (no_task h)) \<circ> conn_view hs k
      else conn_view hs k)"
  by (simp add: fun_eq_iff conn_view_def event_of_def)

text \<open>What the dashboard holds after a history, from the connections registered before it.\<close>

definition history_view :: "(u64 \<Rightarrow> connStat option) \<Rightarrow> noted list \<Rightarrow> dashboard \<Rightarrow> bool" where
  "history_view conns hs d \<longleftrightarrow>
     da_tasks d = int (length hs) \<and>
     da_made d = int (length (filter (\<lambda>h. no_service h = 21 \<and> no_task h = mmCreateSession) hs)) \<and>
     da_conns d = (\<lambda>n. map_option (conn_view hs n) (conns n)) \<and>
     da_events d = last_n keptEvents (map event_of hs) \<and>
     da_count d = (\<lambda>name. int (length (filter (\<lambda>h. ev_action (event_of h) = name) hs)))"

lemma last_n_snoc: "0 < k \<Longrightarrow> last_n k (xs @ [x]) = last_n k (last_n k xs @ [x])"
  by (cases "k \<le> length xs") (simp_all add: last_n_def Suc_diff_le)

lemma keep_last_n: "(if length es > k then drop (length es - k) es else es) = last_n k es"
  by (simp add: last_n_def)

text \<open>Noting a task refines adding it to the history of all tasks: the counters are numbers of entries of the
  history, the events are its last hundred, and each connection has the calls and the last action it has there.\<close>

theorem dashboard_is_a_view_of_the_history:
  assumes "history_view conns hs d"
  shows "history_view conns (hs @ [note_of online n now service task]) (noteTask online n now service task d)"
proof -
  let ?h = "note_of online n now service task" and ?d = "noteTask online n now service task d"
  have ev: "event_of ?h = \<lparr>ev_time = now, ev_pid = connPID online n, ev_action = taskName service task\<rparr>"
    by (simp add: event_of_def note_of_def)
  have "da_events ?d = last_n keptEvents (da_events d @ [event_of ?h])"
    by (simp only: ev noteTask_def Let_def keep_last_n) simp
  also have "\<dots> = last_n keptEvents (map event_of (hs @ [?h]))"
    using assms last_n_snoc [of keptEvents "map event_of hs" "event_of ?h"]
    by (simp add: history_view_def keptEvents_def)
  finally have events: "da_events ?d = last_n keptEvents (map event_of (hs @ [?h]))" .
  have "da_conns ?d = (\<lambda>k. map_option (conn_view (hs @ [?h]) k) (conns k))"
  proof
    fix k
    show "da_conns ?d k = map_option (conn_view (hs @ [?h]) k) (conns k)"
      using assms
      by (simp add: history_view_def noteTask_def Let_def conn_view_snoc note_of_def option.map_comp)
  qed
  moreover have "da_count ?d = (\<lambda>name. int (length (filter (\<lambda>h. ev_action (event_of h) = name) (hs @ [?h]))))"
    using assms ev by (auto simp: history_view_def noteTask_def Let_def fun_eq_iff)
  moreover have "da_tasks ?d = int (length (hs @ [?h]))"
    and "da_made ?d = int (length (filter (\<lambda>h. no_service h = 21 \<and> no_task h = mmCreateSession) (hs @ [?h])))"
    using assms by (simp_all add: history_view_def noteTask_def Let_def note_of_def)
  ultimately show ?thesis using events by (simp only: history_view_def)
qed

lemma dashboard_is_a_view_of_the_history_witness:
  "history_view (\<lambda>_. None) [note_of (\<lambda>_. None) 1 5 12 6]
     (noteTask (\<lambda>_. None) 1 5 12 6 \<lparr>da_logins = 0, da_tasks = 0, da_made = 0, da_conns = (\<lambda>_. None),
        da_events = [], da_count = (\<lambda>_. 0), da_peak = 0\<rparr>)"
  using dashboard_is_a_view_of_the_history [of "\<lambda>_. None" "[]"]
  by (simp add: history_view_def last_n_def)

subsection \<open>Players\<close>

definition best_of :: "apiPlayer list \<Rightarrow> u64 \<Rightarrow> apiPlayer option" where
  "best_of pls = fold keep_player pls (\<lambda>_. None)"

lemma best_of_snoc: "best_of (pls @ [pl]) = keep_player pl (best_of pls)"
  by (simp add: best_of_def)

lemma best_of_none: "best_of pls k = None \<longleftrightarrow> k \<notin> ap_pid ` set pls"
proof (induction pls rule: rev_induct)
  case Nil
  then show ?case by (simp add: best_of_def)
next
  case (snoc pl pls)
  then show ?case by (cases "ap_pid pl = k") (auto simp: best_of_snoc keep_player_def split: option.splits)
qed

lemma best_of_some:
  "best_of pls k = Some x \<Longrightarrow>
   ap_pid x = k \<and> x \<in> set pls \<and> (\<forall>y \<in> set pls. ap_pid y = k \<longrightarrow> ap_idle x \<le> ap_idle y)"
proof (induction pls arbitrary: x rule: rev_induct)
  case Nil
  then show ?case by (simp add: best_of_def)
next
  case (snoc pl pls)
  show ?case
  proof (cases "ap_pid pl = k")
    case True
    show ?thesis
    proof (cases "best_of pls k")
      case None
      then have "ap_pid y \<noteq> k" if "y \<in> set pls" for y using that by (auto simp: best_of_none)
      then show ?thesis using snoc.prems None True by (auto simp: best_of_snoc keep_player_def)
    next
      case (Some prev)
      note prev = snoc.IH [OF this]
      show ?thesis
      proof (cases "ap_idle prev \<le> ap_idle pl")
        case True
        then show ?thesis using snoc.prems Some prev \<open>ap_pid pl = k\<close> by (auto simp: best_of_snoc keep_player_def)
      next
        case False
        then have "x = pl" using snoc.prems Some \<open>ap_pid pl = k\<close> by (simp add: best_of_snoc keep_player_def)
        then show ?thesis using prev False \<open>ap_pid pl = k\<close> by fastforce
      qed
    qed
  next
    case False
    then have "best_of (pls @ [pl]) k = best_of pls k"
      by (auto simp: best_of_snoc keep_player_def split: option.splits)
    then show ?thesis using snoc False by simp
  qed
qed

lemma set_map_filter: "set (List.map_filter f xs) = {y. \<exists>x \<in> set xs. f x = Some y}"
  by (induction xs) (auto simp: map_filter_simps split: option.splits)

lemma players_of_spec:
  shows "sorted (map ap_pid (players_of pls))" and "distinct (map ap_pid (players_of pls))"
    and "set (players_of pls) = {x. best_of pls (ap_pid x) = Some x}"
proof -
  let ?l = "List.map_filter (best_of pls) (remdups (map ap_pid pls))"
  have p: "players_of pls = sort_key ap_pid ?l" by (simp add: players_of_def best_of_def)
  show "sorted (map ap_pid (players_of pls))" by (simp add: p)
  have "map ap_pid (List.map_filter (best_of pls) ks) = filter (\<lambda>k. best_of pls k \<noteq> None) ks" for ks
    by (induction ks) (auto simp: map_filter_simps dest: best_of_some split: option.splits)
  then have "distinct (map ap_pid ?l)" by simp
  then show "distinct (map ap_pid (players_of pls))"
    by (simp add: p distinct_map inj_on_def)
  show "set (players_of pls) = {x. best_of pls (ap_pid x) = Some x}"
    using best_of_some [of pls] by (force simp: p set_map_filter)
qed

text \<open>The entry a connection of a known player would have by itself.\<close>

definition entries :: "dashInput \<Rightarrow> int \<Rightarrow> string \<Rightarrow> dashboard \<Rightarrow> apiPlayer list" where
  "entries i now game d =
     (let who = shown_players game (di_online i);
          public = List.map_filter (public_game who) (di_games i);
          hosting = fold (\<lambda>(n, g) h. h(n \<mapsto> g)) public (\<lambda>_. None);
          ctr = ctr_games game (name_of who (di_who i)) (di_rooms i) (di_mm i)
      in conn_players now who hosting (membership_of ctr) (di_conns i) d)"

lemma stats_players: "as_players (fst (buildGameStats i now game d)) = players_of (entries i now game d)"
  by (simp add: buildGameStats_def entries_def Let_def)

lemma api_player_pid: "ap_pid (api_player now h m n p c) = pl_pid p"
  by (simp add: api_player_def seated_def Let_def split: option.splits)

lemma conn_players_pids:
  "ap_pid ` set (conn_players now who h m ns d) =
   {pl_pid p | n p. n \<in> set ns \<and> da_conns d n \<noteq> None \<and> who n = Some p \<and> pl_pid p \<noteq> 0}"
proof (induction ns)
  case Nil
  then show ?case by (simp add: conn_players_def map_filter_simps)
next
  case (Cons n ns)
  let ?R = "\<lambda>ns. {pl_pid p | n p. n \<in> set ns \<and> da_conns d n \<noteq> None \<and> who n = Some p \<and> pl_pid p \<noteq> 0}"
  show ?case
  proof (cases "\<exists>c p. da_conns d n = Some c \<and> who n = Some p \<and> pl_pid p \<noteq> 0")
    case True
    then obtain c p where cp: "da_conns d n = Some c" "who n = Some p" "pl_pid p \<noteq> 0" by blast
    then have "?R (n # ns) = insert (pl_pid p) (?R ns)" by auto
    moreover have "conn_players now who h m (n # ns) d = api_player now h m n p c # conn_players now who h m ns d"
      using cp by (simp add: conn_players_def map_filter_simps)
    ultimately show ?thesis using Cons api_player_pid by simp
  next
    case False
    then have "?R (n # ns) = ?R ns" by auto
    moreover have "conn_players now who h m (n # ns) d = conn_players now who h m ns d"
      using False by (auto simp: conn_players_def map_filter_simps split: option.splits)
    ultimately show ?thesis using Cons by simp
  qed
qed

lemma entry_pids:
  "ap_pid ` set (entries i now game d) =
   {pl_pid p | n p. n \<in> set (di_conns i) \<and> da_conns d n \<noteq> None \<and>
      shown_players game (di_online i) n = Some p \<and> pl_pid p \<noteq> 0}"
  unfolding entries_def Let_def by (rule conn_players_pids)

lemma stats_counts:
  "as_inLobby (fst (buildGameStats i now game d)) \<le> as_connected (fst (buildGameStats i now game d))"
  "as_connected (fst (buildGameStats i now game d)) \<le> as_peak (fst (buildGameStats i now game d))"
  "da_peak (snd (buildGameStats i now game d)) = as_peak (fst (buildGameStats i now game d))"
  by (simp_all add: buildGameStats_def Let_def)

text \<open>C39: The dashboard lists every known player of the game with a registered connection exactly once, in the order
  of the numbers; of several connections it shows one that was active last, and no more players are in a
  lobby than connected, nor connected than at the peak.\<close>

theorem dashboard_lists_players_once:
  assumes "buildGameStats i now game d = (st, d')"
  shows "sorted (map ap_pid (as_players st)) \<and> distinct (map ap_pid (as_players st)) \<and>
    ap_pid ` set (as_players st) =
      {pl_pid p | n p. n \<in> set (di_conns i) \<and> da_conns d n \<noteq> None \<and>
        shown_players game (di_online i) n = Some p \<and> pl_pid p \<noteq> 0} \<and>
    (\<forall>x \<in> set (as_players st). x \<in> set (entries i now game d) \<and>
      (\<forall>y \<in> set (entries i now game d). ap_pid y = ap_pid x \<longrightarrow> ap_idle x \<le> ap_idle y)) \<and>
    as_inLobby st \<le> as_connected st \<and> as_connected st \<le> as_peak st \<and> da_peak d' = as_peak st"
proof -
  let ?e = "entries i now game d"
  have p: "as_players st = players_of ?e" using stats_players [of i now game d] assms by simp
  have pids: "ap_pid ` set (as_players st) = ap_pid ` set ?e"
  proof (intro equalityI subsetI)
    fix k assume "k \<in> ap_pid ` set (as_players st)"
    then obtain x where "x \<in> set (as_players st)" "k = ap_pid x" by blast
    moreover from this have "best_of ?e (ap_pid x) = Some x" by (simp add: p players_of_spec)
    ultimately show "k \<in> ap_pid ` set ?e" using best_of_some [of ?e "ap_pid x" x] by blast
  next
    fix k assume "k \<in> ap_pid ` set ?e"
    then obtain x where x: "best_of ?e k = Some x" using best_of_none [of ?e k] by auto
    then have "ap_pid x = k" using best_of_some by blast
    then show "k \<in> ap_pid ` set (as_players st)" using x by (auto simp: p players_of_spec(3) image_iff)
  qed
  have best: "x \<in> set ?e \<and> (\<forall>y \<in> set ?e. ap_pid y = ap_pid x \<longrightarrow> ap_idle x \<le> ap_idle y)"
    if "x \<in> set (as_players st)" for x
    using best_of_some [of ?e "ap_pid x" x] that by (simp add: p players_of_spec(3))
  have counts: "as_inLobby st \<le> as_connected st" "as_connected st \<le> as_peak st" "da_peak d' = as_peak st"
    using stats_counts [of i now game d] by (simp_all add: assms)
  have order: "sorted (map ap_pid (as_players st))" "distinct (map ap_pid (as_players st))"
    unfolding p by (rule players_of_spec)+
  show ?thesis
    unfolding pids entry_pids by (intro conjI ballI order refl best counts)
qed

definition ex_input :: dashInput where
  "ex_input = \<lparr>di_online = [1 \<mapsto> \<lparr>pl_username = ''ana'', pl_pid = 7, pl_sub = '''', pl_kind = ''switch'', pl_title = 5745\<rparr>,
       2 \<mapsto> \<lparr>pl_username = ''ana'', pl_pid = 7, pl_sub = '''', pl_kind = ''switch'', pl_title = 5745\<rparr>],
     di_who = [1, 2], di_conns = [1, 2], di_games = [], di_mm = empty_mm, di_rooms = [], di_names = [], di_start = 0, di_intros = 0\<rparr>"

definition ex_dash :: dashboard where
  "ex_dash = registerConn 2 ''b'' 5 (registerConn 1 ''a'' 0
     \<lparr>da_logins = 0, da_tasks = 0, da_made = 0, da_conns = (\<lambda>_. None), da_events = [], da_count = (\<lambda>_. 0), da_peak = 0\<rparr>)"

lemma dashboard_lists_players_once_witness:
  "ap_pid ` set (as_players (fst (buildGameStats ex_input 9 ''d3'' ex_dash))) = {7} \<and>
   distinct (map ap_pid (as_players (fst (buildGameStats ex_input 9 ''d3'' ex_dash))))"
proof -
  obtain st d' where st: "buildGameStats ex_input 9 ''d3'' ex_dash = (st, d')" by fastforce
  have "{pl_pid p | n p. n \<in> set (di_conns ex_input) \<and> da_conns ex_dash n \<noteq> None \<and>
      shown_players ''d3'' (di_online ex_input) n = Some p \<and> pl_pid p \<noteq> 0} = {7}"
    by (auto simp: ex_input_def ex_dash_def registerConn_def shown_players_def)
  then show ?thesis using dashboard_lists_players_once [OF st] st by simp
qed

end
