(* ===== verification/Tasks.thy ===== *)
theory Tasks
  imports Dashboard Stats Shop CtrSystem
begin

text \<open>
  The dispatch of the lobby's tasks (\<open>onTask\<close>, \<open>services.go\<close>) on the whole state of the server, what
  runs after a reply, and the life of a connection (\<open>lobby.go\<close> and the deferred calls of \<open>run\<close> in
  \<open>handshake.go\<close>). The arguments of all services are gathered in \<open>taskEnv\<close>; one reading of the clock
  serves a service that reads it once.
\<close>

subsection \<open>State\<close>

datatype after = AfterNothing | AfterShop afterReply | AfterNotices "ctrNotice list" | AfterSearch ctrSearch

record server =
  sv_social :: social
  sv_sessions :: sessions
  sv_relay :: relayTable
  sv_economy :: economyStore
  sv_stats :: ctrStatsStore
  sv_mm :: ctrMatchmaker
  sv_dash :: dashboard
  sv_disk :: pubDisk
  sv_docs :: "u64 \<Rightarrow> string"
  sv_txn :: u64

record taskEnv =
  en_world :: world
  en_now :: int
  en_clock :: "nat \<Rightarrow> int"
  en_rid :: "bytes option"
  en_order :: "bytes list"
  en_relay :: string
  en_listen :: "int \<Rightarrow> bool"
  en_catalog :: catalog
  en_start :: string
  en_rates :: raceRates
  en_sched :: challengeSchedule
  en_walk :: "u32 \<Rightarrow> u64 list"
  en_pub :: pubEnv
  en_rnd :: u32
  en_search :: "string \<Rightarrow> searchDoc option"
  en_info :: "string \<Rightarrow> playerInfo option"
  en_doc :: "string \<Rightarrow> hostDoc option"
  en_marshal :: "(string \<times> string) list \<Rightarrow> string"
  en_host :: "hostDoc \<Rightarrow> string"
  en_backend :: "backendDoc \<Rightarrow> string"

definition user :: "server \<Rightarrow> u64 \<Rightarrow> lobbyUser" where
  "user s n = \<lparr>lu_n = n, lu_player = so_players (sv_social s) n\<rparr>"

definition conn_of :: "u64 \<Rightarrow> conn" where "conn_of n = unat n"

definition relay_of :: "taskEnv \<Rightarrow> bytes \<Rightarrow> u64 \<Rightarrow> u64 \<Rightarrow> relayTable \<Rightarrow> bytes \<times> relayTable" where
  "relay_of e = withRelay (en_relay e) (en_listen e) (en_now e)"

subsection \<open>Services\<close>

definition svcStorage :: byte where "svcStorage = 10"
definition svcTitleUtilities :: byte where "svcTitleUtilities = 12"
definition svcMatchMaking :: byte where "svcMatchMaking = 21"
definition svcRichPresence :: byte where "svcRichPresence = 68"
definition svcMarketplace :: byte where "svcMarketplace = 80"
definition svcAchievements :: byte where "svcAchievements = 125"
definition svcAsyncMatchMaking :: byte where "svcAsyncMatchMaking = 145"
definition svcHTTPProxy :: byte where "svcHTTPProxy = 194"

lemmas svc_defs =
  svcStorage_def svcTitleUtilities_def svcMatchMaking_def svcRichPresence_def svcMarketplace_def
  svcAchievements_def svcAsyncMatchMaking_def svcHTTPProxy_def

text \<open>The reply, what follows it, and the server; \<open>None\<close> and \<open>Panic\<close> as in the shop.\<close>

type_synonym answer = "(bytes \<times> after \<times> server) outcome option"

definition answer :: "bytes \<Rightarrow> after \<Rightarrow> server \<Rightarrow> answer" where
  "answer b a s = Some (Return (b, a, s))"

definition empty_reply :: "u64 \<Rightarrow> byte \<Rightarrow> bytes" where "empty_reply txn task = taskReply txn task 0 None"
definition error_reply :: "u64 \<Rightarrow> byte \<Rightarrow> bytes" where "error_reply txn task = taskReply txn task errUnhandled None"
definition one_result :: "u64 \<Rightarrow> byte \<Rightarrow> bytes \<Rightarrow> bytes" where "one_result txn task b = taskReply txn task 0 (Some (b, 1))"

definition or_empty :: "u64 \<Rightarrow> byte \<Rightarrow> bytes option \<Rightarrow> bytes" where
  "or_empty txn task b = (case b of None \<Rightarrow> empty_reply txn task | Some b \<Rightarrow> b)"

definition stats_service :: "taskEnv \<Rightarrow> u64 \<Rightarrow> u64 \<Rightarrow> byte \<Rightarrow> bdReader \<Rightarrow> server \<Rightarrow> answer" where
  "stats_service e n txn task r s =
     (case onCTRStats (so_online (sv_social s)) (en_walk e) (en_clock e) (user s n) txn task r (sv_stats s) of
        (b, st) \<Rightarrow> answer b AfterNothing (s\<lparr>sv_stats := st\<rparr>))"

definition storage_service :: "taskEnv \<Rightarrow> u64 \<Rightarrow> byte \<Rightarrow> bdReader \<Rightarrow> server \<Rightarrow> answer" where
  "storage_service e txn task r s =
     (case rd_str r of (ctx, r) \<Rightarrow>
      case rd_str r of (name, r) \<Rightarrow>
      case (ctx, name) of
        (Inr _, Inr name) \<Rightarrow>
          (case publisherFile (en_pub e) (en_rnd e) (en_clock e) (str_of name) (sv_disk s) of
             (Loaded (Some b), d) \<Rightarrow> answer (one_result txn task (w_blobv b)) AfterNothing (s\<lparr>sv_disk := d\<rparr>)
           | (Loaded None, d) \<Rightarrow> answer (empty_reply txn task) AfterNothing (s\<lparr>sv_disk := d\<rparr>)
           | _ \<Rightarrow> Some Panic)
      | _ \<Rightarrow> answer (error_reply txn task) AfterNothing s)"

definition names_service :: "taskEnv \<Rightarrow> u64 \<Rightarrow> byte \<Rightarrow> bdReader \<Rightarrow> server \<Rightarrow> answer" where
  "names_service e txn task r s =
     (case onGetUserNames (en_world e) txn task r (sv_social s) of
        (b, so) \<Rightarrow> answer b AfterNothing (s\<lparr>sv_social := so\<rparr>))"

definition user_data_service :: "taskEnv \<Rightarrow> u64 \<Rightarrow> u64 \<Rightarrow> byte \<Rightarrow> bdReader \<Rightarrow> server \<Rightarrow> answer" where
  "user_data_service e n txn task r s =
     (case onUserData (en_world e) (user s n) txn task r (sv_social s) of
        (b, so) \<Rightarrow> answer (or_empty txn task b) AfterNothing (s\<lparr>sv_social := so\<rparr>))"

text \<open>The players of the asked friends, looked up one after the other.\<close>

fun friend_pids :: "world \<Rightarrow> u64 list \<Rightarrow> social \<Rightarrow> (u64 \<times> u64) list \<times> social" where
  "friend_pids w [] s = ([], s)"
| "friend_pids w (i # is) s =
     (case pidOnline w i s of (p, s) \<Rightarrow> case friend_pids w is s of (ps, s) \<Rightarrow> ((i, p) # ps, s))"

definition friend_games :: "taskEnv \<Rightarrow> u64 \<Rightarrow> bytes \<Rightarrow> u64 \<Rightarrow> byte \<Rightarrow> bdReader \<Rightarrow> server \<Rightarrow> answer" where
  "friend_games e n c txn task r s =
     (case friend_pids (en_world e) (rd_u64s r) (sv_social s) of (ps, so) \<Rightarrow>
      case onFriendSessions (relay_of e) (en_order e) (\<lambda>i. case map_of ps i of None \<Rightarrow> 0 | Some p \<Rightarrow> p)
             txn (user s n) c task r (sv_sessions s) (sv_relay s) of
        (b, t) \<Rightarrow> answer b AfterNothing (s\<lparr>sv_social := so, sv_relay := t\<rparr>))"

definition match_service :: "taskEnv \<Rightarrow> u64 \<Rightarrow> bytes \<Rightarrow> u64 \<Rightarrow> byte \<Rightarrow> bdReader \<Rightarrow> server \<Rightarrow> answer" where
  "match_service e n c txn task r s =
     (case onMatchMakingContext (relay_of e) (en_order e) (en_now e) (en_rid e) txn (user s n) c task r
             (sv_sessions s) (sv_relay s) of
        (b, m, t) \<Rightarrow> answer (or_empty txn task b) AfterNothing (s\<lparr>sv_sessions := m, sv_relay := t\<rparr>))"

definition context_service :: "taskEnv \<Rightarrow> u64 \<Rightarrow> u64 \<Rightarrow> byte \<Rightarrow> bdReader \<Rightarrow> server \<Rightarrow> answer" where
  "context_service e n txn task r s =
     (case rd_str r of
        (Inl _, _) \<Rightarrow> answer (error_reply txn task) AfterNothing s
      | (Inr ctx, r) \<Rightarrow>
          if ctx = [] then answer (error_reply txn task) AfterNothing s
          else if task \<in> {mmCreateSession, mmUpdateSession, mmDeleteSession, mmUpdatePlayers, mmRequestSessionID,
                          mmInitializeSession}
          then match_service e n (lit ''ctr:'' @ ctx) txn task r s
          else if task = 14 then friend_games e n (lit ''ctr:'' @ ctx) txn task r s
          else answer (error_reply txn task) AfterNothing s)"

definition presence_service :: "taskEnv \<Rightarrow> u64 \<Rightarrow> u64 \<Rightarrow> byte \<Rightarrow> bdReader \<Rightarrow> server \<Rightarrow> answer" where
  "presence_service e n txn task r s =
     (case onRichPresence (en_world e) (user s n) txn task r (sv_social s) of
        (b, so) \<Rightarrow> answer b AfterNothing (s\<lparr>sv_social := so\<rparr>))"

definition achievements_service :: "taskEnv \<Rightarrow> u64 \<Rightarrow> u64 \<Rightarrow> byte \<Rightarrow> bytes \<Rightarrow> server \<Rightarrow> answer" where
  "achievements_service e n txn task payload s =
     (case onAchievements (en_catalog e) (startingBalance (en_start e)) (en_rates e) (en_sched e) (en_clock e) (pid (user s n)) txn
             task payload (sv_economy s) of
        (b, a, ec) \<Rightarrow> answer (or_empty txn task b) (AfterShop a) (s\<lparr>sv_economy := ec\<rparr>))"

definition marketplace_service :: "taskEnv \<Rightarrow> u64 \<Rightarrow> u64 \<Rightarrow> byte \<Rightarrow> bytes \<Rightarrow> server \<Rightarrow> answer" where
  "marketplace_service e n txn task payload s =
     (case onMarketplace (en_catalog e) (startingBalance (en_start e)) (pid (user s n)) txn task payload (sv_economy s) of
        None \<Rightarrow> None
      | Some Panic \<Rightarrow> Some Panic
      | Some (Return (b, a, ec)) \<Rightarrow> answer (or_empty txn task b) (AfterShop a) (s\<lparr>sv_economy := ec\<rparr>))"

definition enroll_body :: string where
  "enroll_body =
     ''{'' @ [dquote] @ ''expiresIn'' @ [dquote] @ '':3600,'' @ [dquote] @ ''ABToken'' @ [dquote] @ '':'' @
     [dquote] @ ''nextendo'' @ [dquote] @ '','' @ [dquote] @ ''enrollments'' @ [dquote] @ '':[]}''"

subsection \<open>Asynchronous matchmaking\<close>

definition sync_documents :: "taskEnv \<Rightarrow> u64 \<Rightarrow> u64 \<Rightarrow> byte \<Rightarrow> bdReader \<Rightarrow> server \<Rightarrow> answer" where
  "sync_documents e n txn task r s =
     (case rd_u64 r of (i, r) \<Rightarrow>
      case rd_u64 r of (version, r) \<Rightarrow>
      case rd_str r of (raw, r) \<Rightarrow>
      case (i, version, raw) of
        (Inr i, Inr version, Inr raw) \<Rightarrow>
          (case syncDoc (unix (en_now e)) (conn_of n) (unat i) (unat version) (en_doc e (str_of raw)) (sv_mm s) of
             (m, ok, notices) \<Rightarrow>
               answer (one_result txn task (w_boolv ok)) (AfterNotices notices) (s\<lparr>sv_mm := m\<rparr>))
      | _ \<Rightarrow> answer (one_result txn task (w_boolv False)) AfterNothing s)"

definition mm_document :: "nat \<Rightarrow> string" where
  "mm_document i = ''{'' @ [dquote] @ ''mm_id'' @ [dquote] @ '':'' @ dec_string i @ ''}''"

definition start_search :: "taskEnv \<Rightarrow> u64 \<Rightarrow> u64 \<Rightarrow> byte \<Rightarrow> bdReader \<Rightarrow> server \<Rightarrow> answer" where
  "start_search e n txn task r s =
     (case rd_str r of
        (Inl _, _) \<Rightarrow> answer (error_reply txn task) AfterNothing s
      | (Inr raw, _) \<Rightarrow>
          (case parse_search (en_marshal e) (conn_of n) (pid (user s n)) (en_search e (str_of raw))
                  (en_info e (sv_docs s n)) (mm_next (sv_mm s)) of
             None \<Rightarrow> answer (error_reply txn task) AfterNothing s
           | Some q \<Rightarrow>
               answer (one_result txn task (w_strv (lit (mm_document (sr_id q))))) (AfterSearch q)
                 (s\<lparr>sv_mm := (sv_mm s)\<lparr>mm_next := sr_id q\<rparr>\<rparr>)))"

definition lobby_documents :: "taskEnv \<Rightarrow> u64 \<Rightarrow> u64 \<Rightarrow> byte \<Rightarrow> bdReader \<Rightarrow> server \<Rightarrow> answer" where
  "lobby_documents e n txn task r s =
     (case rd_u64 r of
        (Inl _, _) \<Rightarrow> answer (error_reply txn task) AfterNothing s
      | (Inr i, _) \<Rightarrow>
          (case room_documents (unix (en_now e)) (conn_of n) (unat i) (sv_mm s) of
             None \<Rightarrow> answer (error_reply txn task) AfterNothing s
           | Some (h, b) \<Rightarrow>
               answer (one_result txn task (w_strv (lit (en_host e h)) @ w_strv (lit (en_backend e b)))) AfterNothing s))"

definition async_service :: "taskEnv \<Rightarrow> u64 \<Rightarrow> u64 \<Rightarrow> byte \<Rightarrow> bdReader \<Rightarrow> server \<Rightarrow> answer" where
  "async_service e n txn task r s =
     (if task = 2 then
        answer (empty_reply txn task) AfterNothing
          (case rd_str r of
             (Inr doc, _) \<Rightarrow> if doc \<noteq> [] then s\<lparr>sv_docs := (sv_docs s)(n := str_of doc)\<rparr> else s
           | (Inl _, _) \<Rightarrow> s)
      else if task = 15 then sync_documents e n txn task r s
      else if task = 3 then answer (one_result txn task (w_u64 (pid (user s n)))) AfterNothing s
      else if task = 18 then start_search e n txn task r s
      else if task = 8 then
        (case rd_u64 r of
           (Inl _, _) \<Rightarrow> answer (one_result txn task (w_boolv False)) AfterNothing s
         | (Inr i, _) \<Rightarrow>
             (case cancel (conn_of n) (unat i) (sv_mm s) of
                (m, ok) \<Rightarrow> answer (one_result txn task (w_boolv ok)) AfterNothing (s\<lparr>sv_mm := m\<rparr>)))
      else if task = 10 then
        answer (empty_reply txn task) AfterNothing
          (case rd_u64 r of
             (Inl _, _) \<Rightarrow> s | (Inr i, _) \<Rightarrow> s\<lparr>sv_mm := leave (conn_of n) (unat i) (sv_mm s)\<rparr>)
      else if task \<in> {6, 7, 5, 17} then
        answer (one_result txn task (w_strv (lit (fmt_u64 (pid (user s n)))))) AfterNothing s
      else if task = 4 \<or> task = 14 then answer (empty_reply txn task) AfterNothing s
      else if task = 13 then lobby_documents e n txn task r s
      else answer (empty_reply txn task) AfterNothing s)"

subsection \<open>The dispatch\<close>

definition ctr_player :: "lobbyUser \<Rightarrow> bool" where
  "ctr_player l \<longleftrightarrow> (case lu_player l of None \<Rightarrow> False | Some p \<Rightarrow> pl_title p = 5775)"

definition serve :: "taskEnv \<Rightarrow> u64 \<Rightarrow> byte \<Rightarrow> u64 \<Rightarrow> byte \<Rightarrow> bdReader \<Rightarrow> bytes \<Rightarrow> server \<Rightarrow> answer" where
  "serve e n service txn task r payload s =
     (if service = 4 \<and> ctr_player (user s n) then stats_service e n txn task r s
      else if service = svcTitleUtilities \<and> task = 6 then
        answer (one_result txn task (w_u32 (word_of_int (unix (en_now e))))) AfterNothing s
      else if service = svcStorage \<and> task = 21 then storage_service e txn task r s
      else if service = svcTitleUtilities \<and> task = 9 then names_service e txn task r s
      else if service = 29 \<and> (task = 1 \<or> task = 4) then user_data_service e n txn task r s
      else if service = 138 then context_service e n txn task r s
      else if service = svcRichPresence then presence_service e n txn task r s
      else if service = svcAsyncMatchMaking then async_service e n txn task r s
      else if service = svcHTTPProxy \<and> task = 1 then
        answer (httpProxyReply txn task 200 (lit enroll_body)) AfterNothing s
      else if service = svcAchievements then achievements_service e n txn task payload s
      else if service = svcMarketplace then marketplace_service e n txn task payload s
      else if service = svcMatchMaking then match_service e n (lit ''d3'') txn task r s
      else answer (empty_reply txn task) AfterNothing s)"

text \<open>
  A payload of fewer than three bytes gets no reply. \<open>transactions\<close> gives every reply the next
  number.
\<close>

definition onTask :: "taskEnv \<Rightarrow> u64 \<Rightarrow> bytes \<Rightarrow> server \<Rightarrow> (bytes option \<times> after \<times> server) outcome option" where
  "onTask e n payload s =
     (if length payload < 3 then Some (Return (None, AfterNothing, s))
      else
        let txn = sv_txn s + 1; s' = s\<lparr>sv_txn := txn\<rparr> in
        case rd_u8 \<lparr>rbuf = payload, roff = 1\<rparr> of
          (Inl _, _) \<Rightarrow> Some (Return (Some (empty_reply txn (payload ! 2)), AfterNothing, s'))
        | (Inr task, r) \<Rightarrow>
            (case serve e n (payload ! 0) txn task r payload
                    (s'\<lparr>sv_dash := noteTask (so_online (sv_social s)) n (en_now e) (payload ! 0) task (sv_dash s)\<rparr>) of
               None \<Rightarrow> None
             | Some Panic \<Rightarrow> Some Panic
             | Some (Return (b, a, s)) \<Rightarrow> Some (Return (Some b, a, s))))"

subsection \<open>After the reply\<close>

definition notice_push :: "taskEnv \<Rightarrow> ctrNotice \<Rightarrow> conn \<times> bytes" where
  "notice_push e nt =
     (nt_conn nt,
      pushPayload (of_nat (nt_event nt))
        (concat (map (\<lambda>i. w_u64 (of_nat i)) (nt_ids nt)) @ w_strv (lit (en_host e (nt_host nt))) @
         w_strv (lit (en_backend e (nt_backend nt)))))"

text \<open>The pushes, each with its connection, and the server.\<close>

definition after_reply :: "taskEnv \<Rightarrow> u64 \<Rightarrow> after \<Rightarrow> server \<Rightarrow> (conn \<times> bytes) list \<times> server" where
  "after_reply e n a s =
     (case a of
        AfterNothing \<Rightarrow> ([], s)
      | AfterShop a \<Rightarrow>
          (case run_after (en_catalog e) (startingBalance (en_start e)) (pid (user s n)) a (sv_economy s) of
             (pushes, ec) \<Rightarrow> (map (Pair (conn_of n)) pushes, s\<lparr>sv_economy := ec\<rparr>))
      | AfterNotices ns \<Rightarrow> (map (notice_push e) ns, s)
      | AfterSearch q \<Rightarrow>
          (case enqueue (unix (en_now e)) q (sv_mm s) of
             (m, ns) \<Rightarrow> (map (notice_push e) ns, s\<lparr>sv_mm := m\<rparr>)))"

subsection \<open>Connections\<close>

definition open_conn :: "u64 \<Rightarrow> string \<Rightarrow> int \<Rightarrow> server \<Rightarrow> server" where
  "open_conn n addr now s =
     s\<lparr>sv_dash := registerConn n addr now (sv_dash s), sv_docs := (sv_docs s)(n := ''''),
       sv_social := (sv_social s)\<lparr>so_players := (so_players (sv_social s))(n := None)\<rparr>\<rparr>"

text \<open>The deferred calls, last in first out.\<close>

definition close_conn :: "u64 list \<Rightarrow> u64 \<Rightarrow> int \<Rightarrow> server \<Rightarrow> server" where
  "close_conn walk n now s =
     (let s = s\<lparr>sv_social := dropOnline walk n (sv_social s)\<rparr>;
          s = s\<lparr>sv_mm := leave (conn_of n) 0 (sv_mm s)\<rparr>;
          s = s\<lparr>sv_sessions := dropSessionsOf now n (sv_sessions s)\<rparr>
      in s\<lparr>sv_dash := unregisterConn n (sv_dash s)\<rparr>)"

end
