(* ===== verification/TaskProps.thy ===== *)
theory TaskProps
  imports Tasks FriendsProps StatsProps ShopProps PubfileProps CtrProps
begin

text \<open>
  Every task that returns is answered once: the lemmas of each service, then the dispatch.
\<close>

subsection \<open>Replies\<close>

definition answers :: "u64 \<Rightarrow> bytes \<Rightarrow> bool" where
  "answers txn b \<longleftrightarrow> (\<exists>err rest. b = w_u64 txn @ w_u32 err @ rest)"

lemma answers_taskReply [simp]: "answers txn (taskReply txn task err res)"
  by (auto simp: answers_def taskReply_def Let_def split: option.splits prod.splits)

lemma answers_replies [simp]:
  "answers txn (structTaskReply txn task sb)" "answers txn (httpProxyReply txn task status body)"
  "answers txn (empty_reply txn task)" "answers txn (error_reply txn task)" "answers txn (one_result txn task bs)"
  by (auto simp: structTaskReply_def httpProxyReply_def empty_reply_def error_reply_def one_result_def
      answers_def [of _ "_ @ _"] Let_def)

lemma answers_statsReply [simp]: "answers txn (statsReply txn task rows tot)"
  by (auto simp: answers_def statsReply_def)

lemma stats_task_answers: "stats_task online walk clock l txn task r st = (Inr b, st') \<Longrightarrow> answers txn b"
  by (auto simp: stats_task_def split: option.splits if_splits sum.splits prod.splits)

lemma answers_stats: "answers txn (fst (onCTRStats online walk clock l txn task r st))"
  using stats_task_answers [of online walk clock l txn task r st]
  by (auto simp: onCTRStats_def split: sum.splits prod.splits)

lemma answers_match:
  "onMatchMakingContext rel order now rid txn l c task r m t = (Some b, m', t') \<Longrightarrow> answers txn b"
  by (auto simp: onMatchMakingContext_def reserveSession_def createSession_def updateSession_def
      updatePlayers_def deleteSession_def findSessions_def Let_def
      split: if_splits option.splits sum.splits prod.splits)

lemma answers_or_empty: "(\<And>x. b = Some x \<Longrightarrow> answers txn x) \<Longrightarrow> answers txn (or_empty txn task b)"
  by (cases b) (auto simp: or_empty_def)

lemma answers_user_data: "onUserData w l txn task r so = (Some b, so') \<Longrightarrow> answers txn b"
  by (auto simp: onUserData_def split: if_splits option.splits sum.splits prod.splits)

lemma answers_names: "answers txn (fst (onGetUserNames w txn task r so))"
  by (simp add: onGetUserNames_def split: prod.splits)

lemma answers_presence: "answers txn (fst (onRichPresence w l txn task r so))"
  by (simp add: onRichPresence_def Let_def split: prod.splits)

lemma answers_friends: "onFriendSessions rel order f txn l c task r m t = (b, t') \<Longrightarrow> answers txn b"
  by (auto simp: onFriendSessions_def Let_def split: prod.splits)

lemma answers_achievements:
  "onAchievements cat start rates sched clock p txn task payload ec = (Some b, a, ec') \<Longrightarrow> answers txn b"
  by (auto simp: onAchievements_def Shop.failed_def Let_def split: if_splits sum.splits prod.splits)

lemma answers_market:
  "onMarketplace cat start p txn task payload ec = Some (Return (Some b, a, ec')) \<Longrightarrow> answers txn b"
  by (auto simp: onMarketplace_def onBalances_def onInventory_def onPurchase_def Shop.failed_def Let_def
      split: if_splits sum.splits prod.splits option.splits outcome.splits)

subsection \<open>Services\<close>

text \<open>A service that returns answers the task, counts no further reply and leaves the matchmaker alone.\<close>

definition answered :: "u64 \<Rightarrow> server \<Rightarrow> answer \<Rightarrow> bool" where
  "answered txn s x \<longleftrightarrow>
     (\<forall>b a s'. x = Some (Return (b, a, s')) \<longrightarrow> answers txn b \<and> sv_txn s' = sv_txn s)"

definition quiet :: "server \<Rightarrow> answer \<Rightarrow> bool" where
  "quiet s x \<longleftrightarrow>
     (\<forall>b a s'. x = Some (Return (b, a, s')) \<longrightarrow> sv_mm s' = sv_mm s \<and> (\<forall>q. a \<noteq> AfterSearch q))"

definition returns :: "answer \<Rightarrow> bool" where "returns x \<longleftrightarrow> x \<noteq> None \<and> x \<noteq> Some Panic"

lemma answer_simps [simp]:
  "answered txn s (answer b a s') \<longleftrightarrow> answers txn b \<and> sv_txn s' = sv_txn s"
  "quiet s (answer b a s') \<longleftrightarrow> sv_mm s' = sv_mm s \<and> (\<forall>q. a \<noteq> AfterSearch q)"
  "returns (answer b a s')"
  "answered txn s (Some Panic)" "quiet s (Some Panic)" "answered txn s None" "quiet s None"
  by (auto simp: answered_def quiet_def returns_def answer_def)

lemma stats_service_ok:
  "answered txn s (stats_service e n txn task r s)" "quiet s (stats_service e n txn task r s)"
  "returns (stats_service e n txn task r s)"
  using answers_stats [of txn "so_online (sv_social s)" "en_walk e" "en_clock e" "user s n" task r "sv_stats s"]
  by (auto simp: stats_service_def split: prod.splits)

lemma storage_service_ok:
  "answered txn s (storage_service e txn task r s)" "quiet s (storage_service e txn task r s)"
  by (auto simp: storage_service_def split: prod.splits sum.splits loaded.splits option.splits)

lemma names_service_ok:
  "answered txn s (names_service e txn task r s)" "quiet s (names_service e txn task r s)"
  "returns (names_service e txn task r s)"
  using answers_names [of txn "en_world e" task r "sv_social s"]
  by (auto simp: names_service_def split: prod.splits)

lemma user_data_service_ok:
  "answered txn s (user_data_service e n txn task r s)" "quiet s (user_data_service e n txn task r s)"
  "returns (user_data_service e n txn task r s)"
  using answers_user_data [of "en_world e" "user s n" txn task r "sv_social s"]
  by (auto simp: user_data_service_def intro!: answers_or_empty split: prod.splits)

lemma match_service_ok:
  "answered txn s (match_service e n c txn task r s)" "quiet s (match_service e n c txn task r s)"
  "returns (match_service e n c txn task r s)"
  using answers_match [of "relay_of e" "en_order e" "en_now e" "en_rid e" txn "user s n" c task r
      "sv_sessions s" "sv_relay s"]
  by (auto simp: match_service_def intro!: answers_or_empty split: prod.splits)

lemma friend_games_ok:
  "answered txn s (friend_games e n c txn task r s)" "quiet s (friend_games e n c txn task r s)"
  "returns (friend_games e n c txn task r s)"
  by (auto simp: friend_games_def split: prod.splits intro: answers_friends)

lemma context_service_ok:
  "answered txn s (context_service e n txn task r s)" "quiet s (context_service e n txn task r s)"
  "returns (context_service e n txn task r s)"
  by (auto simp: context_service_def match_service_ok friend_games_ok split: prod.splits sum.splits)

lemma presence_service_ok:
  "answered txn s (presence_service e n txn task r s)" "quiet s (presence_service e n txn task r s)"
  "returns (presence_service e n txn task r s)"
  using answers_presence [of txn "en_world e" "user s n" task r "sv_social s"]
  by (auto simp: presence_service_def split: prod.splits)

lemma achievements_service_ok:
  "answered txn s (achievements_service e n txn task payload s)"
  "quiet s (achievements_service e n txn task payload s)"
  "returns (achievements_service e n txn task payload s)"
  using answers_achievements [of "en_catalog e" "startingBalance (en_start e)" "en_rates e" "en_sched e" "en_clock e"
      "pid (user s n)" txn task payload "sv_economy s"]
  by (auto simp: achievements_service_def intro!: answers_or_empty split: prod.splits)

lemma marketplace_service_ok:
  "answered txn s (marketplace_service e n txn task payload s)"
  "quiet s (marketplace_service e n txn task payload s)"
  using answers_market [of "en_catalog e" "startingBalance (en_start e)" "pid (user s n)" txn task payload "sv_economy s"]
  by (auto simp: marketplace_service_def intro!: answers_or_empty split: prod.splits option.splits outcome.splits)

lemma async_service_answered:
  "answered txn s (async_service e n txn task r s)" "returns (async_service e n txn task r s)"
  by (auto simp: async_service_def sync_documents_def start_search_def lobby_documents_def
      split: prod.splits sum.splits option.splits)

subsection \<open>The dispatch\<close>

lemmas service_ok =
  stats_service_ok storage_service_ok names_service_ok user_data_service_ok match_service_ok
  context_service_ok presence_service_ok achievements_service_ok marketplace_service_ok async_service_answered

lemma serve_answered: "answered txn s (serve e n service txn task r payload s)"
  by (simp add: serve_def service_ok)

lemma serve_quiet: "service \<noteq> svcAsyncMatchMaking \<Longrightarrow> quiet s (serve e n service txn task r payload s)"
  by (simp add: serve_def service_ok)

lemma serve_returns:
  "service \<noteq> svcMarketplace \<Longrightarrow> service \<noteq> svcStorage \<Longrightarrow> returns (serve e n service txn task r payload s)"
  by (simp add: serve_def service_ok)

definition note_server :: "taskEnv \<Rightarrow> u64 \<Rightarrow> byte \<Rightarrow> byte \<Rightarrow> server \<Rightarrow> server" where
  "note_server e n service task s =
     s\<lparr>sv_txn := sv_txn s + 1,
       sv_dash := noteTask (so_online (sv_social s)) n (en_now e) service task (sv_dash s)\<rparr>"

lemma note_server_simps [simp]:
  "sv_txn (note_server e n service task s) = sv_txn s + 1" "sv_mm (note_server e n service task s) = sv_mm s"
  by (simp_all add: note_server_def)

lemma onTask_long:
  assumes "length payload \<ge> 3"
  obtains (unread) "onTask e n payload s =
      Some (Return (Some (empty_reply (sv_txn s + 1) (payload ! 2)), AfterNothing, s\<lparr>sv_txn := sv_txn s + 1\<rparr>))"
  | (read) task r where "onTask e n payload s =
      (case serve e n (payload ! 0) (sv_txn s + 1) task r payload (note_server e n (payload ! 0) task s) of
         None \<Rightarrow> None | Some Panic \<Rightarrow> Some Panic | Some (Return (b, a, s')) \<Rightarrow> Some (Return (Some b, a, s')))"
proof (cases "rd_u8 \<lparr>rbuf = payload, roff = 1\<rparr>")
  case (Pair v r)
  then show ?thesis
    using assms that by (cases v) (simp_all add: onTask_def note_server_def Let_def)
qed

lemma onTask_result:
  assumes "length payload \<ge> 3" and "onTask e n payload s = Some (Return (x, a, s'))"
  obtains (unread) "x = Some (empty_reply (sv_txn s + 1) (payload ! 2))" "a = AfterNothing"
      "s' = s\<lparr>sv_txn := sv_txn s + 1\<rparr>"
  | (read) task r b where "x = Some b"
      "serve e n (payload ! 0) (sv_txn s + 1) task r payload (note_server e n (payload ! 0) task s) = Some (Return (b, a, s'))"
  using assms(2) by (cases rule: onTask_long [OF assms(1), of e n s]) (auto split: option.splits outcome.splits)

lemma onTask_answers:
  assumes "length payload \<ge> 3" and "onTask e n payload s = Some (Return (x, a, s'))"
  shows "sv_txn s' = sv_txn s + 1 \<and> (\<exists>b. x = Some b \<and> answers (sv_txn s + 1) b)"
proof (cases rule: onTask_result [OF assms])
  case (2 task r b)
  then show ?thesis
    using serve_answered [of "sv_txn s + 1" "note_server e n (payload ! 0) task s" e n "payload ! 0" task r payload]
    by (auto simp: answered_def)
qed auto

lemma onTask_returns:
  assumes "length payload \<ge> 3" and "payload ! 0 \<notin> {svcMarketplace, svcStorage}"
  shows "\<exists>r. onTask e n payload s = Some (Return r)"
proof (cases rule: onTask_long [OF assms(1), of e n s])
  case (2 task r)
  have "returns (serve e n (payload ! 0) (sv_txn s + 1) task r payload (note_server e n (payload ! 0) task s))"
    using assms(2) by (intro serve_returns) auto
  with 2 show ?thesis by (auto simp: returns_def split: option.splits outcome.splits)
qed auto

text \<open>C16: Every task of three bytes or more gets one reply: whatever service and task it names, when the handler
  returns it has built a reply that starts with the next number of the server and an error code, and it
  has counted one reply. Only a task of the storage service or of the marketplace may fail to return.\<close>

theorem task_answered_once:
  assumes "length payload \<ge> 3"
  shows "(\<forall>x a s'. onTask e n payload s = Some (Return (x, a, s')) \<longrightarrow>
      sv_txn s' = sv_txn s + 1 \<and> (\<exists>b. x = Some b \<and> answers (sv_txn s') b)) \<and>
    (payload ! 0 \<notin> {svcMarketplace, svcStorage} \<longrightarrow> (\<exists>r. onTask e n payload s = Some (Return r)))"
  using onTask_answers [OF assms] onTask_returns [OF assms] by fastforce

subsection \<open>A server and its arguments\<close>

definition start_server :: "relayTable \<Rightarrow> economyStore \<Rightarrow> ctrStatsStore \<Rightarrow> pubDisk \<Rightarrow> server" where
  "start_server relay economy stats disk =
     \<lparr>sv_social = start_social, sv_sessions = Map.empty, sv_relay = relay, sv_economy = economy, sv_stats = stats,
      sv_mm = empty_mm,
      sv_dash = \<lparr>da_logins = 0, da_tasks = 0, da_made = 0, da_conns = Map.empty, da_events = [],
                 da_count = (\<lambda>_. 0), da_peak = 0\<rparr>,
      sv_disk = disk, sv_docs = (\<lambda>_. ''''), sv_txn = 0\<rparr>"

definition ex_server :: server where
  "ex_server = start_server
     \<lparr>rt_pairs = Map.empty, rt_byPort = Map.empty, rt_low = 0, rt_high = 0, rt_next = 0, rt_ip = (0, 0, 0, 0)\<rparr>
     ex_store ex_stats
     \<lparr>pd_config = Absent, pd_riftNames = None, pd_rift = Map.empty, pd_pubNames = None, pd_pub = Map.empty\<rparr>"

definition ex_taskEnv :: taskEnv where
  "ex_taskEnv = \<lparr>en_world = \<lparr>wo_files = Map.empty, wo_walk = [], wo_now = 0, wo_log = None, wo_server = Map.empty\<rparr>,
     en_now = 0, en_clock = (\<lambda>_. 0), en_rid = None, en_order = [], en_relay = '''', en_listen = (\<lambda>_. True),
     en_catalog = ex_catalog, en_start = ''1000'', en_rates = ex_rates, en_sched = ex_schedule, en_walk = (\<lambda>_. []),
     en_pub = ex_pubEnv, en_rnd = 0, en_search = (\<lambda>_. Some (ex_doc 11)), en_info = (\<lambda>_. Some (ex_info 7)),
     en_doc = (\<lambda>_. None), en_marshal = ex_marshal, en_host = (\<lambda>_. ''''), en_backend = (\<lambda>_. '''')\<rparr>"

lemma task_answered_once_witness:
  "\<exists>b a s'. onTask ex_taskEnv 1 [svcTitleUtilities, 3, 6] ex_server = Some (Return (Some b, a, s')) \<and>
     answers 1 b \<and> sv_txn s' = 1"
proof -
  have "length [svcTitleUtilities, 3, 6] \<ge> 3" by simp
  note claim = task_answered_once [OF this, of ex_taskEnv 1 ex_server]
  moreover have "[svcTitleUtilities, 3, 6] ! 0 \<notin> {svcMarketplace, svcStorage}"
    by (simp add: svc_defs)
  ultimately obtain x a s' where "onTask ex_taskEnv 1 [svcTitleUtilities, 3, 6] ex_server = Some (Return (x, a, s'))"
    by (metis prod_cases3)
  moreover have "sv_txn ex_server = 0" by (simp add: ex_server_def start_server_def)
  ultimately show ?thesis using claim by fastforce
qed

end
