(* ===== verification/Server.thy ===== *)
theory Server
  imports TaskProps Transition
begin

text \<open>
  The server as a state machine: connections open, identify, send tasks, get what follows the reply, and close,
  in any order, next to the periodic work.
\<close>

subsection \<open>The server as a state machine\<close>

record serverRun =
  ru_server :: server
  ru_used :: "u64 set"
  ru_open :: "u64 set"
  ru_keyed :: "u64 set"
  ru_pending :: "(u64 \<times> after) list"

definition run_init :: "serverRun \<Rightarrow> bool" where
  "run_init v \<longleftrightarrow>
     (\<exists>relay economy stats disk.
        v = \<lparr>ru_server = start_server relay economy stats disk, ru_used = {}, ru_open = {}, ru_keyed = {},
          ru_pending = []\<rparr>)"

text \<open>The periodic work, and the requests of the dashboard.\<close>

inductive background :: "server \<Rightarrow> server \<Rightarrow> bool" where
  sessions_reaped: "background s (s\<lparr>sv_sessions := reapSessionsOnce now (sv_sessions s)\<rparr>)"
| relayed: "background s (s\<lparr>sv_relay := fst (serve_packet now key src (sv_relay s))\<rparr>)"
| relay_reaped: "background s (s\<lparr>sv_relay := relay_reap now (sv_relay s)\<rparr>)"
| retried: "background s (s\<lparr>sv_social := retryPending files walk (sv_social s)\<rparr>)"
| watched: "dashboard_request env rnd clock token i path key game (sv_dash s) (sv_disk s) = (ans, d, disk) \<Longrightarrow>
    background s (s\<lparr>sv_dash := d, sv_disk := disk\<rparr>)"

text \<open>
  The numbers of connections do not repeat (they are counted in 64 bits). A connection handles its messages one
  after the other: first the one that proves its key, which identifies the player, then its tasks; it
  takes the next one, or closes, once what follows the last reply was done. A task is one step: what its
  parts do under different locks is not told apart.
\<close>

inductive server_step ::
    "((string \<times> string) list \<Rightarrow> string) \<Rightarrow> serverRun \<Rightarrow> serverRun \<Rightarrow> bool"
  for marshal :: "(string \<times> string) list \<Rightarrow> string" where
  opened: "n \<notin> ru_used v \<Longrightarrow>
    server_step marshal v
      (v\<lparr>ru_server := open_conn n addr now (ru_server v), ru_used := insert n (ru_used v),
         ru_open := insert n (ru_open v)\<rparr>)"
| identified: "n \<in> ru_open v \<Longrightarrow> n \<notin> ru_keyed v \<Longrightarrow>
    server_step marshal v
      (v\<lparr>ru_server := (ru_server v)\<lparr>sv_social := loadIdentity files n ticket (sv_social (ru_server v))\<rparr>,
         ru_keyed := insert n (ru_keyed v)\<rparr>)"
| served: "n \<in> ru_keyed v \<Longrightarrow> n \<notin> fst ` set (ru_pending v) \<Longrightarrow> en_marshal e = marshal \<Longrightarrow>
    onTask e n payload (ru_server v) = Some (Return (x, a, s')) \<Longrightarrow>
    server_step marshal v (v\<lparr>ru_server := s', ru_pending := ru_pending v @ [(n, a)]\<rparr>)"
| replied: "(n, a) \<in> set (ru_pending v) \<Longrightarrow>
    server_step marshal v
      (v\<lparr>ru_server := snd (after_reply e n a (ru_server v)), ru_pending := remove1 (n, a) (ru_pending v)\<rparr>)"
| closed: "n \<in> ru_open v \<Longrightarrow> n \<notin> fst ` set (ru_pending v) \<Longrightarrow>
    server_step marshal v
      (v\<lparr>ru_server := close_conn walk n now (ru_server v), ru_open := ru_open v - {n},
         ru_keyed := ru_keyed v - {n}\<rparr>)"
| worked: "background (ru_server v) s' \<Longrightarrow> server_step marshal v (v\<lparr>ru_server := s'\<rparr>)"

inductive_cases server_stepE: "server_step marshal v v'"

end
