(* ===== verification/Network.thy ===== *)
theory Network
  imports Server HandshakeProps
begin

text \<open>
  The connections of the lobby over the state of the server (\<open>run\<close>, \<open>onEncrypted\<close> and \<open>sendEncrypted\<close>, \<open>handshake.go\<close>;
  \<open>sendPush\<close>, \<open>services.go\<close>): what a frame of a connection does to its channel, to the server and to what is sent.
\<close>

subsection \<open>Connections\<close>

text \<open>A connection before its hello, in its loop, and after the loop.\<close>

datatype phase = Accepted | Talking lobbyConn | Ended

record network =
  nw_run :: serverRun
  nw_conns :: "u64 \<Rightarrow> phase"
  nw_out :: "(u64 \<times> bytes) list"

definition innerTaskReply :: byte where "innerTaskReply = 0x01"
definition innerPush :: byte where "innerPush = 0x02"

definition sends :: "event list \<Rightarrow> bytes list" where
  "sends evs = List.map_filter (\<lambda>ev. case ev of EvSend b \<Rightarrow> Some b | EvTask _ \<Rightarrow> None) evs"

definition tasks :: "event list \<Rightarrow> bytes list" where
  "tasks evs = List.map_filter (\<lambda>ev. case ev of EvTask p \<Rightarrow> Some p | EvSend _ \<Rightarrow> None) evs"

text \<open>A message to a connection: it needs the keys of the handshake; \<open>iv\<close> gives the random vectors.\<close>

definition send_to :: "(u64 \<Rightarrow> u32 \<Rightarrow> bytes) \<Rightarrow> byte \<Rightarrow> u64 \<times> bytes \<Rightarrow> network \<Rightarrow> network" where
  "send_to iv inner m w =
     (case nw_conns w (fst m) of
        Talking l \<Rightarrow>
          (case lc_keys l of
             None \<Rightarrow> w
           | Some k \<Rightarrow>
               (case sendEncrypted (iv (fst m) (lc_s2cSeq l)) k inner (snd m) l of
                  None \<Rightarrow> w
                | Some (l', out) \<Rightarrow>
                    w\<lparr>nw_conns := (nw_conns w)(fst m := Talking l'), nw_out := nw_out w @ [(fst m, out)]\<rparr>))
      | _ \<Rightarrow> w)"

subsection \<open>Frames\<close>

text \<open>The task of a message: its reply goes out before what is to follow it.\<close>

definition dispatch :: "(u64 \<Rightarrow> u32 \<Rightarrow> bytes) \<Rightarrow> taskEnv \<Rightarrow> u64 \<Rightarrow> bytes \<Rightarrow> network \<Rightarrow> network outcome option" where
  "dispatch iv te n p w =
     (case onTask te n p (ru_server (nw_run w)) of
        None \<Rightarrow> None
      | Some Panic \<Rightarrow> Some Panic
      | Some (Return (x, a, s')) \<Rightarrow>
          let w = w\<lparr>nw_run := (nw_run w)\<lparr>ru_server := s', ru_pending := ru_pending (nw_run w) @ [(n, a)]\<rparr>\<rparr> in
          Some (Return (case x of None \<Rightarrow> w | Some b \<Rightarrow> send_to iv innerTaskReply (n, b) w)))"

text \<open>The player of the ticket in the message that proved the keys; without a ticket there is none.\<close>

definition identify :: "(bytes \<Rightarrow> playerID option) \<Rightarrow> u64 \<Rightarrow> bytes option \<Rightarrow> serverRun \<Rightarrow> serverRun" where
  "identify files n ticket v =
     v\<lparr>ru_server := (ru_server v)\<lparr>sv_social :=
           (case ticket of
              None \<Rightarrow> sv_social (ru_server v)
            | Some t \<Rightarrow> loadIdentity files n t (sv_social (ru_server v)))\<rparr>,
       ru_keyed := insert n (ru_keyed v)\<rparr>"

definition handle_frame ::
    "lobbyEnv \<Rightarrow> (u64 \<Rightarrow> u32 \<Rightarrow> bytes) \<Rightarrow> taskEnv \<Rightarrow> u64 \<Rightarrow> bytes \<Rightarrow> lobbyConn \<Rightarrow> network \<Rightarrow> network outcome option" where
  "handle_frame e iv te n raw l w =
     (case on_frame e raw l of
        (go, l', evs) \<Rightarrow>
          let run = (if lc_keys l = None \<and> lc_keys l' \<noteq> None
                     then identify (wo_files (en_world te)) n (lc_ticket l') (nw_run w) else nw_run w);
              w = w\<lparr>nw_run := run, nw_conns := (nw_conns w)(n := if go then Talking l' else Ended),
                    nw_out := nw_out w @ map (Pair n) (sends evs)\<rparr>
          in (case tasks evs of [] \<Rightarrow> Some (Return w) | p # _ \<Rightarrow> dispatch iv te n p w))"

text \<open>What follows a reply, with its pushes to any connections.\<close>

definition follow_up :: "(u64 \<Rightarrow> u32 \<Rightarrow> bytes) \<Rightarrow> taskEnv \<Rightarrow> u64 \<Rightarrow> after \<Rightarrow> network \<Rightarrow> network" where
  "follow_up iv te n a w =
     (case after_reply te n a (ru_server (nw_run w)) of
        (pushes, s') \<Rightarrow>
          fold (send_to iv innerPush) (map (\<lambda>(c, b). (of_nat c, b)) pushes)
            (w\<lparr>nw_run := (nw_run w)\<lparr>ru_server := s', ru_pending := remove1 (n, a) (ru_pending (nw_run w))\<rparr>\<rparr>))"

subsection \<open>The network\<close>

text \<open>
  Frames of different connections come in any order. The loop of a connection has read its frame with \<open>readFrame\<close>;
  a keepalive is sent back.
\<close>

definition net_init :: "network \<Rightarrow> bool" where
  "net_init w \<longleftrightarrow> run_init (nw_run w) \<and> nw_conns w = (\<lambda>_. Ended) \<and> nw_out w = []"

definition busy :: "u64 \<Rightarrow> network \<Rightarrow> bool" where
  "busy n w \<longleftrightarrow> n \<in> fst ` set (ru_pending (nw_run w))"

inductive net_step ::
    "((string \<times> string) list \<Rightarrow> string) \<Rightarrow> network \<Rightarrow> network \<Rightarrow> bool"
  for marshal :: "(string \<times> string) list \<Rightarrow> string" where
  accepted: "n \<notin> ru_used (nw_run w) \<Longrightarrow>
    net_step marshal w
      (w\<lparr>nw_run := (nw_run w)\<lparr>ru_server := open_conn n addr now (ru_server (nw_run w)),
           ru_used := insert n (ru_used (nw_run w)), ru_open := insert n (ru_open (nw_run w))\<rparr>,
         nw_conns := (nw_conns w)(n := Accepted)\<rparr>)"
| greeted: "nw_conns w n = Accepted \<Longrightarrow> length hello = helloLen \<Longrightarrow> on_hello hello num pad = Some (l, evs) \<Longrightarrow>
    net_step marshal w
      (w\<lparr>nw_conns := (nw_conns w)(n := Talking l), nw_out := nw_out w @ map (Pair n) (sends evs)\<rparr>)"
| kept_alive: "nw_conns w n = Talking l \<Longrightarrow> \<not> busy n w \<Longrightarrow>
    net_step marshal w (w\<lparr>nw_out := nw_out w @ [(n, replicate 4 0)]\<rparr>)"
| framed: "nw_conns w n = Talking l \<Longrightarrow> \<not> busy n w \<Longrightarrow> en_marshal te = marshal \<Longrightarrow>
    readFrame (lc_maxLen l) inp = FrFrame raw rest \<Longrightarrow> handle_frame e iv te n raw l w = Some (Return w') \<Longrightarrow>
    net_step marshal w w'"
| followed: "(n, a) \<in> set (ru_pending (nw_run w)) \<Longrightarrow> net_step marshal w (follow_up iv te n a w)"
| finished: "n \<in> ru_open (nw_run w) \<Longrightarrow> \<not> busy n w \<Longrightarrow>
    net_step marshal w
      (w\<lparr>nw_run := (nw_run w)\<lparr>ru_server := close_conn walk n now (ru_server (nw_run w)),
           ru_open := ru_open (nw_run w) - {n}, ru_keyed := ru_keyed (nw_run w) - {n}\<rparr>,
         nw_conns := (nw_conns w)(n := Ended)\<rparr>)"
| aside: "background (ru_server (nw_run w)) s' \<Longrightarrow>
    net_step marshal w (w\<lparr>nw_run := (nw_run w)\<lparr>ru_server := s'\<rparr>\<rparr>)"

inductive_cases net_stepE: "net_step marshal w w'"

end
