(* ===== verification/SocialSteps.thy ===== *)
theory SocialSteps
  imports TaskProps
begin

text \<open>
  What the tasks do to the identities of connections: a player is only ever set, and shown online, for a connection
  that waits for him.
\<close>

definition settles :: "social \<Rightarrow> social \<Rightarrow> bool" where
  "settles s s' \<longleftrightarrow>
     (\<forall>n. (so_pending s' n \<noteq> None \<longrightarrow> so_pending s n \<noteq> None) \<and>
        (so_online s' n \<noteq> None \<longrightarrow> so_online s n \<noteq> None \<or> so_pending s n \<noteq> None) \<and>
        (so_players s' n = so_players s n \<or> (so_pending s n \<noteq> None \<and> so_pending s' n = None)))"

lemma settles_refl [simp]: "settles s s"
  by (simp add: settles_def)

lemma settles_trans: "settles s t \<Longrightarrow> settles t u \<Longrightarrow> settles s u"
  unfolding settles_def by metis

lemma settles_same:
  "so_players s' = so_players s \<Longrightarrow> so_pending s' = so_pending s \<Longrightarrow> so_online s' = so_online s \<Longrightarrow>
   settles s s'"
  by (simp add: settles_def)

lemma settles_try:
  assumes "settles s0 s" and "so_pending s0 n \<noteq> None"
  shows "settles s0 (snd (tryIdentity files n ticket s))"
  using assms by (auto simp: tryIdentity_def settles_def Let_def split: option.splits)

lemma settles_try_all:
  "settles s0 s \<Longrightarrow> \<forall>n \<in> fst ` set todo. so_pending s0 n \<noteq> None \<Longrightarrow> settles s0 (try_all files todo s)"
  by (induction files todo s rule: try_all.induct) (auto intro: settles_try)

lemma settles_retry: "settles s (retryPending files walk s)"
  unfolding retryPending_def
  by (rule settles_try_all) (auto simp: pending_list_def List.map_filter_def)

lemma settles_aliases: "settles s (refreshAliases now ls s)"
  by (rule settles_same) (auto simp: refreshAliases_def Let_def split: option.splits)

lemma settles_resolve: "settles s (snd (pidForConsoleID now server ident s))"
  by (rule settles_same) (auto simp: pidForConsoleID_def Let_def split: option.splits prod.splits)

lemma settles_online: "settles s (snd (onlinePlayerFor w ident s))"
proof -
  let ?s = "refreshAliases (wo_now w) (wo_log w) (retryPending (wo_files w) (wo_walk w) s)"
  have "settles s ?s" by (rule settles_trans [OF settles_retry settles_aliases])
  moreover have "settles ?s (snd (onlinePlayerFor w ident s))"
    using settles_resolve [of ?s "wo_now w" "wo_server w" ident]
    by (auto simp: onlinePlayerFor_def Let_def split: option.splits prod.splits bool.splits)
  ultimately show ?thesis by (rule settles_trans)
qed

lemma settles_nickname: "settles s (snd (nicknameOnline w ident s))"
  using settles_online [of s w ident] by (auto simp: nicknameOnline_def split: prod.splits option.splits)

lemma settles_pid: "settles s (snd (pidOnline w ident s))"
  using settles_online [of s w ident] by (auto simp: pidOnline_def split: prod.splits option.splits)

lemma settles_friend_pids: "settles s (snd (friend_pids w is s))"
proof (induction "is" arbitrary: s)
  case (Cons i "is")
  obtain p t where "pidOnline w i s = (p, t)" by fastforce
  moreover obtain ps u where "friend_pids w is t = (ps, u)" by fastforce
  ultimately show ?case using settles_pid [of s w i] Cons.IH [of t] by (auto intro: settles_trans)
qed simp

lemma settles_name_hits: "settles s (snd (name_hits w is s))"
proof (induction "is" arbitrary: s)
  case (Cons i "is")
  obtain name t where "nicknameOnline w i s = (name, t)" by fastforce
  moreover obtain hits u where "name_hits w is t = (hits, u)" by fastforce
  ultimately show ?case using settles_nickname [of s w i] Cons.IH [of t] by (auto intro: settles_trans)
qed simp

lemma settles_data_hits: "settles s (snd (data_hits w ctx is s))"
proof (induction "is" arbitrary: s)
  case (Cons i "is")
  obtain name t where "nicknameOnline w i s = (name, t)" by fastforce
  moreover obtain hits u where "data_hits w ctx is t = (hits, u)" by fastforce
  ultimately show ?case
    using settles_nickname [of s w i] Cons.IH [of t]
    by (auto simp: Let_def intro: settles_trans split: option.splits)
qed simp

lemma settles_names: "settles s (snd (onGetUserNames w txn task r s))"
  using settles_name_hits [of s w "rd_u64s r"] by (auto simp: onGetUserNames_def split: prod.splits)

lemma settles_user_data: "settles s (snd (onUserData w l txn task r s))"
  using settles_data_hits [of s w]
  by (auto simp: onUserData_def Let_def intro: settles_same split: prod.splits sum.splits option.splits)
    (metis snd_conv)+

lemma settles_presence: "settles s (snd (onRichPresence w l txn task r s))"
  using settles_retry [of s "wo_files w" "wo_walk w"]
  by (auto simp: onRichPresence_def onlinePIDSet_def set_presence_def Let_def intro: settles_same
      split: prod.splits sum.splits)

end
