(* ===== verification/ServerProps.thy ===== *)
theory ServerProps
  imports SocialSteps Server
begin

text \<open>The server refines the matchmaker as a machine of its own.\<close>

subsection \<open>Searches on their way\<close>

definition search_of :: "after \<Rightarrow> ctrSearch multiset" where
  "search_of a = (case a of AfterSearch q \<Rightarrow> {#q#} | _ \<Rightarrow> {#})"

definition searches :: "(u64 \<times> after) list \<Rightarrow> ctrSearch multiset" where
  "searches ps = (\<Sum>p\<leftarrow>ps. search_of (snd p))"

lemma searches_simps [simp]:
  "searches [] = {#}" "searches (p # ps) = search_of (snd p) + searches ps"
  "searches (ps @ qs) = searches ps + searches qs"
  by (simp_all add: searches_def)

lemma searches_remove1: "p \<in> set ps \<Longrightarrow> searches ps = search_of (snd p) + searches (remove1 p ps)"
  by (induction ps) auto

text \<open>The matchmaker goes from one state to another and gains the searches that will be enqueued.\<close>

definition moves :: "((string \<times> string) list \<Rightarrow> string) \<Rightarrow> ctrMatchmaker \<Rightarrow> ctrMatchmaker \<Rightarrow> ctrSearch multiset \<Rightarrow> bool" where
  "moves marshal m m' qs \<longleftrightarrow>
     (\<forall>ps. \<exists>ps'. (ctr_step marshal)\<^sup>*\<^sup>* \<lparr>cw_mm = m, cw_pending = ps\<rparr> \<lparr>cw_mm = m', cw_pending = ps'\<rparr> \<and>
        mset ps' = mset ps + qs)"

lemma moves_refl [simp]: "moves marshal m m {#}"
  by (auto simp: moves_def)

lemma moves_one:
  assumes "\<And>ps. ctr_step marshal \<lparr>cw_mm = m, cw_pending = ps\<rparr> \<lparr>cw_mm = m', cw_pending = f ps\<rparr>"
    and "\<And>ps. mset (f ps) = mset ps + qs"
  shows "moves marshal m m' qs"
  unfolding moves_def using assms by (meson r_into_rtranclp)

lemma moves_ops [simp]:
  "moves marshal m (fst (cancel c i m)) {#}" "moves marshal m (leave c i m) {#}"
  "moves marshal m (fst (syncDoc now c i version doc m)) {#}"
  using ctr_step.cancel [of marshal "\<lparr>cw_mm = m, cw_pending = _\<rparr>" c i]
    ctr_step.leave [of marshal "\<lparr>cw_mm = m, cw_pending = _\<rparr>" c i]
    ctr_step.sync [of marshal "\<lparr>cw_mm = m, cw_pending = _\<rparr>" now c i version doc]
  by (auto intro!: moves_one [where f = "\<lambda>ps. ps"])

lemma moves_issue:
  "parse_search marshal c p doc info (mm_next m) = Some q \<Longrightarrow> moves marshal m (m\<lparr>mm_next := sr_id q\<rparr>) {#q#}"
  using ctr_step.issue [of marshal c p doc info "\<lparr>cw_mm = m, cw_pending = _\<rparr>" q]
  by (auto intro!: moves_one [where f = "\<lambda>ps. ps @ [q]"])

definition mm_moves :: "((string \<times> string) list \<Rightarrow> string) \<Rightarrow> server \<Rightarrow> answer \<Rightarrow> bool" where
  "mm_moves marshal s x \<longleftrightarrow>
     (\<forall>b a s'. x = Some (Return (b, a, s')) \<longrightarrow> moves marshal (sv_mm s) (sv_mm s') (search_of a))"

lemma mm_moves_answer [simp]:
  "mm_moves marshal s (answer b a s') \<longleftrightarrow> moves marshal (sv_mm s) (sv_mm s') (search_of a)"
  by (auto simp: mm_moves_def answer_def)

lemma mm_moves_quiet: "quiet s x \<Longrightarrow> mm_moves marshal s x"
  by (auto simp: quiet_def mm_moves_def search_of_def split: after.splits)

lemma search_of_simps [simp]:
  "search_of AfterNothing = {#}" "search_of (AfterShop x) = {#}" "search_of (AfterNotices ns) = {#}"
  "search_of (AfterSearch q) = {#q#}"
  by (simp_all add: search_of_def)

lemma cancel_moves: "cancel c i m = (m', ok) \<Longrightarrow> moves marshal m m' {#}"
  using moves_ops(1) [of marshal m c i] by simp

lemma sync_moves: "syncDoc now c i version doc m = (m', ok) \<Longrightarrow> moves marshal m m' {#}"
  using moves_ops(3) [of marshal m now c i version doc] by simp

lemma sync_documents_moves: "mm_moves marshal s (sync_documents e n txn task r s)"
  by (auto simp: sync_documents_def intro: sync_moves split: prod.splits sum.splits)

lemma start_search_moves: "mm_moves (en_marshal e) s (start_search e n txn task r s)"
  by (auto simp: start_search_def intro: moves_issue split: prod.splits sum.splits option.splits)

lemma lobby_documents_moves: "mm_moves marshal s (lobby_documents e n txn task r s)"
  by (auto simp: lobby_documents_def split: prod.splits sum.splits option.splits)

lemma async_service_moves: "mm_moves (en_marshal e) s (async_service e n txn task r s)"
  by (auto simp: async_service_def sync_documents_moves start_search_moves lobby_documents_moves
      intro: cancel_moves split: prod.splits sum.splits)

lemma serve_moves: "mm_moves (en_marshal e) s (serve e n service txn task r payload s)"
proof (cases "service = svcAsyncMatchMaking")
  case True
  then show ?thesis
    by (simp add: serve_def svc_defs async_service_moves [unfolded svc_defs])
next
  case False
  then show ?thesis by (intro mm_moves_quiet serve_quiet)
qed

lemma onTask_moves:
  assumes "onTask e n payload s = Some (Return (x, a, s'))"
  shows "moves (en_marshal e) (sv_mm s) (sv_mm s') (search_of a)"
proof (cases "length payload \<ge> 3")
  case True
  from onTask_result [OF True assms] show ?thesis
  proof cases
    case (2 task r b)
    then show ?thesis
      using serve_moves [of e "note_server e n (payload ! 0) task s" n "payload ! 0" "sv_txn s + 1" task r payload]
      by (simp add: mm_moves_def)
  qed simp
next
  case False
  then show ?thesis using assms by (simp add: onTask_def)
qed

subsection \<open>Refinement\<close>

definition follows :: "serverRun \<Rightarrow> ctrWorld \<Rightarrow> bool" where
  "follows v w \<longleftrightarrow> cw_mm w = sv_mm (ru_server v) \<and> mset (cw_pending w) = searches (ru_pending v)"

lemma moves_follow:
  assumes "moves marshal m m' qs" and "cw_mm w = m"
  obtains w' where "(ctr_step marshal)\<^sup>*\<^sup>* w w'" "cw_mm w' = m'" "mset (cw_pending w') = mset (cw_pending w) + qs"
  using assms by (cases w) (fastforce simp: moves_def)

lemma after_reply_moves:
  assumes f: "follows v w" and p: "(n, a) \<in> set (ru_pending v)"
  shows "\<exists>w'. (ctr_step marshal)\<^sup>*\<^sup>* w w' \<and>
    follows (v\<lparr>ru_server := snd (after_reply e n a (ru_server v)), ru_pending := remove1 (n, a) (ru_pending v)\<rparr>) w'"
    (is "\<exists>w'. _ \<and> follows ?v w'")
proof (cases "\<exists>q. a = AfterSearch q")
  case True
  then obtain q where q: "a = AfterSearch q" by blast
  have pend: "mset (cw_pending w) = add_mset q (searches (remove1 (n, a) (ru_pending v)))"
    using f searches_remove1 [OF p] q by (simp add: follows_def)
  then have "q \<in> set (cw_pending w)" by (metis set_mset_mset union_single_eq_member)
  moreover have rest: "searches (ru_pending v) - {#q#} = searches (remove1 (n, AfterSearch q) (ru_pending v))"
    using searches_remove1 [OF p] q by simp
  ultimately show ?thesis
    using ctr_step.enq [of q w marshal "unix (en_now e)"] f pend q
    by (intro exI [of _ "w\<lparr>cw_mm := fst (enqueue (unix (en_now e)) q (cw_mm w)),
        cw_pending := remove1 q (cw_pending w)\<rparr>"])
      (auto simp: follows_def after_reply_def rest split: prod.splits)
next
  case False
  then have "follows ?v w"
    using f searches_remove1 [OF p]
    by (cases a) (auto simp: follows_def after_reply_def split: prod.splits)
  then show ?thesis by blast
qed

lemma background_aside: "background s s' \<Longrightarrow> sv_mm s' = sv_mm s \<and> settles (sv_social s) (sv_social s')"
  by (auto elim!: background.cases intro: settles_retry)

lemma server_step_follows:
  assumes "follows v w" and "server_step marshal v v'"
  shows "\<exists>w'. (ctr_step marshal)\<^sup>*\<^sup>* w w' \<and> follows v' w'"
  using assms(2)
proof cases
  case (served n e payload x a s')
  then obtain w' where "(ctr_step marshal)\<^sup>*\<^sup>* w w'" "cw_mm w' = sv_mm s'"
      "mset (cw_pending w') = mset (cw_pending w) + search_of a"
    using onTask_moves [OF served(5)] assms(1) by (auto simp: follows_def elim: moves_follow)
  then show ?thesis using assms(1) served by (intro exI [of _ w']) (auto simp: follows_def)
next
  case (replied n a e)
  then show ?thesis using after_reply_moves [OF assms(1)] by blast
next
  case (closed n walk now)
  then have "follows v' (w\<lparr>cw_mm := leave (conn_of n) 0 (cw_mm w)\<rparr>)"
    using assms(1) by (simp add: follows_def close_conn_def)
  then show ?thesis using ctr_step.leave r_into_rtranclp by metis
qed (use assms(1) background_aside in \<open>auto simp: follows_def open_conn_def\<close>)

interpretation server: simulation run_init "server_step marshal" ctr_init "ctr_step marshal" follows
  for marshal
proof unfold_locales
  show "\<exists>w. ctr_init w \<and> follows v w" if "run_init v" for v
    using that by (auto simp: run_init_def ctr_init_def follows_def start_server_def)
qed (rule server_step_follows)

lemma server_mm_inv: "reach run_init (server_step marshal) v \<Longrightarrow> mm_inv (sv_mm (ru_server v))"
  by (drule server.reach_match) (metis follows_def reach_mm_inv)

subsection \<open>A run\<close>

definition ex_player :: playerID where
  "ex_player = \<lparr>pl_username = ''ana'', pl_pid = 11, pl_sub = '''', pl_kind = ''switch'', pl_title = 0\<rparr>"

definition ex_ticket :: bytes where "ex_ticket = replicate 5 0 @ [0x8F, 0x16] @ replicate 34 0"

definition ex_known :: social where
  "ex_known = loadIdentity (\<lambda>_. Some ex_player) 1 ex_ticket (sv_social (open_conn 1 ''a'' 0 ex_server))"

definition ex_known_server :: server where
  "ex_known_server = (open_conn 1 ''a'' 0 ex_server)\<lparr>sv_social := ex_known\<rparr>"

definition ex_run0 :: serverRun where
  "ex_run0 = \<lparr>ru_server = ex_known_server, ru_used = {1}, ru_open = {1}, ru_keyed = {1}, ru_pending = []\<rparr>"

lemma ex_known_reached: "reach run_init (server_step ex_marshal) ex_run0"
proof -
  let ?v0 = "\<lparr>ru_server = ex_server, ru_used = {}, ru_open = {}, ru_keyed = {}, ru_pending = []\<rparr>"
  have "run_init ?v0" unfolding run_init_def ex_server_def by blast
  then have "reach run_init (server_step ex_marshal) ?v0" by (rule reach.reach_init)
  moreover have "server_step ex_marshal ?v0
      \<lparr>ru_server = open_conn 1 ''a'' 0 ex_server, ru_used = {1}, ru_open = {1}, ru_keyed = {}, ru_pending = []\<rparr>"
    (is "server_step _ _ ?v1")
    using opened [of 1 ?v0 ex_marshal "''a''" 0] by simp
  ultimately have "reach run_init (server_step ex_marshal) ?v1" by (rule reach.reach_step)
  moreover have "server_step ex_marshal ?v1 ex_run0"
    using identified [of 1 ?v1 ex_marshal "\<lambda>_. Some ex_player" ex_ticket]
    by (simp add: ex_run0_def ex_known_server_def ex_known_def)
  ultimately show ?thesis by (rule reach.reach_step)
qed

lemma ex_pid: "pid (user ex_known_server 1) = 11"
  by (simp add: pid_def user_def ex_known_server_def ex_known_def loadIdentity_def tryIdentity_def ex_ticket_def
      ex_player_def Let_def)

definition ex_task :: bytes where "ex_task = [145, 3, 18, 16, 123, 0]"

lemma ex_task_runs:
  "\<exists>b s'. onTask ex_taskEnv 1 ex_task ex_known_server = Some (Return (b, AfterSearch (ex_search 1 11 1), s')) \<and>
     sv_mm s' = empty_mm\<lparr>mm_next := 1\<rparr>"
proof -
  let ?s = "note_server ex_taskEnv 1 145 18 ex_known_server"
  have u: "rd_u8 \<lparr>rbuf = ex_task, roff = 1\<rparr> = (Inr 18, \<lparr>rbuf = ex_task, roff = 3\<rparr>)"
    by (simp add: ex_task_def wire_simps rd_u8_def rd_map_def rd_fixed_def rd_tag_def advance_def remaining_def)
  have r: "rd_str \<lparr>rbuf = ex_task, roff = 3\<rparr> = (Inr [123], \<lparr>rbuf = ex_task, roff = 6\<rparr>)"
    by (simp add: ex_task_def wire_simps rd_str_def rd_tag_def advance_def remaining_def)
  have p: "pid (user ?s 1) = 11" using ex_pid by (simp add: note_server_def user_def)
  have "sv_mm ?s = empty_mm" by (simp add: ex_known_server_def open_conn_def ex_server_def start_server_def)
  then have q: "parse_search (en_marshal ex_taskEnv) (conn_of 1) (pid (user ?s 1))
      (en_search ex_taskEnv t) (en_info ex_taskEnv t') (mm_next (sv_mm ?s)) = Some (ex_search 1 11 1)" for t t'
    using ex_parse [of 11 1 0] unfolding p by (simp add: ex_taskEnv_def conn_of_def empty_mm_def)
  have len: "length ex_task = 6" "ex_task ! 0 = 145" by (simp_all add: ex_task_def)
  have sv: "serve ex_taskEnv 1 145 (sv_txn ex_known_server + 1) 18 \<lparr>rbuf = ex_task, roff = 3\<rparr> ex_task ?s =
      start_search ex_taskEnv 1 (sv_txn ex_known_server + 1) 18 \<lparr>rbuf = ex_task, roff = 3\<rparr> ?s"
    by (simp add: serve_def svc_defs async_service_def)
  have ss: "start_search ex_taskEnv 1 (sv_txn ex_known_server + 1) 18 \<lparr>rbuf = ex_task, roff = 3\<rparr> ?s =
      answer (one_result (sv_txn ex_known_server + 1) 18 (w_strv (lit (mm_document (sr_id (ex_search 1 11 1))))))
        (AfterSearch (ex_search 1 11 1)) (?s\<lparr>sv_mm := (sv_mm ?s)\<lparr>mm_next := sr_id (ex_search 1 11 1)\<rparr>\<rparr>)"
    by (simp only: start_search_def r q prod.case sum.case option.case)
  have i: "sr_id (ex_search 1 11 1) = 1" by (simp add: ex_search_def)
  show ?thesis
    using \<open>sv_mm ?s = empty_mm\<close> unfolding onTask_def Let_def u
    by (simp add: len note_server_def [symmetric] sv ss answer_def i del: One_nat_def)
qed

lemma ex_search_reached:
  "\<exists>v. reach run_init (server_step ex_marshal) v \<and> ru_open v = {1} \<and> ru_pending v = [(1, AfterSearch (ex_search 1 11 1))] \<and>
     sv_mm (ru_server v) = empty_mm\<lparr>mm_next := 1\<rparr>"
proof -
  obtain b s' where t: "onTask ex_taskEnv 1 ex_task (ru_server ex_run0) =
      Some (Return (b, AfterSearch (ex_search 1 11 1), s'))" "sv_mm s' = empty_mm\<lparr>mm_next := 1\<rparr>"
    using ex_task_runs by (auto simp: ex_run0_def)
  have "server_step ex_marshal ex_run0
      (ex_run0\<lparr>ru_server := s', ru_pending := ru_pending ex_run0 @ [(1, AfterSearch (ex_search 1 11 1))]\<rparr>)"
    by (rule served [OF _ _ _ t(1)]) (simp_all add: ex_run0_def ex_taskEnv_def)
  from reach.reach_step [OF ex_known_reached this] show ?thesis
    by (intro exI [where x = "ex_run0\<lparr>ru_server := s', ru_pending := ru_pending ex_run0 @ [(1, AfterSearch (ex_search 1 11 1))]\<rparr>"] conjI)
      (simp_all add: t(2) ex_run0_def del: One_nat_def)
qed

text \<open>C14: The server refines the matchmaker as a machine of its own: whatever connections open, identify, close and
  send, whatever tasks of other services and periodic work come in between, every reachable state of the
  server has the rooms and the waiting list of a state that the matchmaker's own operations reach, where
  exactly the searches are on their way whose reply is being sent. So no lobby of the server holds more
  people than its capacity.\<close>

theorem server_refines_matchmaker:
  assumes "reach run_init (server_step marshal) v"
  shows "(\<exists>w. reach ctr_init (ctr_step marshal) w \<and> cw_mm w = sv_mm (ru_server v) \<and>
      mset (cw_pending w) = searches (ru_pending v)) \<and>
    (\<forall>i r. live_room (sv_mm (ru_server v)) i = Some r \<longrightarrow>
      occupancy (mm_heap (sv_mm (ru_server v))) r \<le> rm_capacity r \<and> rm_capacity r \<le> 8)"
  using server.reach_match [OF assms] occ_capacity [OF server_mm_inv [OF assms]]
  by (auto simp: follows_def)


lemma server_refines_matchmaker_witness:
  "\<exists>v w. reach run_init (server_step ex_marshal) v \<and> reach ctr_init (ctr_step ex_marshal) w \<and>
     cw_mm w = sv_mm (ru_server v) \<and> mset (cw_pending w) = {#ex_search 1 11 1#}"
proof -
  obtain v where v: "reach run_init (server_step ex_marshal) v" "ru_pending v = [(1, AfterSearch (ex_search 1 11 1))]"
    using ex_search_reached by blast
  then show ?thesis using server_refines_matchmaker [OF v(1)] by (intro exI [of _ v]) simp
qed


end
