(* ===== verification/OwnerProps.thy ===== *)
theory OwnerProps
  imports ServerProps
begin

text \<open>
  Every search belongs to an open connection whose player started it, so a closed connection leaves none behind.
\<close>

subsection \<open>Tasks keep the identities of connections\<close>

definition settled :: "server \<Rightarrow> answer \<Rightarrow> bool" where
  "settled s x \<longleftrightarrow>
     (\<forall>b a s'. x = Some (Return (b, a, s')) \<longrightarrow> settles (sv_social s) (sv_social s'))"

lemma settled_simps [simp]:
  "settled s (answer b a s') \<longleftrightarrow> settles (sv_social s) (sv_social s')" "settled s None" "settled s (Some Panic)"
  by (auto simp: settled_def answer_def)

lemma social_services_settled:
  "settled s (names_service e txn task r s)"
  "settled s (user_data_service e n txn task r s)"
  "settled s (presence_service e n txn task r s)"
  using settles_names [of "sv_social s" "en_world e" txn task r]
    settles_user_data [of "sv_social s" "en_world e" "user s n" txn task r]
    settles_presence [of "sv_social s" "en_world e" "user s n" txn task r]
  by (auto simp: names_service_def user_data_service_def presence_service_def split: prod.splits)

lemma friend_games_settled: "settled s (friend_games e n c txn task r s)"
  using settles_friend_pids [of "sv_social s" "en_world e" "rd_u64s r"]
  by (auto simp: friend_games_def split: prod.splits)

lemma other_services_settled:
  "settled s (stats_service e n txn task r s)" "settled s (storage_service e txn task r s)"
  "settled s (match_service e n c txn task r s)" "settled s (achievements_service e n txn task payload s)"
  "settled s (marketplace_service e n txn task payload s)" "settled s (async_service e n txn task r s)"
  by (auto simp: stats_service_def storage_service_def match_service_def achievements_service_def
      marketplace_service_def async_service_def sync_documents_def start_search_def lobby_documents_def
      split: prod.splits sum.splits option.splits loaded.splits outcome.splits)

lemma context_service_settled: "settled s (context_service e n txn task r s)"
  by (auto simp: context_service_def friend_games_settled other_services_settled split: prod.splits sum.splits)

lemma serve_settled: "settled s (serve e n service txn task r payload s)"
  by (simp add: serve_def social_services_settled other_services_settled context_service_settled)

lemma onTask_settles:
  assumes "onTask e n payload s = Some (Return (x, a, s'))"
  shows "settles (sv_social s) (sv_social s')"
proof (cases "length payload \<ge> 3")
  case True
  from onTask_result [OF True assms] show ?thesis
  proof cases
    case (2 task r b)
    then show ?thesis
      using serve_settled [of "note_server e n (payload ! 0) task s" e n "payload ! 0" "sv_txn s + 1" task r payload]
      by (simp add: settled_def note_server_def)
  qed simp
next
  case False
  then show ?thesis using assms by (simp add: onTask_def)
qed

subsection \<open>Owners of searches\<close>

definition owner :: "ctrSearch \<Rightarrow> conn \<times> u64" where "owner q = (sr_conn q, sr_pid q)"

lemma owner_keep [simp]: "owner (keep_search r q) = owner q"
  by (simp add: owner_def keep_search_def Let_def)

definition caller :: "server \<Rightarrow> u64 \<Rightarrow> conn \<times> u64" where "caller s n = (conn_of n, pid (user s n))"

text \<open>A task adds no search to the matchmaker; the one it may issue is the caller's, who is known.\<close>

definition own_searches :: "u64 \<Rightarrow> server \<Rightarrow> answer \<Rightarrow> bool" where
  "own_searches n s x \<longleftrightarrow>
     (\<forall>b a s'. x = Some (Return (b, a, s')) \<longrightarrow>
        search_keys owner (sv_mm s') \<subseteq># search_keys owner (sv_mm s) \<and>
        (\<forall>q \<in># search_of a. owner q = caller s n \<and> sr_pid q \<noteq> 0))"

lemma own_searches_answer [simp]:
  "own_searches n s (answer b a s') \<longleftrightarrow>
     search_keys owner (sv_mm s') \<subseteq># search_keys owner (sv_mm s) \<and>
     (\<forall>q \<in># search_of a. owner q = caller s n \<and> sr_pid q \<noteq> 0)"
  by (auto simp: own_searches_def answer_def)

lemma own_searches_quiet: "quiet s x \<Longrightarrow> own_searches n s x"
  by (auto simp: quiet_def own_searches_def search_of_def split: after.splits)

lemma cancel_keys: "mm_inv m \<Longrightarrow> cancel c i m = (m', ok) \<Longrightarrow> search_keys f m' \<subseteq># search_keys f m"
  using mm_shrink_keys [OF cancel_shrink, of m f c i] by (simp add: mm_inv_heap)

lemma leave_keys: "mm_inv m \<Longrightarrow> search_keys f (leave c i m) \<subseteq># search_keys f m"
  using mm_shrink_keys [OF leave_shrink, of m f c i] by (simp add: mm_inv_heap)

lemma sync_keys:
  "mm_inv m \<Longrightarrow> syncDoc now c i version doc m = (m', ok) \<Longrightarrow> search_keys owner m' \<subseteq># search_keys owner m"
  using syncDoc_keys(1) [of m owner now c i version doc] by simp

lemma start_search_owned: "own_searches n s (start_search e n txn task r s)"
  by (auto simp: start_search_def caller_def owner_def search_valid_def
      dest: parse_search_valid split: prod.splits sum.splits option.splits)

lemma async_service_owned: "mm_inv (sv_mm s) \<Longrightarrow> own_searches n s (async_service e n txn task r s)"
  by (auto simp: async_service_def sync_documents_def lobby_documents_def start_search_owned
      intro: cancel_keys leave_keys sync_keys split: prod.splits sum.splits option.splits)

lemma serve_owned: "mm_inv (sv_mm s) \<Longrightarrow> own_searches n s (serve e n service txn task r payload s)"
  by (cases "service = svcAsyncMatchMaking")
    (simp add: serve_def svc_defs async_service_owned [unfolded svc_defs],
     intro own_searches_quiet serve_quiet)

lemma onTask_owned:
  assumes "onTask e n payload s = Some (Return (x, a, s'))" and "mm_inv (sv_mm s)"
  shows "search_keys owner (sv_mm s') \<subseteq># search_keys owner (sv_mm s)"
    and "q \<in># search_of a \<Longrightarrow> owner q = caller s n \<and> sr_pid q \<noteq> 0"
proof -
  have "search_keys owner (sv_mm s') \<subseteq># search_keys owner (sv_mm s) \<and>
    (\<forall>q \<in># search_of a. owner q = caller s n \<and> sr_pid q \<noteq> 0)"
  proof (cases "length payload \<ge> 3")
    case True
    from onTask_result [OF True assms(1)] show ?thesis
    proof cases
      case (2 task r b)
      then show ?thesis
        using serve_owned [of "note_server e n (payload ! 0) task s" n e "payload ! 0" "sv_txn s + 1" task r payload]
          assms(2)
        by (simp add: own_searches_def note_server_def caller_def user_def)
    qed simp
  next
    case False
    then show ?thesis using assms by (simp add: onTask_def)
  qed
  then show "search_keys owner (sv_mm s') \<subseteq># search_keys owner (sv_mm s)"
    and "q \<in># search_of a \<Longrightarrow> owner q = caller s n \<and> sr_pid q \<noteq> 0" by blast+
qed

subsection \<open>The invariant\<close>

definition identities_ok :: "serverRun \<Rightarrow> bool" where
  "identities_ok v \<longleftrightarrow>
     ru_keyed v \<subseteq> ru_open v \<and> ru_open v \<subseteq> ru_used v \<and> fst ` set (ru_pending v) \<subseteq> ru_keyed v \<and>
     (\<forall>n \<in> ru_open v - ru_keyed v. so_players (sv_social (ru_server v)) n = None) \<and>
     (\<forall>n. so_pending (sv_social (ru_server v)) n \<noteq> None \<longrightarrow>
        n \<in> ru_keyed v \<and> so_players (sv_social (ru_server v)) n = None)"

definition owners :: "serverRun \<Rightarrow> (conn \<times> u64) multiset" where
  "owners v = search_keys owner (sv_mm (ru_server v)) + image_mset owner (searches (ru_pending v))"

definition owned :: "serverRun \<Rightarrow> bool" where
  "owned v \<longleftrightarrow>
     (\<forall>k \<in># owners v. \<exists>n \<in> ru_keyed v. k = caller (ru_server v) n \<and> snd k \<noteq> 0)"

lemma pid_user: "pid (user s n) = (case so_players (sv_social s) n of None \<Rightarrow> 0 | Some p \<Rightarrow> pl_pid p)"
  by (simp add: pid_def user_def)

lemma caller_same: "so_players (sv_social s') n = so_players (sv_social s) n \<Longrightarrow> caller s' n = caller s n"
  by (simp add: caller_def pid_user)

lemma caller_inj: "caller s n = (conn_of m, p) \<Longrightarrow> n = m"
  by (auto simp: caller_def conn_of_def word_unat_eq_iff)

text \<open>A known caller keeps his identity when the tasks settle.\<close>

lemma caller_settles:
  assumes "settles (sv_social s) (sv_social s')" and "\<And>n. so_pending (sv_social s) n \<noteq> None \<Longrightarrow> so_players (sv_social s) n = None"
    and "snd (caller s n) \<noteq> 0"
  shows "caller s' n = caller s n"
proof (rule caller_same)
  have "so_players (sv_social s) n \<noteq> None" using assms(3) by (auto simp: caller_def pid_user split: option.splits)
  then show "so_players (sv_social s') n = so_players (sv_social s) n"
    using assms(1,2) unfolding settles_def by metis
qed

lemma owned_mono:
  assumes "owned v" and "owners v' \<subseteq># owners v"
    and "\<And>n. n \<in> ru_keyed v \<Longrightarrow> caller (ru_server v) n \<in># owners v' \<Longrightarrow> snd (caller (ru_server v) n) \<noteq> 0 \<Longrightarrow>
      n \<in> ru_keyed v' \<and> caller (ru_server v') n = caller (ru_server v) n"
  shows "owned v'"
  using assms mset_subset_eqD [OF assms(2)] unfolding owned_def by metis

lemma owned_same:
  assumes "owned v" and "identities_ok v" and "owners v' \<subseteq># owners v" and "ru_keyed v' = ru_keyed v"
    and "settles (sv_social (ru_server v)) (sv_social (ru_server v'))"
  shows "owned v'"
proof (rule owned_mono [OF assms(1,3)])
  fix n assume "n \<in> ru_keyed v" and "snd (caller (ru_server v) n) \<noteq> 0"
  then show "n \<in> ru_keyed v' \<and> caller (ru_server v') n = caller (ru_server v) n"
    using caller_settles [OF assms(5)] assms(2,4) by (simp add: identities_ok_def)
qed

lemma identities_settle:
  assumes "identities_ok v" and "settles (sv_social (ru_server v)) (sv_social (ru_server v'))"
    and "ru_used v' = ru_used v" "ru_open v' = ru_open v" "ru_keyed v' = ru_keyed v"
    and "fst ` set (ru_pending v') \<subseteq> ru_keyed v"
  shows "identities_ok v'"
proof -
  have "so_players (sv_social (ru_server v')) n = None" if "n \<in> ru_open v - ru_keyed v" for n
    using assms(1,2) that unfolding identities_ok_def settles_def by (metis DiffD2)
  moreover have "n \<in> ru_keyed v \<and> so_players (sv_social (ru_server v')) n = None"
    if "so_pending (sv_social (ru_server v')) n \<noteq> None" for n
    using assms(1,2) that unfolding identities_ok_def settles_def by metis
  ultimately show ?thesis using assms unfolding identities_ok_def by simp
qed

lemma loadIdentity_at:
  "m \<noteq> n \<Longrightarrow> so_players (loadIdentity files n ticket s) m = so_players s m \<and>
     so_pending (loadIdentity files n ticket s) m = so_pending s m"
  "so_pending (loadIdentity files n ticket s) n \<noteq> None \<Longrightarrow>
     so_players (loadIdentity files n ticket s) n = so_players s n"
  by (auto simp: loadIdentity_def tryIdentity_def Let_def split: option.splits if_splits)

lemma remove_first_last:
  "distinct (map f xs) \<Longrightarrow> \<forall>x \<in> set xs. P x \<longrightarrow> f x = a \<Longrightarrow> y \<in> set (remove_first P xs) \<Longrightarrow> \<not> P y"
proof (induction xs)
  case (Cons x xs)
  show ?case
  proof (cases "P x")
    case True
    then have "f y \<noteq> a" if "y \<in> set xs" using Cons.prems that by (auto simp: image_iff)
    then show ?thesis using Cons.prems True by auto
  qed (use Cons in auto)
qed simp

lemma leave_gone:
  assumes inv: "mm_inv m" and same: "\<And>k. k \<in># search_keys owner m \<Longrightarrow> fst k = c \<Longrightarrow> snd k = p"
    and k: "k \<in># search_keys owner (leave c 0 m)"
  shows "fst k \<noteq> c"
proof -
  let ?m = "leave c 0 m"
  have "fst k \<noteq> c" if "i \<in> set (mm_live ?m)" "q \<in> set (rm_players (the_room ?m i))" "k = owner q" for i q
  proof -
    have i: "i \<in> set (mm_live m)" "sr_conn (rm_host (the_room m i)) \<noteq> c"
      using that(1) by (auto simp: leave_def Let_def)
    obtain r where r: "mm_heap m i = Some r" "the_room m i = r" using mm_inv_live [OF inv i(1)] by simp
    then have "the_room ?m i = r\<lparr>rm_players := remove_first (\<lambda>p. sr_conn p = c) (rm_players r)\<rparr>"
      using i by (simp add: leave_def Let_def the_room_def [of "_\<lparr>mm_heap := _\<rparr>"])
    then have "q \<in> set (remove_first (\<lambda>p. sr_conn p = c) (rm_players (the_room m i)))"
      using that(2) r(2) by simp
    moreover have "\<forall>q \<in> set (rm_players (the_room m i)). sr_conn q = c \<longrightarrow> sr_pid q = p"
    proof (intro ballI impI)
      fix q assume "q \<in> set (rm_players (the_room m i))" and "sr_conn q = c"
      moreover from this have "owner q \<in># search_keys owner m" using i(1) by (auto simp: in_search_keys)
      ultimately show "sr_pid q = p" using same [of "owner q"] by (simp add: owner_def)
    qed
    moreover have "distinct (map sr_pid (rm_players (the_room m i)))"
      by (rule single_room_distinct [OF mm_inv_single(2) [OF inv] i(1)])
    ultimately have "sr_conn q \<noteq> c" by (metis (mono_tags, lifting) remove_first_last)
    then show ?thesis using that(3) by (simp add: owner_def)
  qed
  moreover have "fst k \<noteq> c" if "q \<in> set (mm_waiting ?m)" "k = owner q" for q
    using that by (auto simp: leave_def Let_def owner_def)
  ultimately show ?thesis using k by (auto simp: in_search_keys)
qed

subsection \<open>Every step keeps it\<close>

definition pending_own :: "serverRun \<Rightarrow> bool" where
  "pending_own v \<longleftrightarrow> (\<forall>(n, a) \<in> set (ru_pending v). \<forall>q \<in># search_of a. sr_conn q = conn_of n)"

definition run_ok :: "serverRun \<Rightarrow> bool" where
  "run_ok v \<longleftrightarrow>
     (\<exists>w. ctr_world_inv w \<and> follows v w) \<and> identities_ok v \<and> owned v \<and> pending_own v"

lemma ctr_run_inv: "(ctr_step marshal)\<^sup>*\<^sup>* w w' \<Longrightarrow> ctr_world_inv w \<Longrightarrow> ctr_world_inv w'"
  by (induction rule: rtranclp_induct) (auto intro: ctr_step_inv)

lemma world_step:
  assumes "run_ok v" and "server_step marshal v v'"
  shows "\<exists>w. ctr_world_inv w \<and> follows v' w"
  using assms server_step_follows ctr_run_inv unfolding run_ok_def by metis

lemma run_mm_inv: "run_ok v \<Longrightarrow> mm_inv (sv_mm (ru_server v))"
  by (auto simp: run_ok_def follows_def ctr_world_inv_def)

lemma ok_served:
  assumes ok: "run_ok v" and n: "n \<in> ru_keyed v"
    and task: "onTask e n payload (ru_server v) = Some (Return (x, a, s'))"
  shows "identities_ok (v\<lparr>ru_server := s', ru_pending := ru_pending v @ [(n, a)]\<rparr>) \<and>
    owned (v\<lparr>ru_server := s', ru_pending := ru_pending v @ [(n, a)]\<rparr>) \<and>
    pending_own (v\<lparr>ru_server := s', ru_pending := ru_pending v @ [(n, a)]\<rparr>)"
    (is "identities_ok ?v \<and> owned ?v \<and> pending_own ?v")
proof (intro conjI)
  have id: "identities_ok v" and ow: "owned v" using ok by (simp_all add: run_ok_def)
  note new = onTask_owned [OF task run_mm_inv [OF ok]]
  have st: "settles (sv_social (ru_server v)) (sv_social s')" by (rule onTask_settles [OF task])
  show "identities_ok ?v"
    using id n by (intro identities_settle [OF id]) (auto simp: st identities_ok_def)
  show "pending_own ?v"
    using ok new(2) by (auto simp: run_ok_def pending_own_def owner_def caller_def)
  show "owned ?v"
    unfolding owned_def
  proof
    fix k assume "k \<in># owners ?v"
    then have "k \<in># owners v \<or> (\<exists>q \<in># search_of a. k = owner q)"
      using mset_subset_eqD [OF new(1), of k] by (auto simp: owners_def)
    then have "\<exists>m \<in> ru_keyed v. k = caller (ru_server v) m \<and> snd k \<noteq> 0"
      using ow new(2) n by (fastforce simp: owned_def owner_def)
    then obtain m where m: "m \<in> ru_keyed v" "k = caller (ru_server v) m" "snd k \<noteq> 0" by blast
    moreover from this have "caller s' m = caller (ru_server v) m"
      using caller_settles [OF st] id by (simp add: identities_ok_def)
    ultimately show "\<exists>m \<in> ru_keyed ?v. k = caller (ru_server ?v) m \<and> snd k \<noteq> 0" by force
  qed
qed

lemma after_reply_owners:
  assumes ok: "run_ok v" and p: "(n, a) \<in> set (ru_pending v)"
  shows "search_keys owner (sv_mm (snd (after_reply e n a (ru_server v)))) \<subseteq>#
    search_keys owner (sv_mm (ru_server v)) + image_mset owner (search_of a)"
proof (cases a)
  case (AfterSearch q)
  obtain w where w: "ctr_world_inv w" "follows v w" using ok by (auto simp: run_ok_def)
  have "q \<in># searches (ru_pending v)" using searches_remove1 [OF p] AfterSearch by simp
  then have "q \<in> set (cw_pending w)" using w(2) by (metis follows_def set_mset_mset)
  then have arr: "arriving q (sv_mm (ru_server v))"
    using pending_arriving [OF w(1)] w(2) by (simp add: follows_def)
  have inv: "mm_inv (sv_mm (ru_server v))" by (rule run_mm_inv [OF ok])
  have "search_keys owner (enq_evict q (sv_mm (ru_server v))) \<subseteq># search_keys owner (sv_mm (ru_server v))"
    using mm_shrink_keys [OF enq_evict_shrink] mm_inv_heap [OF inv] by blast
  moreover obtain m ns where "enqueue (unix (en_now e)) q (sv_mm (ru_server v)) = (m, ns)" by fastforce
  ultimately show ?thesis
    using enqueue_search_keys [OF inv arr, of owner "unix (en_now e)"] AfterSearch
    by (simp add: after_reply_def)
qed (auto simp: after_reply_def split: prod.splits)

lemma after_reply_social [simp]: "sv_social (snd (after_reply e n a s)) = sv_social s"
  by (auto simp: after_reply_def split: after.splits prod.splits)

lemma ok_replied:
  assumes ok: "run_ok v" and p: "(n, a) \<in> set (ru_pending v)"
    and v': "v' = v\<lparr>ru_server := snd (after_reply e n a (ru_server v)), ru_pending := remove1 (n, a) (ru_pending v)\<rparr>"
  shows "identities_ok v' \<and> owned v' \<and> pending_own v'"
proof (intro conjI)
  have id: "identities_ok v" and ow: "owned v" using ok by (simp_all add: run_ok_def)
  have sub: "set (ru_pending v') \<subseteq> set (ru_pending v)" using v' by (simp add: set_remove1_subset)
  show "pending_own v'" using ok sub unfolding run_ok_def pending_own_def by blast
  have "fst ` set (ru_pending v') \<subseteq> ru_keyed v" using id sub unfolding identities_ok_def by blast
  then show "identities_ok v'" by (intro identities_settle [OF id]) (simp_all add: v')
  have "image_mset owner (searches (ru_pending v)) =
    image_mset owner (search_of a) + image_mset owner (searches (ru_pending v'))"
    using searches_remove1 [OF p] v' by simp
  then have "owners v' \<subseteq># owners v"
    using after_reply_owners [OF ok p, of e] v' by (simp add: owners_def add.assoc [symmetric])
  then show "owned v'" by (rule owned_same [OF ow id]) (simp_all add: v')
qed

lemma ok_opened:
  assumes ok: "run_ok v" and n: "n \<notin> ru_used v"
    and v': "v' = v\<lparr>ru_server := open_conn n addr now (ru_server v), ru_used := insert n (ru_used v),
         ru_open := insert n (ru_open v)\<rparr>"
  shows "identities_ok v' \<and> owned v' \<and> pending_own v'"
proof (intro conjI)
  have id: "identities_ok v" and ow: "owned v" using ok by (simp_all add: run_ok_def)
  show "pending_own v'" using ok by (simp add: v' run_ok_def pending_own_def)
  show "identities_ok v'" using id by (auto simp: v' identities_ok_def open_conn_def)
  have "owners v' \<subseteq># owners v" by (simp add: v' owners_def open_conn_def)
  then show "owned v'"
  proof (rule owned_mono [OF ow])
    fix m assume "m \<in> ru_keyed v"
    moreover from this have "m \<noteq> n" using id n by (auto simp: identities_ok_def)
    ultimately show "m \<in> ru_keyed v' \<and> caller (ru_server v') m = caller (ru_server v) m"
      by (intro conjI caller_same) (simp_all add: v' open_conn_def)
  qed
qed

lemma ok_identified:
  assumes ok: "run_ok v" and n: "n \<in> ru_open v" "n \<notin> ru_keyed v"
    and v': "v' = v\<lparr>ru_server := (ru_server v)\<lparr>sv_social := loadIdentity files n ticket (sv_social (ru_server v))\<rparr>,
         ru_keyed := insert n (ru_keyed v)\<rparr>"
  shows "identities_ok v' \<and> owned v' \<and> pending_own v'"
proof (intro conjI)
  let ?so = "sv_social (ru_server v)"
  have id: "identities_ok v" and ow: "owned v" using ok by (simp_all add: run_ok_def)
  have none: "so_players ?so n = None" using id n by (simp add: identities_ok_def)
  show "pending_own v'" using ok by (simp add: v' run_ok_def pending_own_def)
  have "so_players (loadIdentity files n ticket ?so) m = None" if "m \<in> ru_open v - insert n (ru_keyed v)" for m
    using that id loadIdentity_at(1) [of m n files ticket ?so] by (simp add: identities_ok_def)
  moreover have "m \<in> insert n (ru_keyed v) \<and> so_players (loadIdentity files n ticket ?so) m = None"
    if "so_pending (loadIdentity files n ticket ?so) m \<noteq> None" for m
  proof (cases "m = n")
    case True
    then show ?thesis using loadIdentity_at(2) [of files n ticket ?so] that none by simp
  next
    case False
    then show ?thesis using loadIdentity_at(1) [OF False, of files ticket ?so] that id by (simp add: identities_ok_def)
  qed
  moreover have "ru_keyed v \<subseteq> ru_open v" "ru_open v \<subseteq> ru_used v" "fst ` set (ru_pending v) \<subseteq> ru_keyed v"
    using id by (simp_all add: identities_ok_def)
  ultimately show "identities_ok v'" unfolding identities_ok_def v' using n(1) by auto
  have "owners v' \<subseteq># owners v" by (simp add: v' owners_def)
  then show "owned v'"
  proof (rule owned_mono [OF ow])
    fix m assume m: "m \<in> ru_keyed v"
    then have "m \<noteq> n" using n(2) by blast
    then show "m \<in> ru_keyed v' \<and> caller (ru_server v') m = caller (ru_server v) m"
      using m loadIdentity_at(1) [of m n files ticket ?so] by (intro conjI caller_same) (simp_all add: v')
  qed
qed

lemma close_conn_simps [simp]:
  "sv_mm (close_conn walk n now s) = leave (conn_of n) 0 (sv_mm s)"
  "so_players (sv_social (close_conn walk n now s)) = so_players (sv_social s)"
  "so_pending (sv_social (close_conn walk n now s)) = (so_pending (sv_social s))(n := None)"
  by (simp_all add: close_conn_def dropOnline_def dropPresence_def Let_def)

lemma ok_closed:
  assumes ok: "run_ok v" and n: "n \<notin> fst ` set (ru_pending v)"
    and v': "v' = v\<lparr>ru_server := close_conn walk n now (ru_server v), ru_open := ru_open v - {n},
         ru_keyed := ru_keyed v - {n}\<rparr>"
  shows "identities_ok v' \<and> owned v' \<and> pending_own v'"
proof (intro conjI)
  have id: "identities_ok v" and ow: "owned v" and po: "pending_own v" using ok by (simp_all add: run_ok_def)
  note inv = run_mm_inv [OF ok]
  show "pending_own v'" using po by (simp add: v' pending_own_def)
  show "identities_ok v'" using id n by (auto simp: v' identities_ok_def)
  have sub: "owners v' \<subseteq># owners v"
    using leave_keys [OF inv, of owner "conn_of n" 0] by (simp add: v' owners_def)
  have who: "k = caller (ru_server v) n" if "k \<in># owners v" "fst k = conn_of n" for k
    using ow that by (auto simp: owned_def caller_def conn_of_def word_unat_eq_iff [symmetric])
  have gone: "fst k \<noteq> conn_of n" if "k \<in># owners v'" for k
  proof -
    have "fst k \<noteq> conn_of n" if "k \<in># search_keys owner (leave (conn_of n) 0 (sv_mm (ru_server v)))"
    proof (rule leave_gone [OF inv _ that])
      fix k assume "k \<in># search_keys owner (sv_mm (ru_server v))" and "fst k = conn_of n"
      then show "snd k = snd (caller (ru_server v) n)" using who [of k] by (simp add: owners_def)
    qed
    moreover have "sr_conn q \<noteq> conn_of n" if q: "q \<in># searches (ru_pending v)" for q
    proof -
      have "\<exists>p \<in> set ps. q \<in># search_of (snd p)" if "q \<in># searches ps" for ps
        using that by (induction ps) auto
      then obtain p where p: "p \<in> set (ru_pending v)" "q \<in># search_of (snd p)" using q by blast
      then have "sr_conn q = conn_of (fst p)" using po by (auto simp: pending_own_def)
      moreover have "fst p \<noteq> n" using p(1) n by auto
      ultimately show ?thesis by (simp add: conn_of_def word_unat_eq_iff [symmetric])
    qed
    ultimately show ?thesis using \<open>k \<in># owners v'\<close> by (auto simp: v' owners_def owner_def)
  qed
  show "owned v'"
  proof (rule owned_mono [OF ow sub])
    fix m assume m: "m \<in> ru_keyed v" and k: "caller (ru_server v) m \<in># owners v'"
    then have "m \<noteq> n" using gone [OF k] by (auto simp: caller_def)
    then show "m \<in> ru_keyed v' \<and> caller (ru_server v') m = caller (ru_server v) m"
      using m by (intro conjI caller_same) (simp_all add: v')
  qed
qed

text \<open>A step that leaves the matchmaker alone and settles identities.\<close>

lemma ok_aside:
  assumes ok: "run_ok v" and v': "v' = v\<lparr>ru_server := s'\<rparr>"
    and same: "sv_mm s' = sv_mm (ru_server v)" "settles (sv_social (ru_server v)) (sv_social s')"
  shows "identities_ok v' \<and> owned v' \<and> pending_own v'"
proof (intro conjI)
  have id: "identities_ok v" and ow: "owned v" using ok by (simp_all add: run_ok_def)
  show "pending_own v'" using ok by (simp add: v' run_ok_def pending_own_def)
  show "identities_ok v'"
    by (rule identities_settle [OF id]) (use id in \<open>simp_all add: v' same identities_ok_def\<close>)
  show "owned v'" by (rule owned_same [OF ow id]) (simp_all add: v' owners_def same)
qed

lemma run_ok_step:
  assumes ok: "run_ok v" and step: "server_step marshal v v'"
  shows "run_ok v'"
proof -
  from step have "identities_ok v' \<and> owned v' \<and> pending_own v'"
  proof cases
    case (opened n addr now)
    then show ?thesis using ok_opened [OF ok] by blast
  next
    case (identified n files ticket)
    then show ?thesis using ok_identified [OF ok] by blast
  next
    case (served n e payload x a s')
    then show ?thesis using ok_served [OF ok] by blast
  next
    case (replied n a e)
    then show ?thesis using ok_replied [OF ok] by blast
  next
    case (closed n walk now)
    then show ?thesis using ok_closed [OF ok] by blast
  next
    case (worked s')
    then show ?thesis using background_aside ok_aside [OF ok worked(1)] by blast
  qed
  then show ?thesis using world_step [OF ok step] by (simp add: run_ok_def)
qed

interpretation run: invariant_system run_init "server_step marshal" run_ok
  for marshal
proof unfold_locales
  show "run_ok v" if "run_init v" for v
  proof -
    have "\<exists>w. ctr_world_inv w \<and> follows v w"
      using server.init_match [OF that] ctr_init_inv by blast
    then show ?thesis
      using that
      by (auto simp: run_init_def run_ok_def identities_ok_def owned_def owners_def pending_own_def
          start_server_def start_social_def empty_mm_def search_keys_def)
  qed
qed (rule run_ok_step)

subsection \<open>No ghosts\<close>

definition in_mm :: "ctrSearch \<Rightarrow> ctrMatchmaker \<Rightarrow> bool" where
  "in_mm q m \<longleftrightarrow> q \<in> set (mm_waiting m) \<or> (\<exists>i r. live_room m i = Some r \<and> q \<in> set (rm_players r))"

lemma in_mm_owner: "in_mm q m \<Longrightarrow> owner q \<in># search_keys owner m"
  by (auto simp: in_mm_def in_search_keys dest!: live_roomD)

lemma live_host: "mm_inv m \<Longrightarrow> live_room m i = Some r \<Longrightarrow> in_mm (rm_host r) m"
  using mm_inv_room [of None m i r] live_roomD [of m i r]
  by (auto simp: in_mm_def room_inv_def room_base_def)

lemma owned_searches:
  assumes "run_ok v" and "owner q \<in># owners v"
  shows "\<exists>n \<in> ru_open v. sr_conn q = conn_of n \<and> sr_pid q = pid (user (ru_server v) n) \<and> sr_pid q \<noteq> 0"
  using assms by (fastforce simp: run_ok_def owned_def identities_ok_def caller_def owner_def)

text \<open>C15: The matchmaker holds no ghosts: in every reachable state of the server each search that waits, sits in a lobby
  or is about to be enqueued is one of an open connection, and its leader is the player this connection
  identified. So is the host of every lobby: when a connection closes, its lobby is gone, its seats are free and nothing of it
  waits.\<close>

theorem searches_belong_to_open_connections:
  assumes "reach run_init (server_step marshal) v"
  shows "(\<forall>q. in_mm q (sv_mm (ru_server v)) \<or> q \<in># searches (ru_pending v) \<longrightarrow>
      (\<exists>n \<in> ru_open v. sr_conn q = conn_of n \<and> sr_pid q = pid (user (ru_server v) n) \<and> sr_pid q \<noteq> 0)) \<and>
    (\<forall>i r. live_room (sv_mm (ru_server v)) i = Some r \<longrightarrow>
      (\<exists>n \<in> ru_open v. sr_conn (rm_host r) = conn_of n \<and> sr_pid (rm_host r) = pid (user (ru_server v) n)))"
proof -
  have ok: "run_ok v" by (rule run.reach_inv [OF assms])
  have "owner q \<in># owners v" if "in_mm q (sv_mm (ru_server v)) \<or> q \<in># searches (ru_pending v)" for q
    using that in_mm_owner [of q "sv_mm (ru_server v)"] by (auto simp: owners_def)
  then show ?thesis using owned_searches [OF ok] live_host [OF run_mm_inv [OF ok]] by blast
qed

lemma searches_belong_to_open_connections_witness:
  "\<exists>v. reach run_init (server_step ex_marshal) v \<and> ex_search 1 11 1 \<in># searches (ru_pending v) \<and>
     (\<exists>n \<in> ru_open v. sr_conn (ex_search 1 11 1) = conn_of n \<and> pid (user (ru_server v) n) = 11)"
proof -
  obtain v where v: "reach run_init (server_step ex_marshal) v" "ru_pending v = [(1, AfterSearch (ex_search 1 11 1))]"
    using ex_search_reached by blast
  then have q: "ex_search 1 11 1 \<in># searches (ru_pending v)" by simp
  then have "\<exists>n \<in> ru_open v. sr_conn (ex_search 1 11 1) = conn_of n \<and>
      sr_pid (ex_search 1 11 1) = pid (user (ru_server v) n)"
    using searches_belong_to_open_connections [OF v(1)] by blast
  moreover have "sr_pid (ex_search 1 11 1) = 11" by (simp add: ex_search_def)
  ultimately show ?thesis using v(1) q by metis
qed

end
