(* ===== verification/NetworkProps.thy ===== *)
theory NetworkProps
  imports Network OwnerProps
begin

text \<open>The connections with their encrypted channels refine the server, and a sealed task gets a sealed reply.\<close>

subsection \<open>Channels\<close>

text \<open>What the server knows of a connection in each phase.\<close>

definition conn_ok :: "serverRun \<Rightarrow> u64 \<Rightarrow> phase \<Rightarrow> bool" where
  "conn_ok v n ph \<longleftrightarrow>
     (case ph of
        Accepted \<Rightarrow> n \<in> ru_open v \<and> n \<notin> ru_keyed v
      | Talking l \<Rightarrow> n \<in> ru_open v \<and> (n \<in> ru_keyed v \<longleftrightarrow> lc_keys l \<noteq> None) \<and> (\<forall>k. lc_keys l = Some k \<longrightarrow> keys_ok k)
      | Ended \<Rightarrow> True)"

lemma conn_ok_simps [simp]:
  "conn_ok v n Accepted \<longleftrightarrow> n \<in> ru_open v \<and> n \<notin> ru_keyed v"
  "conn_ok v n (Talking l) \<longleftrightarrow>
     n \<in> ru_open v \<and> (n \<in> ru_keyed v \<longleftrightarrow> lc_keys l \<noteq> None) \<and> (\<forall>k. lc_keys l = Some k \<longrightarrow> keys_ok k)"
  "conn_ok v n Ended"
  by (simp_all add: conn_ok_def)

lemma conn_ok_cong:
  "ru_open v' = ru_open v \<Longrightarrow> ru_keyed v' = ru_keyed v \<Longrightarrow> conn_ok v' n ph = conn_ok v n ph"
  by (cases ph) simp_all

definition conns_ok :: "network \<Rightarrow> bool" where
  "conns_ok w \<longleftrightarrow> (\<forall>n. conn_ok (nw_run w) n (nw_conns w n))"

lemma conns_ok_run:
  "conns_ok w \<Longrightarrow> ru_open v = ru_open (nw_run w) \<Longrightarrow> ru_keyed v = ru_keyed (nw_run w) \<Longrightarrow>
   conns_ok (w\<lparr>nw_run := v\<rparr>)"
  by (simp add: conns_ok_def conn_ok_cong [of v "nw_run w"])

lemma send_to_run [simp]: "nw_run (send_to iv inner m w) = nw_run w"
  by (simp add: send_to_def split: phase.splits option.splits prod.splits)

lemma send_to_ok:
  assumes "conns_ok w"
  shows "conns_ok (send_to iv inner m w)"
  unfolding conns_ok_def
proof
  fix n
  have "conn_ok (nw_run w) n (nw_conns w n)" using assms by (simp add: conns_ok_def)
  then show "conn_ok (nw_run (send_to iv inner m w)) n (nw_conns (send_to iv inner m w) n)"
    by (cases "n = fst m"; cases "nw_conns w n")
      (auto simp: send_to_def dest!: sendEncrypted_conn split: phase.splits option.splits prod.splits)
qed

lemma send_all_ok: "conns_ok w \<Longrightarrow> conns_ok (fold (send_to iv inner) ms w)"
  by (induction ms arbitrary: w) (auto intro: send_to_ok)

lemma send_all_run [simp]: "nw_run (fold (send_to iv inner) ms w) = nw_run w"
  by (induction ms arbitrary: w) simp_all

subsection \<open>Steps\<close>

definition net_ok :: "network \<Rightarrow> serverRun \<Rightarrow> bool" where
  "net_ok w v \<longleftrightarrow> v = nw_run w \<and> run_ok v \<and> conns_ok w"

lemma hello_unkeyed: "on_hello hello num pad = Some (l, evs) \<Longrightarrow> lc_keys l = None"
  by (auto simp: on_hello_def Let_def split: if_splits)

lemma no_task: "(\<And>p. EvTask p \<notin> set evs) \<Longrightarrow> tasks evs = []"
  by (induction evs) (auto simp: tasks_def map_filter_simps split: event.splits)

lemma task_in: "p \<in> set (tasks evs) \<longleftrightarrow> EvTask p \<in> set evs"
  by (induction evs) (auto simp: tasks_def map_filter_simps split: event.splits)

lemma identify_step:
  assumes "n \<in> ru_open v" and "n \<notin> ru_keyed v"
  shows "server_step marshal v (identify files n ticket v)"
proof (cases ticket)
  case None
  then have "loadIdentity files n [] (sv_social (ru_server v)) = sv_social (ru_server v)" by (simp add: loadIdentity_def)
  then show ?thesis
    using server_step.identified [OF assms, of marshal files "[]"] None by (simp add: identify_def)
next
  case (Some t)
  then show ?thesis using server_step.identified [OF assms, of marshal files t] by (simp add: identify_def)
qed

lemma conns_ok_upd:
  assumes "conns_ok w" and "conn_ok v n ph"
    and "\<And>m. m \<noteq> n \<Longrightarrow> (m \<in> ru_open v \<longleftrightarrow> m \<in> ru_open (nw_run w)) \<and> (m \<in> ru_keyed v \<longleftrightarrow> m \<in> ru_keyed (nw_run w))"
  shows "conns_ok (w\<lparr>nw_run := v, nw_conns := (nw_conns w)(n := ph), nw_out := out\<rparr>)"
  unfolding conns_ok_def
proof
  fix m
  show "conn_ok (nw_run (w\<lparr>nw_run := v, nw_conns := (nw_conns w)(n := ph), nw_out := out\<rparr>)) m
      (nw_conns (w\<lparr>nw_run := v, nw_conns := (nw_conns w)(n := ph), nw_out := out\<rparr>) m)"
    using assms by (cases "m = n"; cases "nw_conns w m") (auto simp: conns_ok_def dest!: spec [of _ m])
qed

lemma dispatch_follows:
  assumes c: "conns_ok u" and n: "n \<in> ru_keyed (nw_run u)" "\<not> busy n u" and m: "en_marshal te = marshal"
    and d: "dispatch iv te n p u = Some (Return w')"
  shows "server_step marshal (nw_run u) (nw_run w')" and "conns_ok w'"
proof -
  obtain x a s' where t: "onTask te n p (ru_server (nw_run u)) = Some (Return (x, a, s'))"
    using d by (auto simp: dispatch_def split: option.splits outcome.splits)
  let ?v = "(nw_run u)\<lparr>ru_server := s', ru_pending := ru_pending (nw_run u) @ [(n, a)]\<rparr>"
  have w': "w' = (case x of None \<Rightarrow> u\<lparr>nw_run := ?v\<rparr> | Some b \<Rightarrow> send_to iv innerTaskReply (n, b) (u\<lparr>nw_run := ?v\<rparr>))"
    using d t by (simp add: dispatch_def Let_def)
  have "conns_ok (u\<lparr>nw_run := ?v\<rparr>)"
    by (intro conns_ok_run [OF c]) simp_all
  then show "conns_ok w'" using w' send_to_ok by (auto split: option.splits)
  have "server_step marshal (nw_run u) ?v"
    using n by (intro server_step.served [OF _ _ m t]) (auto simp: busy_def)
  moreover have "nw_run w' = ?v" using w' by (auto split: option.splits)
  ultimately show "server_step marshal (nw_run u) (nw_run w')" by simp
qed

text \<open>A frame before the keys: the connection stays as it was, or it is identified.\<close>

lemma unkeyed_frame_follows:
  assumes ok: "conns_ok w" and l: "nw_conns w n = Talking l" "lc_keys l = None"
    and h: "handle_frame e iv te n raw l w = Some (Return w')"
  shows "(nw_run w' = nw_run w \<or> server_step marshal (nw_run w) (nw_run w')) \<and> conns_ok w'"
proof -
  have lo: "n \<in> ru_open (nw_run w)" "n \<notin> ru_keyed (nw_run w)"
    using ok l by (auto simp: conns_ok_def dest!: spec [of _ n])
  obtain go l' evs where f: "on_frame e raw l = (go, l', evs)" by (metis prod_cases3)
  note un = on_frame_unkeyed [OF f l(2)]
  have t: "tasks evs = []" using un(1) by (rule no_task)
  let ?upd = "\<lambda>v. w\<lparr>nw_run := v, nw_conns := (nw_conns w)(n := if go then Talking l' else Ended),
      nw_out := nw_out w @ map (Pair n) (sends evs)\<rparr>"
  show ?thesis
  proof (cases "lc_keys l'")
    case None
    then have "w' = ?upd (nw_run w)" using h f t by (simp add: handle_frame_def Let_def)
    moreover have "conns_ok (?upd (nw_run w))" using lo None by (intro conns_ok_upd [OF ok]) auto
    ultimately show ?thesis by simp
  next
    case (Some k)
    let ?v = "identify (wo_files (en_world te)) n (lc_ticket l') (nw_run w)"
    have "keys_ok k" using un(3) [OF Some] by (auto simp: candidate_keys_def deriveKeys_ok)
    then have "conns_ok (?upd ?v)" using lo Some by (intro conns_ok_upd [OF ok]) (auto simp: identify_def)
    moreover have "w' = ?upd ?v" using h f t l(2) Some by (simp add: handle_frame_def Let_def)
    ultimately show ?thesis using identify_step [OF lo] by simp
  qed
qed

lemma frame_follows:
  assumes ok: "net_ok w v" and l: "nw_conns w n = Talking l" and idle: "\<not> busy n w"
    and m: "en_marshal te = marshal" and h: "handle_frame e iv te n raw l w = Some (Return w')"
  shows "\<exists>v'. (server_step marshal)\<^sup>*\<^sup>* v v' \<and> v' = nw_run w' \<and> conns_ok w'"
proof -
  have v: "v = nw_run w" and co: "conns_ok w" using ok by (simp_all add: net_ok_def)
  have "(nw_run w' = v \<or> server_step marshal v (nw_run w')) \<and> conns_ok w'"
  proof (cases "lc_keys l")
    case None
    then show ?thesis using unkeyed_frame_follows [OF co l None h, of marshal] v by simp
  next
    case (Some k)
    have lo: "n \<in> ru_open v" "n \<in> ru_keyed v" "keys_ok k"
      using co l v Some by (auto simp: conns_ok_def dest!: spec [of _ n])
    obtain go l' evs where f: "on_frame e raw l = (go, l', evs)" by (metis prod_cases3)
    note keyed = on_frame_keyed [OF f Some]
    define u where "u = w\<lparr>nw_run := v, nw_conns := (nw_conns w)(n := if go then Talking l' else Ended),
        nw_out := nw_out w @ map (Pair n) (sends evs)\<rparr>"
    have c: "conns_ok u" unfolding u_def using lo keyed(1) Some v by (intro conns_ok_upd [OF co]) auto
    show ?thesis
    proof (cases "tasks evs")
      case Nil
      then have "w' = u" using h f Some v by (simp add: handle_frame_def Let_def u_def)
      then show ?thesis using c by (simp add: u_def)
    next
      case (Cons p ps)
      then have d: "dispatch iv te n p u = Some (Return w')"
        using h f Some v by (simp add: handle_frame_def Let_def u_def)
      have "n \<in> ru_keyed (nw_run u)" "\<not> busy n u" using lo idle v by (simp_all add: u_def busy_def)
      from dispatch_follows [OF c this m d] show ?thesis by (simp add: u_def)
    qed
  qed
  then show ?thesis by auto
qed

lemma net_step_follows:
  assumes ok: "net_ok w v" and step: "net_step marshal w w'"
  shows "\<exists>v'. (server_step marshal)\<^sup>*\<^sup>* v v' \<and> net_ok w' v'"
proof -
  have v: "v = nw_run w" and ro: "run_ok v" and co: "conns_ok w" using ok by (auto simp: net_ok_def)
  have run: "run_ok v'" if "(server_step marshal)\<^sup>*\<^sup>* v v'" for v'
    using that by (induction rule: rtranclp_induct) (auto intro: ro run_ok_step)
  have "\<exists>v'. (server_step marshal)\<^sup>*\<^sup>* v v' \<and> v' = nw_run w' \<and> conns_ok w'"
    using step
  proof cases
    case (accepted n addr now)
    have "n \<notin> ru_keyed v" using ro accepted(2) v by (auto simp: run_ok_def identities_ok_def)
    then have "conns_ok w'"
      unfolding accepted(1) using v conns_ok_upd [OF co, of _ n Accepted "nw_out w"] by simp
    moreover have "server_step marshal v (nw_run w')"
      using server_step.opened [of n v marshal addr now] accepted v by simp
    ultimately show ?thesis by blast
  next
    case (greeted n hello num pad l evs)
    have "conn_ok v n Accepted" using co greeted(2) v by (auto simp: conns_ok_def dest: spec [of _ n])
    then have "conns_ok w'"
      unfolding greeted(1) using conns_ok_upd [OF co, of v n "Talking l" "nw_out w @ map (Pair n) (sends evs)"]
        hello_unkeyed [OF greeted(4)] v by simp
    then show ?thesis using greeted(1) v by (intro exI [of _ v]) simp
  next
    case (kept_alive n l)
    then show ?thesis using co v by (intro exI [of _ v]) (simp add: conns_ok_def)
  next
    case (framed n l te inp raw rest e iv)
    then show ?thesis using frame_follows [OF ok] by blast
  next
    case (followed n a iv te)
    obtain pushes s' where a: "after_reply te n a (ru_server v) = (pushes, s')" by fastforce
    let ?v = "v\<lparr>ru_server := s', ru_pending := remove1 (n, a) (ru_pending v)\<rparr>"
    have w': "w' = fold (send_to iv innerPush) (map (\<lambda>(c, b). (of_nat c, b)) pushes) (w\<lparr>nw_run := ?v\<rparr>)"
      unfolding followed(1) using a v by (simp add: follow_up_def)
    have "conns_ok (w\<lparr>nw_run := ?v\<rparr>)" using v by (intro conns_ok_run [OF co]) simp_all
    then have "conns_ok w'" unfolding w' by (rule send_all_ok)
    moreover have "server_step marshal v ?v"
      using server_step.replied [of n a v marshal te] followed(2) v a by simp
    ultimately show ?thesis using w' by (intro exI [of _ ?v]) auto
  next
    case (finished n walk now)
    have "conns_ok w'"
      unfolding finished(1) using conns_ok_upd [OF co, of _ n Ended "nw_out w"] by simp
    moreover have "server_step marshal v (nw_run w')"
      using server_step.closed [of n v marshal walk now] finished v by (simp add: busy_def)
    ultimately show ?thesis by blast
  next
    case (aside s')
    have "conns_ok w'"
      unfolding aside(1) by (intro conns_ok_run [OF co]) simp_all
    moreover have "server_step marshal v (nw_run w')" using server_step.worked aside v by simp
    ultimately show ?thesis by blast
  qed
  then show ?thesis using run by (auto simp: net_ok_def)
qed

interpretation net: simulation net_init "net_step marshal" run_init "server_step marshal" net_ok
  for marshal
proof unfold_locales
  show "\<exists>v. run_init v \<and> net_ok w v" if "net_init w" for w
    using that run.init_inv by (auto simp: net_init_def net_ok_def conns_ok_def)
qed (rule net_step_follows)

lemma net_reach:
  assumes "reach net_init (net_step marshal) w"
  shows "reach run_init (server_step marshal) (nw_run w)" and "conns_ok w"
  using net.reach_match [OF assms] by (auto simp: net_ok_def)

text \<open>C12: The connections with their handshakes, encrypted frames and pushes refine the server: whatever frames come in on
  whatever connections, the server reaches only states that its own steps reach, so all that is proved of them
  holds. A connection in its loop is open, and it has session keys exactly when the server takes it for identified.\<close>

theorem network_refines_server:
  assumes "reach net_init (net_step marshal) w"
  shows "reach run_init (server_step marshal) (nw_run w) \<and>
    (\<forall>n l. nw_conns w n = Talking l \<longrightarrow>
       n \<in> ru_open (nw_run w) \<and> (n \<in> ru_keyed (nw_run w) \<longleftrightarrow> lc_keys l \<noteq> None))"
proof (intro conjI allI impI)
  show "reach run_init (server_step marshal) (nw_run w)" by (rule net_reach [OF assms])
  fix n l assume "nw_conns w n = Talking l"
  then show "n \<in> ru_open (nw_run w)" "n \<in> ru_keyed (nw_run w) \<longleftrightarrow> lc_keys l \<noteq> None"
    using net_reach(2) [OF assms] by (auto simp: conns_ok_def dest: spec [of _ n])
qed

subsection \<open>Replies\<close>

lemma send_to_keyed:
  assumes "nw_conns w n = Talking l" and "lc_keys l = Some k" and "keys_ok k"
    and "length (iv n (lc_s2cSeq l)) = 16" and "length b < 2 ^ 31"
  obtains out where "open_message (sk_s2cAES k) (sk_s2cMAC k) out = Some (inner, b)"
    "send_to iv inner (n, b) w =
       w\<lparr>nw_conns := (nw_conns w)(n := Talking (l\<lparr>lc_s2cSeq := lc_s2cSeq l + 1\<rparr>)), nw_out := nw_out w @ [(n, out)]\<rparr>"
proof -
  have aes: "length (sk_s2cAES k) = 16" using assms(3) by (simp add: keys_ok_def)
  obtain ct where "seal_message (sk_s2cAES k) (sk_s2cMAC k) (iv n (lc_s2cSeq l)) (lc_s2cSeq l + 1) inner b =
      (let out = le32 (of_nat (30 + length ct)) @ [frameFlag, msgEncrypted] @ le32 (lc_s2cSeq l + 1) @
         iv n (lc_s2cSeq l) @ ct in Some (out @ hmac_tag (sk_s2cMAC k) out))"
    by (rule seal_some [OF aes assms(4), of b inner "sk_s2cMAC k" "lc_s2cSeq l + 1"]) blast
  then obtain out where out:
    "seal_message (sk_s2cAES k) (sk_s2cMAC k) (iv n (lc_s2cSeq l)) (lc_s2cSeq l + 1) inner b = Some out"
    by (auto simp: Let_def)
  show ?thesis
    using that [of out] open_sealed [OF aes assms(4,5) out] assms(1,2) out
    by (simp add: send_to_def sendEncrypted_def)
qed

text \<open>C10: End to end: in every reachable state, when a client with session keys seals a task of three bytes or more that is
  not one of the storage service or the marketplace, the server handles its frame and sends one message back on that connection, which
  the client opens with the same keys to the reply of the handler; it starts with the next reply number, and
  what follows the reply is then on its way.\<close>

theorem sealed_task_gets_sealed_reply:
  assumes "reach net_init (net_step marshal) w" and "nw_conns w n = Talking l" and "lc_keys l = Some k"
    and "seal_message (sk_c2sAES k) (sk_c2sMAC k) civ seq 0x86 p = Some raw" and "length civ = 16"
    and "3 \<le> length p" and "length p < 2 ^ 31" and "p ! 0 \<notin> {svcMarketplace, svcStorage}"
    and "length (iv n (lc_s2cSeq l)) = 16"
    and "\<forall>b a s'. onTask te n p (ru_server (nw_run w)) = Some (Return (Some b, a, s')) \<longrightarrow> length b < 2 ^ 31"
  shows "\<exists>w' out b a. handle_frame e iv te n raw l w = Some (Return w') \<and>
    nw_out w' = nw_out w @ [(n, out)] \<and>
    open_message (sk_s2cAES k) (sk_s2cMAC k) out = Some (innerTaskReply, b) \<and>
    answers (sv_txn (ru_server (nw_run w)) + 1) b \<and>
    onTask te n p (ru_server (nw_run w)) = Some (Return (Some b, a, ru_server (nw_run w'))) \<and>
    ru_pending (nw_run w') = ru_pending (nw_run w) @ [(n, a)] \<and>
    nw_conns w' n = Talking (l\<lparr>lc_s2cSeq := lc_s2cSeq l + 1\<rparr>)"
proof -
  let ?s = "ru_server (nw_run w)"
  have k: "keys_ok k"
    using net_reach(2) [OF assms(1)] assms(2,3) by (auto simp: conns_ok_def dest!: spec [of _ n])
  then have aes: "length (sk_c2sAES k) = 16" by (simp add: keys_ok_def)
  have opened: "open_message (sk_c2sAES k) (sk_c2sMAC k) raw = Some (0x86, p)"
    by (rule open_sealed [OF aes assms(5,7,4)])
  then have "drop 5 raw \<noteq> []" by (auto simp: open_message_def Let_def)
  with opened have f: "on_frame e raw l = (True, l, [EvTask p])"
    using assms(3) by (simp add: on_frame_def onEncrypted_def Let_def)
  obtain x a s' where t: "onTask te n p ?s = Some (Return (x, a, s'))"
    using onTask_returns [OF assms(6,8), of te n ?s] by auto
  then obtain b where b: "x = Some b" "answers (sv_txn ?s + 1) b"
    using onTask_answers [OF assms(6)] by blast
  define u where "u = w\<lparr>nw_run := (nw_run w)\<lparr>ru_server := s', ru_pending := ru_pending (nw_run w) @ [(n, a)]\<rparr>\<rparr>"
  have h: "handle_frame e iv te n raw l w = Some (Return (send_to iv innerTaskReply (n, b) u))"
    using f t b(1) assms(2,3)
    by (simp add: handle_frame_def dispatch_def tasks_def sends_def map_filter_simps u_def fun_upd_idem)
  have len: "length b < 2 ^ 31" using assms(10) t b(1) by blast
  have c: "nw_conns u n = Talking l" by (simp add: u_def assms(2))
  obtain out where out: "open_message (sk_s2cAES k) (sk_s2cMAC k) out = Some (innerTaskReply, b)"
    "send_to iv innerTaskReply (n, b) u =
       u\<lparr>nw_conns := (nw_conns u)(n := Talking (l\<lparr>lc_s2cSeq := lc_s2cSeq l + 1\<rparr>)), nw_out := nw_out u @ [(n, out)]\<rparr>"
    by (rule send_to_keyed [of u n l k iv b innerTaskReply, OF c assms(3) k assms(9) len])
  show ?thesis
    using h out t b by (intro exI conjI) (auto simp: u_def)
qed

subsection \<open>A run\<close>

definition ex_iv :: "u64 \<Rightarrow> u32 \<Rightarrow> bytes" where "ex_iv = (\<lambda>_ _. replicate 16 0)"

lemma accepted_step:
  assumes "n \<notin> ru_used (nw_run w)"
  shows "\<exists>w'. net_step marshal w w' \<and> nw_conns w' n = Accepted \<and> ru_pending (nw_run w') = ru_pending (nw_run w)"
  by (rule exI, rule conjI, rule accepted [OF assms]) simp

lemma greeted_step:
  assumes "nw_conns w n = Accepted" and "length hello = helloLen" and "on_hello hello num pad = Some (l, evs)"
  shows "\<exists>w'. net_step marshal w w' \<and> nw_conns w' n = Talking l \<and> ru_pending (nw_run w') = ru_pending (nw_run w)"
  by (rule exI, rule conjI, rule greeted [OF assms]) simp

lemma ex_talking:
  obtains w l where "reach net_init (net_step ex_marshal) w" "nw_conns w 1 = Talking l" "lc_keys l = None"
    "lc_maxLen l = 65536" "\<not> busy 1 w"
proof -
  let ?v0 = "\<lparr>ru_server = ex_server, ru_used = {}, ru_open = {}, ru_keyed = {}, ru_pending = []\<rparr>"
  let ?w0 = "\<lparr>nw_run = ?v0, nw_conns = (\<lambda>_. Ended), nw_out = []\<rparr>"
  obtain l hi where l: "on_hello sample_hello 1 (replicate 8 0) = Some (l, [hi])"
    "lc_maxLen l = 65536" "lc_keys l = None" by (rule sample_conn)
  have "run_init ?v0" unfolding run_init_def ex_server_def by blast
  then have "net_init ?w0" by (simp add: net_init_def)
  then have r0: "reach net_init (net_step ex_marshal) ?w0" by (rule reach.reach_init)
  have "1 \<notin> ru_used (nw_run ?w0)" by simp
  from accepted_step [OF this] obtain w1 where w1: "net_step ex_marshal ?w0 w1" "nw_conns w1 1 = Accepted"
      "ru_pending (nw_run w1) = ru_pending (nw_run ?w0)" by blast
  have r1: "reach net_init (net_step ex_marshal) w1" by (rule reach.reach_step [OF r0 w1(1)])
  have "length sample_hello = helloLen" by (simp add: sample_hello_def helloLen_def)
  from greeted_step [OF w1(2) this l(1)] obtain w2 where w2: "net_step ex_marshal w1 w2" "nw_conns w2 1 = Talking l"
      "ru_pending (nw_run w2) = ru_pending (nw_run w1)" by blast
  have r2: "reach net_init (net_step ex_marshal) w2" by (rule reach.reach_step [OF r1 w2(1)])
  show ?thesis using that [OF r2 w2(2) l(3,2)] w1(3) w2(3) by (simp add: busy_def)
qed

lemma ex_session:
  obtains w l k where "reach net_init (net_step ex_marshal) w" "nw_conns w 1 = Talking l" "lc_keys l = Some k"
proof -
  obtain w l where w: "reach net_init (net_step ex_marshal) w" "nw_conns w 1 = Talking l" "lc_keys l = None"
    "lc_maxLen l = 65536" "\<not> busy 1 w" by (rule ex_talking)
  obtain k auth msg where s: "client_session sample_env l k (replicate 16 0) 1 [7, 7] auth msg"
    by (rule sample_session [OF w(4)])
  let ?l = "l\<lparr>lc_keys := Some k, lc_ticket := findTicket auth\<rparr>"
  have "on_frame sample_env auth l = (True, ?l, [EvSend (frame (msgServerOK # sk_serverChk k))])"
    using auth_frame [OF s w(3)] by (simp add: sample_env_def)
  then obtain w' where w': "handle_frame sample_env ex_iv ex_taskEnv 1 auth l w = Some (Return w')"
      "nw_conns w' 1 = Talking ?l"
    by (simp add: handle_frame_def Let_def tasks_def map_filter_simps)
  have "well_framed (lc_maxLen l) auth" using s by (simp add: client_session_def)
  then have "readFrame (lc_maxLen l) (auth @ []) = FrFrame auth []" by (rule readFrame_well_framed)
  then have "net_step ex_marshal w w'"
    using w(5) by (intro framed [OF w(2) _ _ _ w'(1)]) (simp_all add: ex_taskEnv_def)
  then have "reach net_init (net_step ex_marshal) w'" by (rule reach.reach_step [OF w(1)])
  then show ?thesis using that w'(2) by simp
qed

lemma network_refines_server_witness:
  "\<exists>w. reach net_init (net_step ex_marshal) w \<and> 1 \<in> ru_keyed (nw_run w) \<and>
     reach run_init (server_step ex_marshal) (nw_run w)"
proof -
  obtain w l k where w: "reach net_init (net_step ex_marshal) w" "nw_conns w 1 = Talking l" "lc_keys l = Some k"
    by (rule ex_session)
  then show ?thesis using network_refines_server [OF w(1)] by (intro exI [of _ w]) simp
qed

lemma time_task:
  "\<exists>s'. onTask te n [svcTitleUtilities, 3, 6] s =
     Some (Return (Some (one_result (sv_txn s + 1) 6 (w_u32 (word_of_int (unix (en_now te))))), AfterNothing, s'))"
  by (simp add: onTask_def Let_def rd_u8_def rd_map_def rd_fixed_def rd_tag_def remaining_def advance_def
      wire_simps serve_def svc_defs answer_def)

lemma time_reply_short: "length (one_result txn 6 (w_u32 v)) < 2 ^ 31"
  by (simp add: one_result_def taskReply_def w_u64_def w_u32_def w_u8_def)

lemma sealed_task_gets_sealed_reply_witness:
  "\<exists>w (w' :: network) out b k l. reach net_init (net_step ex_marshal) w \<and> nw_conns w 1 = Talking l \<and> lc_keys l = Some k \<and>
     nw_out w' = nw_out w @ [(1, out)] \<and>
     open_message (sk_s2cAES k) (sk_s2cMAC k) out = Some (innerTaskReply, b) \<and>
     answers (sv_txn (ru_server (nw_run w)) + 1) b"
proof -
  let ?p = "[svcTitleUtilities, 3, 6]"
  obtain w l k where w: "reach net_init (net_step ex_marshal) w" "nw_conns w 1 = Talking l" "lc_keys l = Some k"
    by (rule ex_session)
  then have "keys_ok k" using net_reach(2) [OF w(1)] by (auto simp: conns_ok_def dest!: spec [of _ 1])
  then have aes: "length (sk_c2sAES k) = 16" by (simp add: keys_ok_def)
  have iv: "length (replicate 16 (0 :: byte)) = 16" by simp
  obtain raw where raw: "seal_message (sk_c2sAES k) (sk_c2sMAC k) (replicate 16 0) 1 0x86 ?p = Some raw"
    by (rule seal_some [OF aes iv, of ?p "0x86" "sk_c2sMAC k" 1]) (simp add: Let_def)
  have short: "\<forall>b a s'. onTask ex_taskEnv 1 ?p (ru_server (nw_run w)) = Some (Return (Some b, a, s')) \<longrightarrow>
      length b < 2 ^ 31"
    using time_task [of ex_taskEnv 1 "ru_server (nw_run w)"] time_reply_short by auto
  have "3 \<le> length ?p" "length ?p < 2 ^ 31" "?p ! 0 \<notin> {svcMarketplace, svcStorage}" "length (ex_iv 1 (lc_s2cSeq l)) = 16"
    by (simp_all add: svc_defs ex_iv_def)
  from sealed_task_gets_sealed_reply [where iv = ex_iv and te = ex_taskEnv and e = sample_env, OF w raw iv this short]
  show ?thesis using w by metis
qed

end
