(* ===== verification/Reporter.thy ===== *)
theory Reporter
  imports FriendsProps JsonText Texts
begin

text \<open>
  What the server posts of the players online every 30 seconds (\<open>startPresenceReporter\<close> of \<open>presence.go\<close>),
  and the host document of a lobby (\<open>lobbydoc.go\<close>). The orders in which Go walks its maps, the time and the
  decoded upload are arguments; the answers of the account server are only logged.
\<close>

subsection \<open>Reporting the players online\<close>

record post =
  po_url :: string
  po_key :: "string option"
  po_body :: string

definition presenceStatus :: u64 where "presenceStatus = 2"

fun commas :: "string list \<Rightarrow> string" where
  "commas [] = []"
| "commas [p] = p"
| "commas (p # q # ps) = p @ CHR '','' # commas (q # ps)"

definition json_u64s :: "u64 list \<Rightarrow> string" where
  "json_u64s xs = ''['' @ commas (map fmt_u64 xs) @ '']''"

text \<open>\<open>json.Marshal\<close> writes the members of a map in the order of their names.\<close>

definition presence_body :: "string \<Rightarrow> u64 list \<Rightarrow> string" where
  "presence_body app pids =
     json_members [(''appId'', json_string app), (''pids'', json_u64s pids), (''status'', fmt_u64 presenceStatus)]"

definition presence_post :: "string \<Rightarrow> string \<Rightarrow> string \<times> u64 list \<Rightarrow> post" where
  "presence_post base key b =
     \<lparr>po_url = base @ ''/internal/presence-batch'', po_key = (if key \<noteq> '''' then Some key else None),
      po_body = presence_body (fst b) (snd b)\<rparr>"

text \<open>One round of the loop: \<open>walk\<close> is the order in which the map of connections is walked, \<open>order\<close> that of
  the map of games.\<close>

definition presence_round :: "string \<Rightarrow> string \<Rightarrow> string list \<Rightarrow> u64 list \<Rightarrow> social \<Rightarrow> post list" where
  "presence_round base key order walk s =
     map (presence_post base key)
       (filter (\<lambda>b. snd b \<noteq> [])
         (List.map_filter (\<lambda>app. map_option (Pair app) (map_of (onlinePIDsByApp walk s) app)) order))"

subsection \<open>Host document\<close>

definition json_bool :: "bool \<Rightarrow> string" where
  "json_bool b = (if b then ''true'' else ''false'')"

text \<open>\<open>decode\<close> is \<open>json.Unmarshal\<close> into the address of \<open>listen_server\<close>.\<close>

definition uploadedHostAddress :: "(string \<Rightarrow> string option) \<Rightarrow> string \<Rightarrow> string" where
  "uploadedHostAddress decode doc =
     (if doc = '''' then '''' else (case decode doc of None \<Rightarrow> '''' | Some a \<Rightarrow> a))"

record lobbyHostDoc =
  lh_updateTime :: u64
  lh_updateID :: u64
  lh_gameID :: u64
  lh_open :: bool
  lh_openForPresJoin :: bool
  lh_playerState :: "(string \<times> u64) list"
  lh_hostAddress :: string
  lh_hostPlayerID :: u64
  lh_canChangeTeams :: bool

definition host_json :: "lobbyHostDoc \<Rightarrow> string" where
  "host_json d = json_members
     [(''update_time'', fmt_u64 (lh_updateTime d)), (''update_id'', fmt_u64 (lh_updateID d)),
      (''game_id'', fmt_u64 (lh_gameID d)), (''lobby_open'', json_bool (lh_open d)),
      (''lobby_open_for_pres_join'', json_bool (lh_openForPresJoin d)),
      (''player_state'', json_u64_map (lh_playerState d)),
      (''listen_server'', json_members [(''host_address'', json_string (lh_hostAddress d)),
                                      (''host_player_id'', fmt_u64 (lh_hostPlayerID d))]),
      (''team_balance'', json_members [(''can_change_teams'', json_bool (lh_canChangeTeams d))])]"

text \<open>The text and the counter \<open>lobbyDocUpdateID\<close> after it; \<open>now\<close> in seconds.\<close>

definition hostDocument :: "(string \<Rightarrow> string option) \<Rightarrow> int \<Rightarrow> u64 \<Rightarrow> string \<Rightarrow> u64 \<Rightarrow> string \<times> u64" where
  "hostDocument decode now me lobbyDoc counter =
     (host_json
        \<lparr>lh_updateTime = word_of_int now, lh_updateID = counter + 1, lh_gameID = me, lh_open = True,
         lh_openForPresJoin = True, lh_playerState = [(fmt_u64 me, 1)],
         lh_hostAddress = uploadedHostAddress decode lobbyDoc, lh_hostPlayerID = me, lh_canChangeTeams = True\<rparr>,
      counter + 1)"

end
