(* ===== verification/ReporterProps.thy ===== *)
theory ReporterProps
  imports Reporter
begin

text \<open>
  Every player online is posted to the account server exactly once in a round, under the game they play. The
  numbers are read back from the text of the posts.
\<close>

subsection \<open>Reading a post\<close>

definition posted_pids :: "string \<Rightarrow> u64 list option" where
  "posted_pids b =
     those (map (\<lambda>t. map_option of_nat (parse_uint 64 t))
              (split_on (CHR '','') (takeWhile (\<lambda>c. c \<noteq> CHR '']'') (tl (dropWhile (\<lambda>c. c \<noteq> CHR ''['') b)))))"

definition posted_app :: "string \<Rightarrow> string" where
  "posted_app b = takeWhile (\<lambda>c. c \<noteq> dquote) (drop 10 b)"

lemma dquote_char: "dquote = CHR 0x22"
  by code_simp

lemma digit_chars: "c \<in> set (dec_string n) \<Longrightarrow> c \<in> digit_char ` {..<10}"
proof (induction n rule: dec_string.induct)
  case (1 n)
  then show ?case
    by (cases "n < 10") (auto simp: dec_string.simps [of n])
qed

lemma fmt_u64_chars: "c \<in> set (fmt_u64 v) \<Longrightarrow> c \<noteq> CHR '','' \<and> c \<noteq> CHR '']''"
proof -
  have all: "list_all (\<lambda>d. digit_char d \<noteq> CHR '','' \<and> digit_char d \<noteq> CHR '']'') [0..<10]" by code_simp
  assume "c \<in> set (fmt_u64 v)"
  then obtain d where "c = digit_char d" "d \<in> set [0..<10]" by (auto simp: fmt_u64_def dest!: digit_chars)
  then show "c \<noteq> CHR '','' \<and> c \<noteq> CHR '']''" using all by (auto simp only: list_all_iff)
qed

lemma split_commas:
  "ps \<noteq> [] \<Longrightarrow> \<forall>p\<in>set ps. CHR '','' \<notin> set p \<Longrightarrow> split_on (CHR '','') (commas ps) = ps"
  by (induction ps rule: commas.induct) (auto simp: split_on_none split_on_join)

lemma parse_fmt_u64: "parse_uint 64 (fmt_u64 v) = Some (unat v)"
  using unsigned_less [of v, where ?'a = nat] by (simp add: fmt_u64_def parse_uint_dec_string)

lemma those_some: "those (map (\<lambda>x. Some (f x)) xs) = Some (map f xs)"
  by (induction xs) auto

lemma commas_chars: "c \<in> set (commas ps) \<Longrightarrow> c = CHR '','' \<or> (\<exists>p\<in>set ps. c \<in> set p)"
  by (induction ps rule: commas.induct) auto

lemma app_json:
  "json_string (appIDForTitle t) = dquote # appIDForTitle t @ [dquote]"
proof -
  have "json_string d3AppID = dquote # d3AppID @ [dquote]" "json_string ctrAppID = dquote # ctrAppID @ [dquote]"
    by code_simp+
  then show ?thesis by (simp add: appIDForTitle_def)
qed

lemma app_chars: "length (appIDForTitle t) = 16" "c \<in> set (appIDForTitle t) \<Longrightarrow> c \<noteq> dquote \<and> c \<noteq> CHR ''[''"
  by (auto simp: appIDForTitle_def d3AppID_def ctrAppID_def dquote_char split: if_splits)

lemma keys_json:
  "json_string ''appId'' = dquote # ''appId'' @ [dquote]" "json_string ''pids'' = dquote # ''pids'' @ [dquote]"
  "json_string ''status'' = dquote # ''status'' @ [dquote]"
  by code_simp+

lemma body_text:
  "presence_body (appIDForTitle t) xs =
     ''{'' @ dquote # ''appId'' @ dquote # '':'' @ dquote # appIDForTitle t @ dquote # '','' @ dquote # ''pids'' @
     dquote # '':['' @ commas (map fmt_u64 xs) @ '']'' @ '','' @ dquote # ''status'' @ dquote # '':'' @ fmt_u64 presenceStatus @ ''}''"
  by (simp add: presence_body_def json_members_def keys_json app_json json_u64s_def upt_rec)

lemma posted_app_body: "posted_app (presence_body (appIDForTitle t) xs) = appIDForTitle t"
proof -
  have "takeWhile (\<lambda>c. c \<noteq> dquote) (appIDForTitle t @ dquote # r) = appIDForTitle t" for r
    using app_chars by (subst takeWhile_append2) auto
  then show ?thesis by (simp add: posted_app_def body_text)
qed

lemma posted_pids_body:
  assumes "xs \<noteq> []"
  shows "posted_pids (presence_body (appIDForTitle t) xs) = Some xs"
proof -
  let ?c = "commas (map fmt_u64 xs)"
  have no: "\<forall>c\<in>set ?c. c \<noteq> CHR '']''"
    by (auto dest!: commas_chars fmt_u64_chars)
  have drop: "dropWhile (\<lambda>c. c \<noteq> CHR ''['') (appIDForTitle t @ r) = dropWhile (\<lambda>c. c \<noteq> CHR ''['') r" for r
    using app_chars by (intro dropWhile_append2) auto
  have take: "takeWhile (\<lambda>c. c \<noteq> CHR '']'') (?c @ CHR '']'' # r) = ?c" for r
    using no by (subst takeWhile_append2) auto
  have "split_on (CHR '','') ?c = map fmt_u64 xs"
    using assms by (intro split_commas) (auto dest!: fmt_u64_chars)
  then show ?thesis
    by (simp add: posted_pids_def body_text drop take o_def parse_fmt_u64 those_some dquote_char)
qed

subsection \<open>One round\<close>

text \<open>A batch is not empty and of one game; its players are among those of the walk.\<close>

definition batch_of :: "playerID set \<Rightarrow> string \<times> u64 list \<Rightarrow> bool" where
  "batch_of A b \<longleftrightarrow>
     snd b \<noteq> [] \<and> (\<forall>x\<in>set (snd b). \<exists>p\<in>A. pl_pid p = x \<and> appIDForTitle (pl_title p) = fst b)"

lemma set_update: "set (AList.update a v out) \<subseteq> insert (a, v) (set out)"
  by (induction out) auto

lemma by_app_batches:
  "by_app ps (seen, out) = (seen', out') \<Longrightarrow> \<forall>b\<in>set out. batch_of A b \<Longrightarrow> set ps \<subseteq> A \<Longrightarrow>
   \<forall>b\<in>set out'. batch_of A b"
proof (induction ps arbitrary: seen out)
  case (Cons p ps)
  show ?case
  proof (cases "pl_pid p \<noteq> 0 \<and> pl_pid p \<notin> seen")
    case True
    let ?a = "appIDForTitle (pl_title p)"
    let ?old = "case map_of out ?a of None \<Rightarrow> [] | Some l \<Rightarrow> l"
    have "\<forall>x\<in>set ?old. \<exists>p\<in>A. pl_pid p = x \<and> appIDForTitle (pl_title p) = ?a"
    proof (cases "map_of out ?a")
      case (Some l)
      then show ?thesis using bspec [OF Cons.prems(2) map_of_SomeD [OF Some]] by (simp add: batch_of_def)
    qed simp
    then have "batch_of A (?a, ?old @ [pl_pid p])" using Cons.prems(3) by (auto simp: batch_of_def)
    then have upd: "\<forall>b\<in>set (AList.update ?a (?old @ [pl_pid p]) out). batch_of A b"
    proof -
      assume new: "batch_of A (?a, ?old @ [pl_pid p])"
      show ?thesis
      proof (rule ballI)
        fix b assume "b \<in> set (AList.update ?a (?old @ [pl_pid p]) out)"
        then have "b = (?a, ?old @ [pl_pid p]) \<or> b \<in> set out" using subsetD [OF set_update] by fastforce
        then show "batch_of A b" using new Cons.prems(2) by (elim disjE) simp_all
      qed
    qed
    have run: "by_app ps (insert (pl_pid p) seen, AList.update ?a (?old @ [pl_pid p]) out) = (seen', out')"
      using Cons.prems(1) True by (simp add: Let_def)
    show ?thesis by (rule Cons.IH [OF run upd]) (use Cons.prems(3) in simp)
  next
    case False
    then have "by_app ps (seen, out) = (seen', out')" using Cons.prems(1) by (auto split: if_splits)
    then show ?thesis by (rule Cons.IH) (use Cons.prems in auto)
  qed
qed simp

lemma batch_title:
  assumes "(a, xs) \<in> set (onlinePIDsByApp walk s)"
  shows "xs \<noteq> []" and "x \<in> set xs \<Longrightarrow> \<exists>n\<in>set walk. \<exists>p. so_online s n = Some p \<and> pl_pid p = x \<and> appIDForTitle (pl_title p) = a"
proof -
  obtain seen out where b: "by_app (List.map_filter (so_online s) walk) ({}, []) = (seen, out)" by fastforce
  have *: "\<forall>b\<in>set out. batch_of (set (List.map_filter (so_online s) walk)) b"
    by (rule by_app_batches [OF b]) simp_all
  have mem: "(a, xs) \<in> set out" using assms by (simp add: onlinePIDsByApp_def b)
  show "xs \<noteq> []" using * mem by (auto simp: batch_of_def)
  show "\<exists>n\<in>set walk. \<exists>p. so_online s n = Some p \<and> pl_pid p = x \<and> appIDForTitle (pl_title p) = a" if "x \<in> set xs"
    using * mem that by (fastforce simp: List.map_filter_def batch_of_def)
qed

lemma batch_app:
  assumes "(a, xs) \<in> set (onlinePIDsByApp walk s)"
  obtains t where "a = appIDForTitle t"
  using batch_title [OF assms] by (cases xs) auto

text \<open>Every batch is posted, once.\<close>

lemma round_batches:
  assumes "mset order = mset (map fst (onlinePIDsByApp walk s))"
  shows "\<exists>bs. mset bs = mset (onlinePIDsByApp walk s) \<and>
    presence_round base key order walk s = map (presence_post base key) bs"
proof -
  let ?b = "onlinePIDsByApp walk s"
  have dist: "distinct (map fst ?b)" using online_players_reported_once [of walk s] by simp
  let ?pick = "\<lambda>app. map_option (Pair app) (map_of ?b app)"
  let ?bs = "List.map_filter ?pick order"
  have "mset (List.map_filter ?pick xs) = mset (List.map_filter ?pick ys)" if "mset xs = mset ys" for xs ys
    using that by (simp add: List.map_filter_def)
  from this [OF assms] have "mset ?bs = mset (List.map_filter ?pick (map fst ?b))" .
  also have "List.map_filter ?pick (map fst ?b) = ?b"
  proof -
    have "?pick (fst b) = Some b" if "b \<in> set ?b" for b
      using dist that by (cases b) (simp add: map_of_is_SomeI)
    then have "filter (\<lambda>x. ?pick (fst x) \<noteq> None) ?b = ?b" "map (\<lambda>x. the (?pick (fst x))) ?b = ?b"
      by (auto simp: filter_id_conv intro!: map_idI)
    then show ?thesis by (simp add: List.map_filter_def filter_map o_def)
  qed
  finally have bs: "mset ?bs = mset ?b" .
  have "set ?bs = set ?b" using bs by (rule mset_eq_setD)
  then have "\<forall>b\<in>set ?bs. snd b \<noteq> []" using batch_title(1) by (metis surjective_pairing)
  then have "filter (\<lambda>b. snd b \<noteq> []) ?bs = ?bs" by (simp add: filter_id_conv)
  then show ?thesis using bs unfolding presence_round_def by (intro exI [of _ ?bs]) simp
qed

text \<open>The numbers of the players in a list of posts, read back.\<close>

definition all_posted :: "post list \<Rightarrow> u64 list" where
  "all_posted ps = concat (map (\<lambda>p. case posted_pids (po_body p) of None \<Rightarrow> [] | Some xs \<Rightarrow> xs) ps)"

lemma posted_batch:
  assumes "(a, xs) \<in> set (onlinePIDsByApp walk s)"
  shows "posted_pids (presence_body a xs) = Some xs" and "posted_app (presence_body a xs) = a"
  using assms batch_app [OF assms] batch_title(1) [OF assms] posted_pids_body posted_app_body by metis+

text \<open>C38: In a round of the reporter the posts, as their text reads, name every player online exactly once and
  nobody else, and each post names only players with a connection in the game of the post.\<close>

theorem online_players_posted_once:
  assumes "mset order = mset (map fst (onlinePIDsByApp walk s))"
  shows "distinct (all_posted (presence_round base key order walk s)) \<and>
    set (all_posted (presence_round base key order walk s)) = online_pids walk s \<and>
    list_all (\<lambda>p. \<exists>xs. posted_pids (po_body p) = Some xs \<and> xs \<noteq> [] \<and>
        list_all (\<lambda>x. \<exists>n p'. n \<in> set walk \<and> so_online s n = Some p' \<and> pl_pid p' = x \<and>
          posted_app (po_body p) = appIDForTitle (pl_title p')) xs)
      (presence_round base key order walk s)"
proof -
  obtain bs where bs: "mset bs = mset (onlinePIDsByApp walk s)"
    and round: "presence_round base key order walk s = map (presence_post base key) bs"
    using round_batches [OF assms] by blast
  have set: "set bs = set (onlinePIDsByApp walk s)" using bs by (rule mset_eq_setD)
  have "map (\<lambda>b. case posted_pids (presence_body (fst b) (snd b)) of None \<Rightarrow> [] | Some xs \<Rightarrow> xs) bs = map snd bs"
    using set posted_batch(1) by fastforce
  then have all: "all_posted (presence_round base key order walk s) = concat (map snd bs)"
    by (simp add: all_posted_def round presence_post_def o_def del: map_eq_conv)
  have "mset (concat (map snd bs)) = mset (onlinePIDs walk s)"
    unfolding onlinePIDs_def mset_concat by (metis bs mset_map sum_mset_sum_list)
  then have "distinct (concat (map snd bs)) \<and> set (concat (map snd bs)) = online_pids walk s"
    using online_players_reported_once [of walk s] by (metis mset_eq_imp_distinct_iff mset_eq_setD)
  moreover have "\<exists>ys. posted_pids (po_body (presence_post base key b)) = Some ys \<and> ys \<noteq> [] \<and>
      (\<forall>x\<in>set ys. \<exists>n p'. n \<in> set walk \<and> so_online s n = Some p' \<and> pl_pid p' = x \<and>
          posted_app (po_body (presence_post base key b)) = appIDForTitle (pl_title p'))" if mem_b: "b \<in> set bs" for b
  proof -
    obtain a xs where b: "b = (a, xs)" by (cases b)
    then have mem: "(a, xs) \<in> set (onlinePIDsByApp walk s)" using mem_b set by simp
    show ?thesis
      using posted_batch [OF mem] batch_title [OF mem] by (fastforce simp: b presence_post_def)
  qed
  ultimately show ?thesis by (simp add: all [unfolded round] round list_all_iff)
qed

text \<open>Two connections of one player of Crash Team Racing and one of a player of Diablo III.\<close>

definition ex_racer :: "u64 \<Rightarrow> u32 \<Rightarrow> playerID" where
  "ex_racer who game = \<lparr>pl_username = ''ana'', pl_pid = who, pl_sub = '''', pl_kind = ''switch'', pl_title = game\<rparr>"

definition ex_players :: social where
  "ex_players = start_social\<lparr>so_online := [1 \<mapsto> ex_racer 11 5775, 2 \<mapsto> ex_racer 11 5775, 3 \<mapsto> ex_racer 12 5528]\<rparr>"

lemma online_players_posted_once_witness:
  "set (all_posted (presence_round '''' '''' [d3AppID, ctrAppID] [2, 1, 3] ex_players)) = {11, 12} \<and>
   distinct (all_posted (presence_round '''' '''' [d3AppID, ctrAppID] [2, 1, 3] ex_players))"
proof -
  have walk: "List.map_filter (so_online ex_players) [2, 1, 3] = [ex_racer 11 5775, ex_racer 11 5775, ex_racer 12 5528]"
    by (simp add: ex_players_def)
  have apps: "appIDForTitle 5775 = ctrAppID" "appIDForTitle 5528 = d3AppID" "d3AppID \<noteq> ctrAppID"
    by (simp_all add: appIDForTitle_def d3AppID_def ctrAppID_def)
  have "onlinePIDsByApp [2, 1, 3] ex_players = [(ctrAppID, [11]), (d3AppID, [12])]"
    using apps(3) by (simp only: onlinePIDsByApp_def walk) (simp add: ex_racer_def apps(1,2) Let_def)
  then have "mset [d3AppID, ctrAppID] = mset (map fst (onlinePIDsByApp [2, 1, 3] ex_players))" by simp
  from online_players_posted_once [OF this, of "''''" "''''"] show ?thesis
    by (simp only: online_pids_def walk) (simp add: ex_racer_def insert_commute)
qed

end
