(* ===== verification/Startup.thy ===== *)
theory Startup
  imports Proxy Login Pubfiles Reporter
begin

text \<open>
  How the server starts (\<open>main.go\<close>, \<open>lobby.go\<close>, the listener of \<open>auth.go\<close>, \<open>loadCTRAuthSigner\<close> of
  \<open>ctr_signing.go\<close>). The environment is a
  function from names to values, empty when unset; what the system allows (directories, ports, files) and the
  decoded signing key are arguments.
\<close>

subsection \<open>Settings\<close>

type_synonym environment = "string \<Rightarrow> string"

definition envOr :: "environment \<Rightarrow> string \<Rightarrow> string \<Rightarrow> string" where
  "envOr env key def = (if env key \<noteq> '''' then env key else def)"

definition envOrInt :: "environment \<Rightarrow> string \<Rightarrow> int \<Rightarrow> int" where
  "envOrInt env key def =
     (if env key \<noteq> '''' then (case parse_int64 (env key) of Some n \<Rightarrow> n | None \<Rightarrow> def) else def)"

record serverSettings =
  se_host :: string
  se_authPort :: int
  se_lobbyPorts :: string
  se_natPort :: int
  se_cert :: string
  se_key :: string
  se_sessDir :: string
  se_pubConfig :: string
  se_pubDir :: string
  se_dumpRoot :: string
  se_verbose :: bool

definition load_settings :: "environment \<Rightarrow> serverSettings" where
  "load_settings env =
     \<lparr>se_host = envOr env ''NEXTENDO_HOST'' ''127.0.0.1'', se_authPort = envOrInt env ''AUTH_PORT'' 8460,
      se_lobbyPorts = envOr env ''LOBBY_PORTS'' ''3074,3075,3076,3077,3078,3079,3080'',
      se_natPort = envOrInt env ''NAT_PORT'' 3074, se_cert = envOr env ''CERT_FILE'' ''cert.pem'',
      se_key = envOr env ''KEY_FILE'' ''key.pem'', se_sessDir = envOr env ''D3_SESSIONS'' ''sessions'',
      se_pubConfig = envOr env ''D3_PUBFILES_CONFIG'' ''pubfiles.json'', se_pubDir = envOr env ''D3_PUBFILES'' ''pubfiles'',
      se_dumpRoot = envOr env ''D3_DUMPS'' ''off'', se_verbose = (env ''D3_VERBOSE'' = ''1'')\<rparr>"

text \<open>\<open>filepath.Join\<close>: the elements that are not empty, cleaned.\<close>

fun clean_parts :: "bool \<Rightarrow> string list \<Rightarrow> string list \<Rightarrow> string list" where
  "clean_parts rooted acc [] = rev acc"
| "clean_parts rooted acc (p # ps) =
     (if p = '''' \<or> p = ''.'' then clean_parts rooted acc ps
      else if p = ''..'' then
        (if acc \<noteq> [] \<and> hd acc \<noteq> ''..'' then clean_parts rooted (tl acc) ps
         else if rooted then clean_parts rooted acc ps
         else clean_parts rooted (''..'' # acc) ps)
      else clean_parts rooted (p # acc) ps)"

fun join_with :: "string \<Rightarrow> string list \<Rightarrow> string" where
  "join_with sep [] = ''''"
| "join_with sep [p] = p"
| "join_with sep (p # q # ps) = p @ sep @ join_with sep (q # ps)"

definition clean_path :: "string \<Rightarrow> string" where
  "clean_path s =
     (let rooted = has_prefix ''/'' s;
          t = join_with ''/'' (clean_parts rooted [] (split_on (CHR ''/'') s))
      in if rooted then CHR ''/'' # t else if t = '''' then ''.'' else t)"

definition path_join :: "string list \<Rightarrow> string" where
  "path_join es =
     (let fs = filter (\<lambda>e. e \<noteq> '''') es in if fs = [] then '''' else clean_path (join_with ''/'' fs))"

text \<open>The directory for a component's captures; empty when they are off.\<close>

definition runDumpDir :: "serverSettings \<Rightarrow> string \<Rightarrow> (string \<Rightarrow> bool) \<Rightarrow> string \<Rightarrow> string" where
  "runDumpDir se stamp mkdir component =
     (if se_dumpRoot se = ''off'' \<or> se_dumpRoot se = ''0'' then ''''
      else let dir = path_join [se_dumpRoot se, stamp, component] in if mkdir dir then dir else '''')"

text \<open>\<open>To4\<close> of a parsed address, and the address that a migration names.\<close>

definition to4 :: "bytes \<Rightarrow> bytes option" where
  "to4 b = (if take 12 b = replicate 10 0 @ [0xFF, 0xFF] then Some (drop 12 b) else None)"

definition migrateIP :: "serverSettings \<Rightarrow> bytes" where
  "migrateIP se =
     (case Option.bind (parse_ip (se_host se)) to4 of Some b \<Rightarrow> b | None \<Rightarrow> [127, 0, 0, 1])"

definition relay_ip :: "serverSettings \<Rightarrow> (byte \<times> byte \<times> byte \<times> byte) option" where
  "relay_ip se =
     (case Option.bind (parse_ip (se_host se)) to4 of
        Some [a, b, c, d] \<Rightarrow> Some (a, b, c, d) | _ \<Rightarrow> None)"

subsection \<open>The signing key\<close>

text \<open>A key file after \<open>pem.Decode\<close> and the parsers of X.509: \<open>None\<close> when there is no RSA key in it.\<close>

record rsaKey =
  rk_bits :: nat
  rk_exponent :: int
  rk_valid :: bool

record signerEnv =
  sg_file :: "string \<Rightarrow> bytes option"
  sg_pem :: "bytes \<Rightarrow> rsaKey option option"
  sg_openssl :: bool
  sg_run :: "string \<Rightarrow> bytes \<Rightarrow> bytes option"
  sg_verify :: "bytes \<Rightarrow> bytes \<Rightarrow> bytes \<Rightarrow> bool"

datatype signerError =
    KeyUnreadable | NotPEM | NotRSA | WrongSize | InvalidKey | NoOpenSSL | SelfTestFailed

text \<open>The signer keeps the path of the key, and its public part; here the bytes it was read from.\<close>

record ctrAuthSigner =
  cs_path :: string
  cs_public :: bytes

definition signer_sign :: "signerEnv \<Rightarrow> ctrAuthSigner \<Rightarrow> bytes \<Rightarrow> string option" where
  "signer_sign g k = ctr_sign (sg_run g (cs_path k)) (sg_verify g (cs_public k))"

definition self_test :: bytes where "self_test = lit ''CTR signing startup self-test''"

definition loadCTRAuthSigner :: "signerEnv \<Rightarrow> string \<Rightarrow> signerError + ctrAuthSigner option" where
  "loadCTRAuthSigner g path =
     (if path = '''' then Inr None
      else
        (case sg_file g path of
           None \<Rightarrow> Inl KeyUnreadable
         | Some b \<Rightarrow>
             (case sg_pem g b of
                None \<Rightarrow> Inl NotPEM
              | Some None \<Rightarrow> Inl NotRSA
              | Some (Some k) \<Rightarrow>
                  if rk_bits k \<noteq> 2048 \<or> rk_exponent k \<noteq> 65537 then Inl WrongSize
                  else if \<not> rk_valid k then Inl InvalidKey
                  else if \<not> sg_openssl g then Inl NoOpenSSL
                  else
                    let s = \<lparr>cs_path = path, cs_public = b\<rparr> in
                    if signer_sign g s self_test = None then Inl SelfTestFailed else Inr (Some s))))"

subsection \<open>Requests of the login server\<close>

text \<open>
  The handler of \<open>serveAuth\<close>: the second login has its own path, every other path is a login. At most 1 MiB of the
  body is read. \<open>decode\<close> and \<open>decodeUmbrella\<close> are the decoders of the bodies; \<open>loginsTotal\<close> counts the logins.
\<close>

record httpRequest =
  hq_post :: bool
  hq_path :: string
  hq_body :: bytes

record authServer =
  as_dir :: sessDir
  as_logins :: u64

datatype authAnswer = LoginAnswer authReply | UmbrellaAnswer umbrellaReply

definition read_body :: "bytes \<Rightarrow> bytes" where "read_body b = take (2 ^ 20) b"

definition auth_handler ::
    "loginEnv \<Rightarrow> (bytes \<Rightarrow> authRequest) \<Rightarrow> (bytes \<Rightarrow> (string \<times> string) option) \<Rightarrow> (nat \<Rightarrow> int) \<Rightarrow> bytes option \<Rightarrow>
     httpRequest \<Rightarrow> authServer \<Rightarrow> authAnswer \<times> authServer" where
  "auth_handler env decode decodeUmbrella clock lsg q a =
     (if hq_path q = ''/v1.0/tokens/lsg/'' then
        (UmbrellaAnswer (handleCTRUmbrella (hq_post q) (decodeUmbrella (read_body (hq_body q))) clock lsg (as_dir a)), a)
      else
        (case serveLogin env (decode (read_body (hq_body q))) (as_dir a) of
           (Granted body sg, d) \<Rightarrow> (LoginAnswer (Granted body sg), a\<lparr>as_dir := d, as_logins := as_logins a + 1\<rparr>)
         | (r, d) \<Rightarrow> (LoginAnswer r, a\<lparr>as_dir := d\<rparr>)))"

text \<open>The text that the second login sends; \<open>json.Encoder\<close> ends it with a line feed.\<close>

definition umbrella_json :: "u64 \<Rightarrow> string \<Rightarrow> int \<Rightarrow> string" where
  "umbrella_json p lsg expires =
     json_members [(''umbrellaID'', fmt_u64 p), (''accessToken'', json_string lsg), (''expires'', fmt_int expires),
                   (''accounts'', ''[]'')] @ [char_of (10 :: nat)]"

subsection \<open>Listeners\<close>

text \<open>The ports of the list, without blanks; those that can be opened, in order.\<close>

definition lobby_ports :: "string \<Rightarrow> string list" where
  "lobby_ports s = filter (\<lambda>p. p \<noteq> '''') (map trim_space (split_on (CHR '','') s))"

fun open_ports :: "(string \<Rightarrow> string list \<Rightarrow> bool) \<Rightarrow> string list \<Rightarrow> string list \<Rightarrow> string list" where
  "open_ports free opened [] = opened"
| "open_ports free opened (p # ps) = open_ports free (if free p opened then opened @ [p] else opened) ps"

definition startLobby :: "(string \<Rightarrow> string list \<Rightarrow> bool) \<Rightarrow> string \<Rightarrow> string list option" where
  "startLobby free s =
     (let opened = open_ports free [] (lobby_ports s) in if opened = [] then None else Some opened)"

text \<open>The server's start: what ends the process, or what it then serves.\<close>

datatype fatal =
    PubfilesFailed | SessionsDir | PubfilesPanic | WalletsDir | NoLobbyPort | BadSigner signerError | AuthPort

record serving =
  up_settings :: serverSettings
  up_gates :: gates
  up_relayTable :: relayTable
  up_ports :: "string list"
  up_signer :: "ctrAuthSigner option"
  up_proxy :: bool

datatype startup = PubfilesDone | Fatal fatal | Serving serving

record systemEnv =
  sy_env :: environment
  sy_mkdir :: "string \<Rightarrow> bool"
  sy_now :: int
  sy_pub :: pubEnv
  sy_config :: configFile
  sy_can :: "string \<Rightarrow> bool"
  sy_files :: "string \<Rightarrow> bytes option"
  sy_keyFile :: "bytes option"
  sy_free :: "string \<Rightarrow> string list \<Rightarrow> bool"
  sy_authFree :: "int \<Rightarrow> bool"
  sy_signer :: signerEnv

definition pub_result :: "systemEnv \<Rightarrow> serverSettings \<Rightarrow> bool loaded" where
  "pub_result y se = fst (writePubfiles (sy_pub y) (sy_now y) (sy_mkdir y (se_pubDir se)) (sy_can y) (sy_config y) (sy_files y))"

definition no_relay :: relayTable where
  "no_relay = \<lparr>rt_pairs = Map.empty, rt_byPort = Map.empty, rt_low = 0, rt_high = 0, rt_next = 0, rt_ip = (0, 0, 0, 0)\<rparr>"

text \<open>\<open>loadWallets\<close> panics when the directory cannot be made.\<close>

definition loadWallets :: "systemEnv \<Rightarrow> bool" where
  "loadWallets y = sy_mkdir y (envOr (sy_env y) ''CTR_WALLETS'' ''wallets'')"

text \<open>What \<open>startPresenceReporter\<close> posts in one round of its loop.\<close>

definition startPresenceReporter :: "environment \<Rightarrow> string list \<Rightarrow> u64 list \<Rightarrow> social \<Rightarrow> post list" where
  "startPresenceReporter env =
     presence_round (envOr env ''NEXTENDO_ACCOUNT_URL'' ''http://127.0.0.1:8080'') (env ''NEXTENDO_INTERNAL_KEY'')"

text \<open>\<open>serveAuth\<close> up to its listening.\<close>

definition auth_listen :: "systemEnv \<Rightarrow> serving \<Rightarrow> startup" where
  "auth_listen y v =
     (if \<not> sy_authFree y (se_authPort (up_settings v)) then Fatal AuthPort
      else Serving (v\<lparr>up_proxy := (sy_env y ''NEXTENDO_PROXY_PROTOCOL'' = ''1'')\<rparr>))"

definition serveAuth :: "systemEnv \<Rightarrow> serverSettings \<Rightarrow> gates \<Rightarrow> relayTable \<Rightarrow> string list \<Rightarrow> startup" where
  "serveAuth y se g relay ports =
     (case loadCTRAuthSigner (sy_signer y) (sy_env y ''CTR_AUTH_SIGNING_KEY'') of
        Inl err \<Rightarrow> Fatal (BadSigner err)
      | Inr signer \<Rightarrow>
          auth_listen y \<lparr>up_settings = se, up_gates = g, up_relayTable = relay, up_ports = ports,
                         up_signer = signer, up_proxy = False\<rparr>)"

text \<open>
  The dashboard, the presence reporter, the NAT server and the reaping of games run beside what is returned here:
  \<open>dashboard_request\<close>, \<open>startPresenceReporter\<close>, \<open>nat_packet\<close> and \<open>reapSessionsOnce\<close> model their work.
\<close>

definition main :: "systemEnv \<Rightarrow> string list \<Rightarrow> startup" where
  "main y args =
     (let se = load_settings (sy_env y) in
      if length args > 1 \<and> args ! 1 = ''pubfiles'' then
        (case pub_result y se of
           Loaded True \<Rightarrow> PubfilesDone | Panicked \<Rightarrow> Fatal PubfilesPanic | _ \<Rightarrow> Fatal PubfilesFailed)
      else if \<not> sy_mkdir y (se_sessDir se) then Fatal SessionsDir
      else if pub_result y se = Panicked then Fatal PubfilesPanic
      else if \<not> loadWallets y then Fatal WalletsDir
      else
        let relay = startCTRRelay (envOrInt (sy_env y) ''CTR_RELAY_PORT_LOW'' 0)
                      (envOrInt (sy_env y) ''CTR_RELAY_PORT_HIGH'' 0) (relay_ip se) no_relay in
        (case startLobby (sy_free y) (se_lobbyPorts se) of
           None \<Rightarrow> Fatal NoLobbyPort
         | Some ports \<Rightarrow>
             serveAuth y se
               (loadGates (sy_env y ''NEXTENDO_SECRET'') (sy_keyFile y) (sy_env y ''NEXTENDO_REQUIRE_ACCOUNT'')
                  (sy_env y ''NEXTENDO_REQUIRE_SIGNED_TOKEN'')) relay ports))"

end
