(* ===== verification/StartupProps.thy ===== *)
theory StartupProps
  imports Startup LoginProps PubfileProps
begin

text \<open>What a server that started has: open ports, a relay in order, the gates its environment asks for, and a
  signing key that was tried.\<close>

subsection \<open>Ports\<close>

text \<open>What is opened: the ports of the list that were free, each when its turn came.\<close>

lemma open_ports_app: "open_ports free o1 (ps @ qs) = open_ports free (open_ports free o1 ps) qs"
  by (induction ps arbitrary: o1) auto

lemma open_ports_set: "p \<in> set (open_ports free o1 ps) \<Longrightarrow> p \<in> set o1 \<or> p \<in> set ps"
  by (induction ps arbitrary: o1) (fastforce split: if_splits)+

lemma open_ports_keep: "set o1 \<subseteq> set (open_ports free o1 ps)"
  by (induction ps arbitrary: o1) fastforce+

lemma open_ports_free:
  "p \<in> set (open_ports free o1 ps) \<Longrightarrow> p \<in> set o1 \<or> (\<exists>pre. free p (open_ports free o1 pre))"
proof (induction ps arbitrary: o1)
  case (Cons q ps)
  let ?o = "if free q o1 then o1 @ [q] else o1"
  from Cons.prems have "p \<in> set (open_ports free ?o ps)" by simp
  then consider "p \<in> set ?o" | pre where "free p (open_ports free ?o pre)" using Cons.IH by blast
  then show ?case
  proof cases
    case 1
    then show ?thesis by (cases "p \<in> set o1") (auto split: if_splits intro: exI [of _ "[]"])
  next
    case 2
    then have "free p (open_ports free o1 (q # pre))" by simp
    then show ?thesis by blast
  qed
qed simp

text \<open>A port of the list that is not open was taken at its turn.\<close>

lemma open_ports_busy:
  assumes "p \<in> set ps" and "p \<notin> set (open_ports free o1 ps)"
  shows "\<exists>pre. \<not> free p (open_ports free o1 pre)"
proof -
  from assms(1) obtain pre post where ps: "ps = pre @ p # post" by (auto simp: in_set_conv_decomp)
  have "\<not> free p (open_ports free o1 pre)"
  proof
    assume "free p (open_ports free o1 pre)"
    then have "p \<in> set (open_ports free (open_ports free o1 pre) (p # post))"
      using open_ports_keep by fastforce
    then show False using assms(2) by (simp add: ps open_ports_app del: open_ports.simps)
  qed
  then show ?thesis by blast
qed

lemma startLobby_none: "startLobby free s = None \<longleftrightarrow> (\<forall>p\<in>set (lobby_ports s). \<not> free p [])"
proof -
  have "open_ports free [] ps = [] \<longleftrightarrow> (\<forall>p\<in>set ps. \<not> free p [])" for ps
  proof (induction ps)
    case (Cons p ps)
    then show ?case using open_ports_keep [of "[p]" free ps] by (cases "free p []") auto
  qed simp
  then show ?thesis by (simp add: startLobby_def Let_def)
qed

subsection \<open>The signing key\<close>

lemma loadCTRAuthSigner_ok:
  assumes "loadCTRAuthSigner g path = Inr (Some k)"
  shows "path \<noteq> '''' \<and> cs_path k = path \<and> sg_file g path = Some (cs_public k) \<and> signer_sign g k self_test \<noteq> None"
  using assms by (auto simp: loadCTRAuthSigner_def Let_def split: if_splits option.splits)

lemma loadCTRAuthSigner_none: "loadCTRAuthSigner g path = Inr None \<longleftrightarrow> path = ''''"
  by (auto simp: loadCTRAuthSigner_def Let_def split: option.splits)

lemma signer_sign_ok:
  "signer_sign g k body = Some s \<longleftrightarrow>
     (\<exists>sig. sg_run g (cs_path k) (sha256 body) = Some sig \<and> length sig = 256 \<and>
        sg_verify g (cs_public k) (sha256 body) sig \<and> s = std_encode sig)"
  by (auto simp: signer_sign_def ctr_sign_def split: option.splits)

subsection \<open>Requests\<close>

text \<open>Only a login changes the session directory; it is counted exactly when it is granted.\<close>

lemma auth_handler_umbrella:
  "hq_path q = ''/v1.0/tokens/lsg/'' \<Longrightarrow> snd (auth_handler env decode decodeU clock lsg q a) = a"
  by (simp add: auth_handler_def)

lemma auth_handler_counts:
  "auth_handler env decode decodeU clock lsg q a = (r, a') \<Longrightarrow>
   as_logins a' = as_logins a + (if \<exists>body sg. r = LoginAnswer (Granted body sg) then 1 else 0)"
  by (auto simp: auth_handler_def split: if_splits prod.splits authReply.splits)

subsection \<open>Start-up\<close>

lemma main_serving:
  assumes "main y args = Serving v"
  shows "startLobby (sy_free y) (se_lobbyPorts (load_settings (sy_env y))) = Some (up_ports v)"
    and "loadCTRAuthSigner (sy_signer y) (sy_env y ''CTR_AUTH_SIGNING_KEY'') = Inr (up_signer v)"
    and "up_relayTable v = startCTRRelay (envOrInt (sy_env y) ''CTR_RELAY_PORT_LOW'' 0)
           (envOrInt (sy_env y) ''CTR_RELAY_PORT_HIGH'' 0) (relay_ip (load_settings (sy_env y))) no_relay"
    and "up_gates v = loadGates (sy_env y ''NEXTENDO_SECRET'') (sy_keyFile y) (sy_env y ''NEXTENDO_REQUIRE_ACCOUNT'')
           (sy_env y ''NEXTENDO_REQUIRE_SIGNED_TOKEN'')"
    and "\<not> (length args > 1 \<and> args ! 1 = ''pubfiles'')"
  using assms
  by (auto simp: main_def serveAuth_def auth_listen_def loadWallets_def Let_def split: if_splits option.splits sum.splits loaded.splits bool.splits)

lemma started_relay:
  "startCTRRelay low high ip no_relay = no_relay \<or> relay_init (startCTRRelay low high ip no_relay)"
  by (auto simp: startCTRRelay_def relay_init_def no_relay_def split: option.splits)

text \<open>A server starts only with at least one port of the configured list open, each of which was free at its turn,
  while every other port of the list was taken; its relay is off or in an initial state of the relay's runs with
  ports from the configured range; and it has a signing key exactly when one is configured, one whose trial
  signature verified.\<close>

theorem started_server_is_in_order:
  assumes "main y args = Serving v"
  shows "up_ports v \<noteq> [] \<and>
    (\<forall>p. p \<in> set (up_ports v) \<longrightarrow> p \<in> set (lobby_ports (se_lobbyPorts (load_settings (sy_env y)))) \<and>
       (\<exists>ps. sy_free y p (open_ports (sy_free y) [] ps))) \<and>
    (\<forall>p. p \<in> set (lobby_ports (se_lobbyPorts (load_settings (sy_env y)))) - set (up_ports v) \<longrightarrow>
       (\<exists>ps. \<not> sy_free y p (open_ports (sy_free y) [] ps))) \<and>
    (rt_low (up_relayTable v) = 0 \<or> relay_init (up_relayTable v) \<and>
       rt_low (up_relayTable v) = envOrInt (sy_env y) ''CTR_RELAY_PORT_LOW'' 0 \<and>
       rt_high (up_relayTable v) = envOrInt (sy_env y) ''CTR_RELAY_PORT_HIGH'' 0) \<and>
    (up_signer v = None \<longleftrightarrow> sy_env y ''CTR_AUTH_SIGNING_KEY'' = '''') \<and>
    (\<forall>k. up_signer v = Some k \<longrightarrow> (\<exists>sig. sg_verify (sy_signer y) (cs_public k) (sha256 self_test) sig))"
proof -
  note m = main_serving [OF assms]
  let ?free = "sy_free y" and ?ps = "lobby_ports (se_lobbyPorts (load_settings (sy_env y)))"
  have ports: "up_ports v = open_ports ?free [] ?ps" "up_ports v \<noteq> []"
    using m(1) by (auto simp: startLobby_def Let_def split: if_splits)
  have relay: "rt_low (up_relayTable v) = 0 \<or> relay_init (up_relayTable v) \<and>
       rt_low (up_relayTable v) = envOrInt (sy_env y) ''CTR_RELAY_PORT_LOW'' 0 \<and>
       rt_high (up_relayTable v) = envOrInt (sy_env y) ''CTR_RELAY_PORT_HIGH'' 0"
    using m(3) by (auto simp: startCTRRelay_def relay_init_def no_relay_def split: option.splits)
  have signer: "\<exists>sig. sg_verify (sy_signer y) (cs_public k) (sha256 self_test) sig" if k: "up_signer v = Some k" for k
  proof -
    obtain s where "signer_sign (sy_signer y) k self_test = Some s"
      using loadCTRAuthSigner_ok [OF m(2) [unfolded k]] not_None_eq by metis
    then show ?thesis unfolding signer_sign_ok by blast
  qed
  have none: "up_signer v = None \<longleftrightarrow> sy_env y ''CTR_AUTH_SIGNING_KEY'' = ''''"
    by (metis loadCTRAuthSigner_none m(2) sum.inject(2))
  have listed: "p \<in> set ?ps" and free: "\<exists>ps. ?free p (open_ports ?free [] ps)" if "p \<in> set (up_ports v)" for p
    using open_ports_set [of p ?free "[]" ?ps] open_ports_free [of p ?free "[]" ?ps] that
    unfolding ports(1) by (simp_all del: open_ports.simps)
  have busy: "\<exists>ps. \<not> ?free p (open_ports ?free [] ps)" if "p \<in> set ?ps - set (up_ports v)" for p
    using open_ports_busy [of p ?ps ?free "[]"] that unfolding ports(1) by simp
  show ?thesis
    by (intro conjI allI impI) (rule ports(2) relay none | erule listed free busy signer)+
qed

subsection \<open>Signed logins\<close>

lemma serveLogin_signed:
  assumes "serveLogin env q d = (Granted body sg, d')" and "titleOf (ar_title q) = 5775"
    and "le_signer env = Some sign"
  shows "\<exists>s. sg = Some s \<and> sign (lit body) = Some s"
proof -
  obtain p nnex where id: "playerIdentity (ar_extra q) (le_claims env) = (p, nnex)" by fastforce
  define body' where "body' = auth_json (ar_task q) (ar_seed q)
    (clientTicket (le_clock env) 5775 (pl_pid p) (le_random env)) (pl_pid p)"
  show ?thesis
    using assms unfolding serveLogin_def id
    by (cases "sign (lit body')") (auto simp: Let_def body'_def split: option.splits dest!: sym [of "Some _"])
qed

text \<open>C7: While a server started with a signing key runs, every granted login of Crash Team Racing carries a
  signature of its very body that verifies under that key, and none is granted without one.\<close>

theorem ctr_logins_are_signed:
  assumes "main y args = Serving v" and "sy_env y ''CTR_AUTH_SIGNING_KEY'' \<noteq> ''''"
    and "le_signer env = map_option (signer_sign (sy_signer y)) (up_signer v)"
    and "titleOf (ar_title q) = 5775" and "serveLogin env q d = (Granted body sg, d')"
  shows "\<exists>k sig. up_signer v = Some k \<and> sg_file (sy_signer y) (sy_env y ''CTR_AUTH_SIGNING_KEY'') = Some (cs_public k) \<and>
    sg = Some (std_encode sig) \<and> length sig = 256 \<and> sg_verify (sy_signer y) (cs_public k) (sha256 (lit body)) sig"
proof -
  note load = main_serving(2) [OF assms(1)]
  then obtain k where k: "up_signer v = Some k"
    using loadCTRAuthSigner_none [of "sy_signer y"] assms(2) by (cases "up_signer v") auto
  have "\<exists>s. sg = Some s \<and> signer_sign (sy_signer y) k (lit body) = Some s"
    using serveLogin_signed [OF assms(5,4)] assms(3) k by simp
  then obtain s where "sg = Some s" "signer_sign (sy_signer y) k (lit body) = Some s" by auto
  then show ?thesis
    using loadCTRAuthSigner_ok [OF load [unfolded k]] k by (simp add: signer_sign_ok) blast
qed

subsection \<open>A start\<close>

text \<open>Two ports are configured and one of them is free; the trial signature verifies.\<close>

definition ex_environment :: environment where
  "ex_environment k =
     (if k = ''LOBBY_PORTS'' then ''3074, 3075,'' else if k = ''CTR_AUTH_SIGNING_KEY'' then ''key.pem'' else '''')"

definition ex_signer :: signerEnv where
  "ex_signer = \<lparr>sg_file = (\<lambda>_. Some [7]), sg_pem = (\<lambda>_. Some (Some \<lparr>rk_bits = 2048, rk_exponent = 65537, rk_valid = True\<rparr>)),
     sg_openssl = True, sg_run = (\<lambda>_ _. Some (replicate 256 1)), sg_verify = (\<lambda>_ _ sig. sig = replicate 256 1)\<rparr>"

definition ex_system :: systemEnv where
  "ex_system = \<lparr>sy_env = ex_environment, sy_mkdir = (\<lambda>_. True), sy_now = 0, sy_pub = ex_pubEnv, sy_config = Unreadable,
     sy_can = (\<lambda>_. True), sy_files = Map.empty, sy_keyFile = None, sy_free = (\<lambda>p _. p = ''3075''),
     sy_authFree = (\<lambda>_. True), sy_signer = ex_signer\<rparr>"

definition ex_key :: ctrAuthSigner where "ex_key = \<lparr>cs_path = ''key.pem'', cs_public = [7]\<rparr>"

lemma ex_sign: "signer_sign ex_signer ex_key b = Some (std_encode (replicate 256 1))"
  by (simp add: signer_sign_ok ex_signer_def)

lemma ex_load_key: "loadCTRAuthSigner ex_signer ''key.pem'' = Inr (Some ex_key)"
  using ex_sign [of self_test] unfolding ex_key_def
  by (simp add: loadCTRAuthSigner_def ex_signer_def Let_def)

lemma ex_ports: "lobby_ports ''3074, 3075,'' = [''3074'', ''3075'']"
  by code_simp

lemma ex_main: "\<exists>v. main ex_system [] = Serving v \<and> up_ports v = [''3075''] \<and> up_signer v = Some ex_key"
proof -
  have sys: "sy_env ex_system = ex_environment" "sy_mkdir ex_system d" "sy_authFree ex_system port"
    "sy_signer ex_system = ex_signer" for d port
    by (simp_all add: ex_system_def)
  have "pub_result ex_system se = Failed" for se
    by (simp add: pub_result_def ex_system_def writePubfiles_def loadPubConfig_def defaultPubConfig_def ex_pubEnv_def)
  moreover have "startLobby (sy_free ex_system) (se_lobbyPorts (load_settings ex_environment)) = Some [''3075'']"
    by (simp add: startLobby_def load_settings_def envOr_def ex_environment_def ex_ports ex_system_def)
  moreover have "ex_environment ''CTR_AUTH_SIGNING_KEY'' = ''key.pem''" by (simp add: ex_environment_def)
  ultimately show ?thesis
    using ex_load_key by (simp add: main_def serveAuth_def auth_listen_def loadWallets_def sys Let_def)
qed

lemma started_server_is_in_order_witness:
  "\<exists>v. main ex_system [] = Serving v \<and> up_ports v = [''3075''] \<and>
     (\<exists>ps. \<not> sy_free ex_system ''3074'' (open_ports (sy_free ex_system) [] ps))"
proof -
  obtain v where v: "main ex_system [] = Serving v" "up_ports v = [''3075'']" using ex_main by blast
  have "''3074'' \<in> set (lobby_ports (se_lobbyPorts (load_settings (sy_env ex_system)))) - set (up_ports v)"
    using v(2) by (simp add: load_settings_def envOr_def ex_environment_def ex_ports ex_system_def)
  then show ?thesis using started_server_is_in_order [OF v(1)] v by blast
qed

lemma ctr_logins_are_signed_witness:
  "\<exists>v body sg d. main ex_system [] = Serving v \<and>
     serveLogin (ex_env\<lparr>le_signer := map_option (signer_sign (sy_signer ex_system)) (up_signer v)\<rparr>) ex_login ex_dir =
       (Granted body sg, d) \<and> sg = Some (std_encode (replicate 256 1))"
proof -
  obtain v where v: "main ex_system [] = Serving v" and k: "up_signer v = Some ex_key" using ex_main by blast
  let ?env = "ex_env\<lparr>le_signer := map_option (signer_sign (sy_signer ex_system)) (up_signer v)\<rparr>"
  have sy: "sy_signer ex_system = ex_signer" by (simp add: ex_system_def)
  have id: "playerIdentity (ar_extra ex_login) (le_claims ?env) = (ex_id, ex_token)" using ex_identity by simp
  have "admitPlayer (le_gates ?env) (le_clock ?env 3) (le_answer ?env) ex_id ex_token = None"
    using ex_proven by (simp add: admitPlayer_def proven_def ex_env_def ex_id_def nextendoOnlineCheck_def ex_token_def mint_def)
  moreover have title: "titleOf (ar_title ex_login) = 5775" 
    by (simp add: titleOf_def ex_login_def parse_uint_def parse_dec_def digit_value_def)
  ultimately obtain body sg d where g: "serveLogin ?env ex_login ex_dir = (Granted body sg, d)"
    unfolding serveLogin_def id by (auto simp: Let_def k sy ex_sign)
  have "sy_env ex_system ''CTR_AUTH_SIGNING_KEY'' \<noteq> ''''" by (simp add: ex_system_def ex_environment_def)
  from ctr_logins_are_signed [OF v this _ title g] have "sg = Some (std_encode (replicate 256 1))"
    by (auto simp: k sy ex_signer_def)
  with v g show ?thesis by blast
qed

end
