(* ===== verification/JourneyProps.thy ===== *)
theory JourneyProps
  imports NetworkProps LoginProps
begin

text \<open>
  From the login to the lobby: the ticket of a granted login, shown in the handshake of a connection, gives it session
  keys and makes the server take it for the player of the login.
\<close>

subsection \<open>The ticket in a message\<close>

text \<open>A ticket that starts at a byte is read as it is.\<close>

lemma byte_bits: "foldl (\<lambda>v j. v OR push_bit j (if bit b j then 1 else 0)) (0 :: byte) [0..<8] = (b :: byte)"
proof (rule bit_word_eqI)
  fix m assume "m < LENGTH(8)"
  then have "m = 0 \<or> m = 1 \<or> m = 2 \<or> m = 3 \<or> m = 4 \<or> m = 5 \<or> m = 6 \<or> m = 7" by (simp, presburger)
  moreover have "[0..<8] = [0, 1, 2, 3, 4, 5, 6, 7 :: nat]" by (simp add: upt_rec)
  ultimately show "bit (foldl (\<lambda>v j. v OR push_bit j (if bit b j then 1 else 0)) (0 :: byte) [0..<8]) m \<longleftrightarrow> bit b m"
    by (elim disjE) (simp_all add: bit_or_iff bit_push_bit_iff)
qed

lemma raw_get_aligned: "raw_get raw False (8 * i) k = raw ! (i + k)"
proof -
  have "raw_bit raw False (8 * i + k * 8 + j) = bit (raw ! (i + k)) j" if "j < 8" for j
  proof -
    have sum: "8 * i + k * 8 + j = j + (i + k) * 8" by simp
    have "(8 * i + k * 8 + j) div 8 = i + k" "(8 * i + k * 8 + j) mod 8 = j"
      unfolding sum using that by (simp_all only: mod_mult_self1 mod_less div_mult_self1 div_less zero_neq_numeral
          add_0_right add_0_left not_False_eq_True)
    then show ?thesis by (simp add: raw_bit_def)
  qed
  then have "raw_get raw False (8 * i) k = foldl (\<lambda>v j. v OR push_bit j (if bit (raw ! (i + k)) j then 1 else 0)) 0 [0..<8]"
    unfolding raw_get_def by (intro foldl_cong) simp_all
  then show ?thesis by (simp add: byte_bits)
qed

lemma raw_get_cong:
  assumes "\<And>i. i \<le> (off + k * 8 + 7) div 8 \<Longrightarrow> raw ! i = raw' ! i"
  shows "raw_get raw msb off k = raw_get raw' msb off k"
proof -
  have "raw_bit raw msb (off + k * 8 + j) = raw_bit raw' msb (off + k * 8 + j)" if "j < 8" for j
    using assms [of "(off + k * 8 + j) div 8"] that by (simp add: raw_bit_def div_le_mono)
  then show ?thesis unfolding raw_get_def by (intro foldl_cong) simp_all
qed

lemma find_here:
  "n < m \<Longrightarrow> P n \<Longrightarrow> (\<And>i. i < n \<Longrightarrow> \<not> P i) \<Longrightarrow> find P [0..<m] = Some n"
  by (auto simp: find_Some_iff intro!: exI [of _ n])

text \<open>The frame of a client that shows its ticket.\<close>

definition auth_head :: bytes where "auth_head = le32 138 @ [frameFlag, msgClientAuth]"

lemma findTicket_shown:
  assumes "length t = 128" and "take 4 t = ticket_magic" and "length tag = 8"
  shows "findTicket (auth_head @ t @ tag) = Some t"
proof -
  let ?raw = "auth_head @ t @ tag" and ?c = "auth_head @ ticket_magic"
  have head: "length auth_head = 6" by (simp add: auth_head_def)
  have nth: "?raw ! (6 + k) = t ! k" if "k < 128" for k
    using that assms(1) head by (simp add: nth_append)
  have get: "map (raw_get ?raw False 48) [0..<n] = take n t" if "n \<le> 128" for n
    using that assms(1) nth raw_get_aligned [of ?raw 6]
    by (intro nth_equalityI) (simp_all add: nth_append)
  have at: "ticket_at ?raw False 48" using get [of 4] assms(2) by (simp add: ticket_at_def)
  have early: "list_all (\<lambda>off. \<not> ticket_at ?c False off) [0..<48]" by code_simp
  have "\<not> ticket_at ?raw False off" if "off < 48" for off
  proof -
    have "?raw ! i = ?c ! i" if "i < 10" for i
    proof (cases "i < 6")
      case False
      then have "t ! (i - 6) = take 4 t ! (i - 6)" using that by simp
      moreover have "i - 6 < 128" using that by simp
      ultimately show ?thesis using False head assms(1,2) that by (simp add: nth_append)
    qed (simp add: nth_append head)
    then have "raw_get ?raw False off k = raw_get ?c False off k" if "k < 4" for k
      using that \<open>off < 48\<close> by (intro raw_get_cong) auto
    then have "map (raw_get ?raw False off) [0..<4] = map (raw_get ?c False off) [0..<4]" by simp
    then have "ticket_at ?raw False off = ticket_at ?c False off" by (simp only: ticket_at_def)
    moreover have "off \<in> set [0..<48]" using that by simp
    ultimately show ?thesis using early unfolding list_all_iff by blast
  qed
  then have "find (ticket_at ?raw False) [0..<length ?raw * 8 + 1 - 128 * 8] = Some 48"
    by (intro find_here at) (simp add: assms(1,3) head)
  then show ?thesis using get [of 128] assms(1) by (simp add: findTicket_def ticket_scan_def)
qed

subsection \<open>From the login to the lobby\<close>

text \<open>What is sent after the answer: with \<open>CTR_MIGRATE\<close> one encrypted message, nothing without it.\<close>

definition migrate_notice :: "lobbyEnv \<Rightarrow> sessionKeys \<Rightarrow> bytes list \<Rightarrow> bool" where
  "migrate_notice e k out \<longleftrightarrow>
     (if le_migrate e
      then \<exists>b. out = [b] \<and> open_message (sk_s2cAES k) (sk_s2cMAC k) b = Some (msgMigrateInit, [1])
      else out = [])"

lemma shown_ticket_frame:
  fixes l raw key
  assumes "findTicket raw = Some t" and "subslice 97 121 t = key" and "14 \<le> length raw" and "raw ! 5 = msgClientAuth"
    and "last8 raw = sk_clientTag (deriveKeys (transcript l raw) key)" and "lc_keys l = None"
    and "le_migrate e \<longrightarrow> length (le_iv e (lc_s2cSeq l)) = 16"
  defines "k \<equiv> deriveKeys (transcript l raw) key"
  obtains l' out where "on_frame e raw l = (True, l', EvSend (frame (msgServerOK # sk_serverChk k)) # map EvSend out)"
    "lc_keys l' = Some k" "lc_ticket l' = Some t" "migrate_notice e k out"
proof -
  have found: "find (\<lambda>k. sk_clientTag k = last8 raw) (candidate_keys (le_files e) l raw) = Some k"
    using assms(1,2,5) by (simp add: candidate_keys_def candidates_def ticket_keys_def k_def)
  have body: "drop 5 raw \<noteq> []" "hd (drop 5 raw) = msgClientAuth" using assms(3,4) by (simp_all add: hd_drop_conv_nth)
  let ?l = "l\<lparr>lc_keys := Some k, lc_ticket := Some t\<rparr>"
  show thesis
  proof (cases "le_migrate e")
    case False
    then show thesis
      using assms(1,3,6) body found that [of ?l "[]"] by (simp add: on_frame_def onClientAuth_def migrate_notice_def)
  next
    case True
    then obtain b where b: "sendEncrypted (le_iv e (lc_s2cSeq l)) k msgMigrateInit [1] ?l =
        Some (?l\<lparr>lc_s2cSeq := lc_s2cSeq ?l + 1\<rparr>, b)"
      "open_message (sk_s2cAES k) (sk_s2cMAC k) b = Some (msgMigrateInit, [1])"
      using channel_round_trip [OF k_def [THEN meta_eq_to_obj_eq], of "le_iv e (lc_s2cSeq l)" "[1]" msgMigrateInit ?l] assms(7)
      by auto
    then show thesis
      using assms(1,3,6) body found True that [of "?l\<lparr>lc_s2cSeq := lc_s2cSeq ?l + 1\<rparr>" "[b]"]
      by (simp add: on_frame_def onClientAuth_def migrate_notice_def Let_def)
  qed
qed

text \<open>C11: The way of a player: a login was granted, with 64 random bytes and its files written, and
  then any other logins came, none with a key that starts with the same four bytes. In every reachable state of
  the network a waiting connection that shows the login's ticket and the tag of its key in a frame is answered with
  the check value of the session keys and, under \<open>CTR_MIGRATE\<close>, one message for these keys, and nothing else. It then
  has these keys, the next state is reachable, and the server takes the connection for the player of the
  login, in the game of the login; if the login had no user name, the ticket is kept waiting instead.\<close>

theorem granted_player_reaches_the_lobby:
  fixes env q d
  assumes "serveLogin env q d = (Granted body sg, d')"
    and "playerIdentity (ar_extra q) (le_claims env) = (p, nnex)"
    and "le_random env = Some key" and "length key = 64" and "le_writes env = (True, True, True)"
    and "later_logins key d' d2"
    and "findTicket raw = Some (clientTicket (le_clock env) (titleOf (ar_title q)) (pl_pid p) (le_random env))"
    and "14 \<le> length raw" and "raw ! 5 = msgClientAuth"
    and "last8 raw = sk_clientTag (deriveKeys (transcript l raw) (take 24 key))"
    and "reach net_init (net_step (en_marshal te)) w" and "nw_conns w n = Talking l" and "lc_keys l = None"
    and "\<not> busy n w" and "readFrame (lc_maxLen l) inp = FrFrame raw rest"
    and "wo_files (en_world te) = sd_ids d2"
    and "le_migrate e \<longrightarrow> length (le_iv e (lc_s2cSeq l)) = 16"
  defines "k \<equiv> deriveKeys (transcript l raw) (take 24 key)"
  shows "\<exists>w' out. handle_frame e iv te n raw l w = Some (Return w') \<and>
    reach net_init (net_step (en_marshal te)) w' \<and>
    (\<exists>l'. nw_conns w' n = Talking l' \<and> lc_keys l' = Some k) \<and>
    migrate_notice e k out \<and>
    nw_out w' = nw_out w @ map (Pair n) (frame (msgServerOK # sk_serverChk k) # out) \<and>
    (if pl_username p = ''''
     then so_pending (sv_social (ru_server (nw_run w'))) n =
       Some (clientTicket (le_clock env) (titleOf (ar_title q)) (pl_pid p) (le_random env))
     else so_online (sv_social (ru_server (nw_run w'))) n = Some (p\<lparr>pl_title := titleOf (ar_title q)\<rparr>) \<and>
       lu_player (user (ru_server (nw_run w')) n) = Some (p\<lparr>pl_title := titleOf (ar_title q)\<rparr>))"
proof -
  define t where "t = clientTicket (le_clock env) (titleOf (ar_title q)) (pl_pid p) (le_random env)"
  have key: "subslice 97 121 t = take 24 key"
    unfolding t_def by (rule issued_ticket(7) [OF assms(3,4)])
  obtain l' out where f: "on_frame e raw l = (True, l', EvSend (frame (msgServerOK # sk_serverChk k)) # map EvSend out)"
    and l': "lc_keys l' = Some k" "lc_ticket l' = Some t" and out: "migrate_notice e k out"
    unfolding k_def by (rule shown_ticket_frame [OF assms(7) [folded t_def] key assms(8-10,13,17)])
  let ?w = "w\<lparr>nw_run := identify (sd_ids d2) n (Some t) (nw_run w), nw_conns := (nw_conns w)(n := Talking l'),
    nw_out := nw_out w @ map (Pair n) (frame (msgServerOK # sk_serverChk k) # out)\<rparr>"
  have ev: "sends (map EvSend out) = out" "tasks (map EvSend out) = []"
    by (induction out) (simp_all add: sends_def tasks_def map_filter_simps)
  have h: "handle_frame e iv te n raw l w = Some (Return ?w)"
    using f l' ev assms(13,16) by (simp add: handle_frame_def sends_def tasks_def map_filter_simps)
  have "net_step (en_marshal te) w ?w" by (rule framed [OF assms(12,14) refl assms(15) h])
  then have "reach net_init (net_step (en_marshal te)) ?w" by (rule reach.reach_step [OF assms(11)])
  with h out l' show ?thesis
    using granted_player [OF assms(1-6), folded t_def, of n "sv_social (ru_server (nw_run w))"]
    unfolding t_def [symmetric]
    by (intro exI [of _ ?w] exI [of _ out] conjI) (simp_all add: identify_def user_def)
qed

text \<open>The example of the login, and a connection of its player.\<close>

lemma granted_player_reaches_the_lobby_witness:
  "\<exists>(w' :: network). reach net_init (net_step ex_marshal) w' \<and>
     lu_player (user (ru_server (nw_run w')) 1) = Some (LoginProps.ex_id\<lparr>pl_title := 5775\<rparr>)"
proof -
  obtain body d1 where g: "serveLogin ex_env ex_login ex_dir = (Granted body None, d1)" using ex_granted by blast
  have title: "titleOf (ar_title ex_login) = 5775"
    by (simp add: titleOf_def ex_login_def parse_uint_def parse_dec_def digit_value_def)
  let ?key = "replicate 64 (3 :: byte)"
  have env: "le_random ex_env = Some ?key" "length ?key = 64" "le_writes ex_env = (True, True, True)"
    "pl_username ex_id \<noteq> ''''"
    by (simp_all add: ex_env_def ex_id_def)
  define t where "t = clientTicket (le_clock ex_env) (titleOf (ar_title ex_login)) (pl_pid ex_id) (le_random ex_env)"
  note it = issued_ticket [OF env(1,2), of "le_clock ex_env" "titleOf (ar_title ex_login)" "pl_pid ex_id", folded t_def]
  have "le32 ticketMagic = ticket_magic" by code_simp
  then have magic: "take 4 t = ticket_magic"
    by (simp add: t_def clientTicket_def Let_def case_prod_beta) (simp add: ticket_magic_def)
  obtain w l where w: "reach net_init (net_step ex_marshal) w" "nw_conns w 1 = Talking l" "lc_keys l = None"
    "lc_maxLen l = 65536" "\<not> busy 1 w" by (rule ex_talking)
  define k where "k = deriveKeys (transcript l (auth_head @ t @ replicate 8 0)) (take 24 ?key)"
  define raw where "raw = auth_head @ t @ sk_clientTag k"
  have head: "length auth_head = 6" "auth_head ! 5 = msgClientAuth" "take 4 auth_head = le32 138"
    by (simp_all add: auth_head_def nth_append)
  have tag: "length (sk_clientTag k) = 8" using deriveKeys_ok by (simp add: k_def keys_ok_def)
  have len: "length raw = 142" using tag it(1) head by (simp add: raw_def)
  have trans: "transcript l raw = transcript l (auth_head @ t @ replicate 8 0)"
    using tag it(1) head by (simp add: transcript_def raw_def)
  have last: "last8 raw = sk_clientTag (deriveKeys (transcript l raw) (take 24 ?key))"
    unfolding trans k_def [symmetric] using tag it(1) head by (simp add: last8_def raw_def)
  have find: "findTicket raw = Some t" unfolding raw_def by (rule findTicket_shown [OF it(1) magic tag])
  have "well_framed (lc_maxLen l) raw"
    using len head w(4) by (simp add: well_framed_def raw_def)
  then have rd: "readFrame (lc_maxLen l) (raw @ []) = FrFrame raw []" by (rule readFrame_well_framed)
  define te where "te = ex_taskEnv\<lparr>en_world := (en_world ex_taskEnv)\<lparr>wo_files := sd_ids d1\<rparr>\<rparr>"
  have te: "en_marshal te = ex_marshal" "wo_files (en_world te) = sd_ids d1" by (simp_all add: te_def ex_taskEnv_def)
  have "14 \<le> length raw" "raw ! 5 = msgClientAuth" using len head by (simp_all add: raw_def nth_append)
  from granted_player_reaches_the_lobby [OF g ex_identity env(1-3) later_logins.none find [unfolded t_def] this last,
      where te = te and w = w and n = 1 and inp = "raw @ []" and rest = "[]" and e = sample_env and iv = ex_iv]
  show ?thesis using w rd te title env(4) by (auto simp: sample_env_def)
qed

end
