(* ===== verification/PartsProps.thy ===== *)
theory PartsProps
  imports NetworkProps ShopProps CtrProps
begin

text \<open>
  What the parts guarantee alone holds in the whole: on the network the relay's table and the account files take only
  the steps of their own machines, and the matchmaker's table keeps its invariant. Nothing is claimed here of who is
  online: \<open>retryPending\<close> is one step of the server machine, while the code drops its lock in between (see
  \<open>closed_connection_can_stay_online\<close> in \<open>FriendsProps\<close>).
\<close>

subsection \<open>Steps of the relay and of the accounts\<close>

definition drifts :: "server \<Rightarrow> server \<Rightarrow> bool" where
  "drifts s s' \<longleftrightarrow> relay_step\<^sup>*\<^sup>* (sv_relay s) (sv_relay s') \<and> advances (sv_economy s) (sv_economy s')"

lemma drifts_trans: "drifts s t \<Longrightarrow> drifts t u \<Longrightarrow> drifts s u"
  by (auto simp: drifts_def intro: rtranclp_trans advances_trans)

lemma drifts_same: "sv_relay s' = sv_relay s \<Longrightarrow> sv_economy s' = sv_economy s \<Longrightarrow> drifts s s'"
  by (simp add: drifts_def)

lemma relay_of_steps: "relay_step\<^sup>*\<^sup>* t (snd (relay_of e addr h j t))"
proof -
  have "relay_step t t'" if "pairFor listen now h j dst t = (p, t')" for listen now dst p t'
    using relay_step.pair [of t listen now h j dst] that by simp
  then show ?thesis
    by (auto simp: relay_of_def withRelay_def split: option.splits prod.splits)
qed

lemma session_results_steps: "relay_step\<^sup>*\<^sup>* t (snd (session_results (relay_of e) l ss t))"
proof (induction ss arbitrary: t)
  case (Cons s ss)
  obtain b t1 where one: "session_result (relay_of e) l s t = (b, t1)" by fastforce
  have "relay_step\<^sup>*\<^sup>* t t1"
    using one relay_of_steps [of t e "ms_hostAddr s" "ms_ownerPID s" "pid l"]
    by (auto simp: session_result_def split: prod.splits)
  then show ?case
    using one Cons.IH [of t1] by (auto split: prod.splits)
qed simp

lemma findSessions_steps: "relay_step\<^sup>*\<^sup>* t (snd (findSessions (relay_of e) order l c txn task r m t))"
  by (auto simp: findSessions_def Let_def split: prod.splits) (metis session_results_steps snd_conv)+

lemma onFriendSessions_steps:
  "relay_step\<^sup>*\<^sup>* t (snd (onFriendSessions (relay_of e) order online txn l c task r m t))"
  by (auto simp: onFriendSessions_def Let_def split: prod.splits) (metis session_results_steps snd_conv)

lemma onMatchMakingContext_steps:
  "relay_step\<^sup>*\<^sup>* t (snd (snd (onMatchMakingContext (relay_of e) order now rid txn l c task r m t)))"
  using findSessions_steps [of t e order l c txn task r m]
  by (auto simp: onMatchMakingContext_def split: prod.splits)

subsection \<open>Tasks\<close>

definition drifting :: "server \<Rightarrow> answer \<Rightarrow> bool" where
  "drifting s x \<longleftrightarrow> (\<forall>b a s'. x = Some (Return (b, a, s')) \<longrightarrow> drifts s s')"

lemma drifting_simps [simp]:
  "drifting s (answer b a s') \<longleftrightarrow> drifts s s'" "drifting s None" "drifting s (Some Panic)"
  by (auto simp: drifting_def answer_def)

lemma start_in_range: "in_i64 (startingBalance env)"
  by (auto simp: startingBalance_def parse_int64_def in_i64_def Let_def split: option.splits prod.splits if_splits)

lemma relay_services_drift:
  "drifting s (friend_games e n c txn task r s)" "drifting s (match_service e n c txn task r s)"
  using onFriendSessions_steps [of "sv_relay s" e "en_order e"]
    onMatchMakingContext_steps [of "sv_relay s" e "en_order e" "en_now e" "en_rid e" txn "user s n" c task r "sv_sessions s"]
  by (auto simp: friend_games_def match_service_def drifts_def split: prod.splits) (metis snd_conv)

lemma shop_services_drift:
  "drifting s (achievements_service e n txn task payload s)" "drifting s (marketplace_service e n txn task payload s)"
  using onAchievements_advances [OF start_in_range [of "en_start e"]] onMarketplace_advances [OF start_in_range [of "en_start e"]]
  by (auto simp: achievements_service_def marketplace_service_def drifts_def
      split: prod.splits option.splits outcome.splits)

lemma other_services_drift:
  "drifting s (stats_service e n txn task r s)" "drifting s (storage_service e txn task r s)"
  "drifting s (names_service e txn task r s)" "drifting s (user_data_service e n txn task r s)"
  "drifting s (presence_service e n txn task r s)" "drifting s (async_service e n txn task r s)"
  by (auto simp: stats_service_def storage_service_def names_service_def user_data_service_def presence_service_def
      async_service_def sync_documents_def start_search_def lobby_documents_def
      split: prod.splits sum.splits option.splits loaded.splits intro!: drifts_same)

lemma serve_drifts: "drifting s (serve e n service txn task r payload s)"
  by (simp add: serve_def context_service_def relay_services_drift shop_services_drift other_services_drift drifts_same
      split: prod.split sum.split)

lemma onTask_drifts:
  assumes "onTask e n payload s = Some (Return (x, a, s'))"
  shows "drifts s s'"
proof (cases "length payload \<ge> 3")
  case True
  from onTask_result [OF True assms] show ?thesis
  proof cases
    case (2 task r b)
    then show ?thesis
      using serve_drifts [of "note_server e n (payload ! 0) task s" e n "payload ! 0" "sv_txn s + 1" task r payload]
      by (simp add: drifting_def note_server_def drifts_def)
  qed (simp add: drifts_same)
next
  case False
  then show ?thesis using assms by (simp add: onTask_def drifts_same)
qed

lemma after_reply_drifts: "drifts s (snd (after_reply e n a s))"
  using run_after_advances [OF start_in_range [of "en_start e"]]
  by (auto simp: after_reply_def drifts_def split: after.splits prod.splits)

lemma background_drifts: "background s s' \<Longrightarrow> drifts s s'"
proof (induction rule: background.induct)
  case (relayed s now key src)
  have "relay_step\<^sup>*\<^sup>* (sv_relay s) (fst (serve_packet now key src (sv_relay s)))"
    by (rule r_into_rtranclp [of relay_step], rule relay_step.packet)
  then show ?case by (simp add: drifts_def)
next
  case (relay_reaped s now)
  have "relay_step\<^sup>*\<^sup>* (sv_relay s) (relay_reap now (sv_relay s))"
    by (rule r_into_rtranclp [of relay_step], rule relay_step.sweep)
  then show ?case by (simp add: drifts_def)
qed (simp_all add: drifts_same)

lemma server_step_drifts:
  assumes "server_step marshal v v'"
  shows "drifts (ru_server v) (ru_server v')"
  using assms
  by (cases rule: server_stepE)
     (auto intro: onTask_drifts after_reply_drifts background_drifts drifts_same
       simp: open_conn_def close_conn_def Let_def)

lemma server_run_drifts: "(server_step marshal)\<^sup>*\<^sup>* v v' \<Longrightarrow> drifts (ru_server v) (ru_server v')"
  by (induction rule: rtranclp_induct) (auto intro: drifts_same drifts_trans server_step_drifts)

text \<open>The relay keeps its range.\<close>

lemma relay_step_range: "relay_step t t' \<Longrightarrow> rt_low t' = rt_low t \<and> rt_high t' = rt_high t"
proof (induction rule: relay_step.induct)
  case (pair t listen now h j host)
  obtain r t1 where "port_scan (nat (rt_high t - rt_low t + 1)) listen t = (r, t1)" by fastforce
  with port_scan_frame [OF this] show ?case
    by (auto simp: pairFor_def Let_def split: option.splits)
qed (auto simp: serve_packet_def relay_packet_def relay_reap_def Let_def split: option.splits prod.splits)

lemma relay_run_range: "relay_step\<^sup>*\<^sup>* t t' \<Longrightarrow> rt_low t' = rt_low t \<and> rt_high t' = rt_high t"
  by (induction rule: rtranclp_induct) (simp_all add: relay_step_range)

lemma relay_run_inv: "relay_step\<^sup>*\<^sup>* t t' \<Longrightarrow> relay_inv t \<Longrightarrow> relay_inv t'"
  by (induction rule: rtranclp_induct) (auto intro: relay_step_inv)

lemma run_keeps_ok: "(server_step marshal)\<^sup>*\<^sup>* v v' \<Longrightarrow> run_ok v \<Longrightarrow> run_ok v'"
  by (induction rule: rtranclp_induct) (auto intro: run_ok_step)

subsection \<open>The network\<close>

lemma net_run:
  assumes "net_init w0" and "(net_step marshal)\<^sup>*\<^sup>* w0 w"
  shows "(server_step marshal)\<^sup>*\<^sup>* (nw_run w0) (nw_run w)" and "run_ok (nw_run w0)"
proof -
  have "run_init (nw_run w0)" using assms(1) by (simp add: net_init_def)
  then show ok: "run_ok (nw_run w0)" by (rule run.init_inv)
  have "net_ok w0 (nw_run w0)" using assms(1) ok by (simp add: net_ok_def net_init_def conns_ok_def conn_ok_def)
  from net.run_match [OF assms(2) this] show "(server_step marshal)\<^sup>*\<^sup>* (nw_run w0) (nw_run w)"
    by (auto simp: net_ok_def)
qed

text \<open>C13: In every run of the network that starts with an enabled relay and account files in order: no two relayed pairs
  share a port and every port lies in the range of the start; no account loses an item or a receipt, and balances
  are 64-bit integers; and no lobby of the matchmaker holds more people, reserved ones included, than its capacity or
  than eight.\<close>

theorem network_keeps_its_parts:
  assumes "net_init w0" and "relay_init (sv_relay (ru_server (nw_run w0)))"
    and "store_ok (sv_economy (ru_server (nw_run w0)))" and "(net_step marshal)\<^sup>*\<^sup>* w0 w"
  defines "s0 \<equiv> ru_server (nw_run w0)" and "s \<equiv> ru_server (nw_run w)"
  shows "(\<forall>k k' p p'. rt_pairs (sv_relay s) k = Some p \<longrightarrow> rt_pairs (sv_relay s) k' = Some p' \<longrightarrow>
       (rp_port p = rp_port p' \<longrightarrow> k = k') \<and> rt_low (sv_relay s0) \<le> rp_port p \<and> rp_port p \<le> rt_high (sv_relay s0)) \<and>
    (\<forall>u a. stored_account (sv_economy s0) u = Some a \<longrightarrow>
       (\<exists>b. stored_account (sv_economy s) u = Some b \<and> ea_items a \<subseteq> ea_items b \<and> ea_receipts a \<subseteq> ea_receipts b)) \<and>
    (\<forall>u b c v. stored_account (sv_economy s) u = Some b \<longrightarrow> ea_balances b c = Some v \<longrightarrow> in_i64 v) \<and>
    (\<forall>i r. live_room (sv_mm s) i = Some r \<longrightarrow>
       occupancy (mm_heap (sv_mm s)) r \<le> rm_capacity r \<and> rm_capacity r \<le> 8)"
proof (intro conjI)
  note run = net_run [OF assms(1,4)]
  have d: "relay_step\<^sup>*\<^sup>* (sv_relay s0) (sv_relay s)" "advances (sv_economy s0) (sv_economy s)"
    using server_run_drifts [OF run(1)] by (simp_all add: drifts_def s0_def s_def)
  have inv: "relay_inv (sv_relay s)"
    using relay_run_inv [OF d(1)] relay_init_inv assms(2) by (simp add: s0_def)
  show "\<forall>k k' p p'. rt_pairs (sv_relay s) k = Some p \<longrightarrow> rt_pairs (sv_relay s) k' = Some p' \<longrightarrow>
       (rp_port p = rp_port p' \<longrightarrow> k = k') \<and> rt_low (sv_relay s0) \<le> rp_port p \<and> rp_port p \<le> rt_high (sv_relay s0)"
    using relay_invD(1,2) [OF inv] relay_run_range [OF d(1)] by (metis option.inject)
  have ok: "store_ok (sv_economy s)" using d(2) assms(3) by (simp add: advances_def s0_def)
  show "\<forall>u a. stored_account (sv_economy s0) u = Some a \<longrightarrow>
       (\<exists>b. stored_account (sv_economy s) u = Some b \<and> ea_items a \<subseteq> ea_items b \<and> ea_receipts a \<subseteq> ea_receipts b)"
    using d(2) unfolding advances_def grows_def by blast
  show "\<forall>u b c v. stored_account (sv_economy s) u = Some b \<longrightarrow> ea_balances b c = Some v \<longrightarrow> in_i64 v"
    using ok unfolding store_ok_def account_ok_def by blast
  have "mm_inv (sv_mm s)" unfolding s_def by (rule run_mm_inv [OF run_keeps_ok [OF run]])
  then show "\<forall>i r. live_room (sv_mm s) i = Some r \<longrightarrow>
       occupancy (mm_heap (sv_mm s)) r \<le> rm_capacity r \<and> rm_capacity r \<le> 8"
    using occ_capacity by blast
qed

text \<open>A start with a relay and the example's account file, and a first connection.\<close>

lemma network_keeps_its_parts_witness:
  "\<exists>w (w0 :: network) b. (net_step ex_marshal)\<^sup>*\<^sup>* w0 w \<and> nw_conns w 1 = Accepted \<and>
     stored_account (sv_economy (ru_server (nw_run w))) 8 = Some b \<and> ea_items ex_account \<subseteq> ea_items b"
proof -
  let ?t = "\<lparr>rt_pairs = Map.empty, rt_byPort = Map.empty, rt_low = 40000, rt_high = 40009, rt_next = 40000,
    rt_ip = (1, 2, 3, 4)\<rparr>"
  let ?s = "start_server ?t ex_store ex_stats
    \<lparr>pd_config = Absent, pd_riftNames = None, pd_rift = Map.empty, pd_pubNames = None, pd_pub = Map.empty\<rparr>"
  let ?w0 = "\<lparr>nw_run = \<lparr>ru_server = ?s, ru_used = {}, ru_open = {}, ru_keyed = {}, ru_pending = []\<rparr>,
    nw_conns = (\<lambda>_. Ended), nw_out = []\<rparr>"
  have i: "net_init ?w0" unfolding net_init_def run_init_def by (simp, blast)
  have r: "relay_init (sv_relay (ru_server (nw_run ?w0)))" by (simp add: start_server_def relay_init_def)
  have e: "store_ok (sv_economy (ru_server (nw_run ?w0)))" using ex_store_ok by (simp add: start_server_def)
  have "1 \<notin> ru_used (nw_run ?w0)" by simp
  from accepted_step [OF this] obtain w where w: "net_step ex_marshal ?w0 w" "nw_conns w 1 = Accepted" by blast
  from network_keeps_its_parts [OF i r e r_into_rtranclp [of "net_step ex_marshal", OF w(1)]]
  have "\<forall>u a. stored_account ex_store u = Some a \<longrightarrow>
      (\<exists>b. stored_account (sv_economy (ru_server (nw_run w))) u = Some b \<and> ea_items a \<subseteq> ea_items b)"
    by (simp add: start_server_def) blast
  then obtain b where "stored_account (sv_economy (ru_server (nw_run w))) 8 = Some b" "ea_items ex_account \<subseteq> ea_items b"
    using ex_stored by blast
  with w r_into_rtranclp [of "net_step ex_marshal", OF w(1)] show ?thesis by blast
qed

end
